(* ===== verification/Wave_Prelude.thy ===== *)
theory Wave_Prelude
  imports Main "HOL-Library.Word" "HOL-Library.List_Lexorder" "HOL-Library.AList"
    "HOL-Library.Sublist"
begin

text \<open>
  Shared vocabulary of the WaveSpan development: byte strings and their order, the fixed-width
  and variable-width integer encodings of Go's \<open>encoding/binary\<close>, signed readings of 64-bit words
  and association lists standing for Go maps.

  A Go \<open>[]byte\<close> and a Go \<open>string\<close> are both sequences of bytes, compared lexicographically byte by
  byte (\<open>bytes.Compare\<close>, \<open>strings.Compare\<close>); both are \<open>bytes\<close> here, with the lexicographic order of
  \<open>HOL-Library.List_Lexorder\<close>.  \<open>uint64\<close> and \<open>int64\<close> are 64-bit words, read with \<open>unat\<close> and \<open>sint\<close>.
\<close>

type_synonym byte = "8 word"
type_synonym bytes = "byte list"
type_synonym u32 = "32 word"
type_synonym u64 = "64 word"
type_synonym i64 = "64 word"

named_theorems wire_simps "round trips and lengths of the byte encodings"
named_theorems view_simps "the key-value view of a store after a write"

section \<open>Byte strings\<close>

text \<open>An ASCII literal as a byte string.\<close>

definition str :: "string \<Rightarrow> bytes" where
  "str s = map of_char s"

text \<open>\<open>bytes.Compare\<close> and \<open>strings.Compare\<close>.\<close>

definition cmp_bytes :: "bytes \<Rightarrow> bytes \<Rightarrow> int" where
  "cmp_bytes a b = (if a < b then -1 else if b < a then 1 else 0)"

lemma cmp_bytes_less_0 [simp]: "cmp_bytes a b < 0 \<longleftrightarrow> a < b"
  by (auto simp: cmp_bytes_def)

lemma cmp_bytes_eq_0 [simp]: "cmp_bytes a b = 0 \<longleftrightarrow> a = b"
  by (auto simp: cmp_bytes_def)

lemma cmp_bytes_ge_0 [simp]: "0 \<le> cmp_bytes a b \<longleftrightarrow> b \<le> a"
  by (auto simp: cmp_bytes_def)

lemma cmp_bytes_greater_0 [simp]: "0 < cmp_bytes a b \<longleftrightarrow> b < a"
  by (auto simp: cmp_bytes_def)

lemma append_less_append_same [simp]:
  fixes p a b :: "'a::linorder list"
  shows "p @ a < p @ b \<longleftrightarrow> a < b"
  by (induction p) auto

lemma append_le_append_same [simp]:
  fixes p a b :: "'a::linorder list"
  shows "p @ a \<le> p @ b \<longleftrightarrow> a \<le> b"
  by (induction p) auto

lemma append_less_append_length:
  fixes a b c d :: "'a::linorder list"
  assumes "length a = length b"
  shows "a @ c < b @ d \<longleftrightarrow> a < b \<or> a = b \<and> c < d"
  using assms by (induction a b rule: list_induct2) auto

lemma prefix_imp_le:
  fixes p k :: "'a::linorder list"
  shows "prefix p k \<Longrightarrow> p \<le> k"
  by (induction p arbitrary: k) (auto simp: prefix_def)

lemma set_map_filter_iff: "set (List.map_filter f xs) = {y. \<exists>x \<in> set xs. f x = Some y}"
  by (induction xs) (auto split: option.splits)

section \<open>Big-endian integers\<close>

text \<open>\<open>be n x\<close> is the big-endian encoding of \<open>x\<close> in \<open>n\<close> bytes and \<open>unbe\<close> its inverse; they are
  \<open>binary.BigEndian.PutUint64\<close>/\<open>PutUint32\<close> and \<open>Uint64\<close>/\<open>Uint32\<close> at \<open>n = 8\<close> and \<open>n = 4\<close>.\<close>

fun be :: "nat \<Rightarrow> nat \<Rightarrow> bytes" where
  "be 0 x = []"
| "be (Suc n) x = be n (x div 256) @ [of_nat (x mod 256)]"

definition unbe :: "bytes \<Rightarrow> nat" where
  "unbe bs = foldl (\<lambda>a b. a * 256 + unat b) 0 bs"

definition PutUint64 :: "u64 \<Rightarrow> bytes" where
  "PutUint64 w = be 8 (unat w)"

definition PutUint32 :: "u32 \<Rightarrow> bytes" where
  "PutUint32 w = be 4 (unat w)"

text \<open>Reads of the leading 8 (4) bytes; the callers have checked the length.\<close>

definition Uint64 :: "bytes \<Rightarrow> u64" where
  "Uint64 bs = of_nat (unbe (take 8 bs))"

definition Uint32 :: "bytes \<Rightarrow> u32" where
  "Uint32 bs = of_nat (unbe (take 4 bs))"

text \<open>The same encodings on integers, for evaluation.\<close>

fun ibe :: "nat \<Rightarrow> int \<Rightarrow> bytes" where
  "ibe 0 x = []"
| "ibe (Suc n) x = ibe n (x div 256) @ [of_int x]"

lemma be_int: "be n x = ibe n (int x)"
proof (induction n arbitrary: x)
  case (Suc n)
  have "(of_nat (x mod 256) :: byte) = of_nat x"
    by (simp add: word_unat_eq_iff unat_of_nat)
  then show ?case using Suc by (simp add: zdiv_int)
qed simp

lemma PutUint_code [code]:
  "PutUint64 w = ibe 8 (uint w)" "PutUint32 v = ibe 4 (uint v)"
  by (simp_all add: PutUint64_def PutUint32_def be_int)

definition iunbe :: "bytes \<Rightarrow> int" where
  "iunbe bs = foldl (\<lambda>a b. a * 256 + uint b) 0 bs"

lemma unbe_int: "int (unbe bs) = iunbe bs"
  by (induction bs rule: rev_induct) (simp_all add: unbe_def iunbe_def)

lemma Uint_code [code]:
  "Uint64 bs = of_int (iunbe (take 8 bs))" "Uint32 bs = of_int (iunbe (take 4 bs))"
  by (simp_all add: Uint64_def Uint32_def unbe_int [symmetric])

lemma length_be [simp, wire_simps]: "length (be n x) = n"
  by (induction n arbitrary: x) auto

lemma unbe_snoc: "unbe (bs @ [b]) = unbe bs * 256 + unat b"
  by (simp add: unbe_def)

lemma unbe_Nil [simp]: "unbe [] = 0"
  by (simp add: unbe_def)

lemma unat_of_nat_byte: "unat (of_nat (x mod 256) :: byte) = x mod 256"
  by (simp add: unat_of_nat)

lemma unbe_be: "unbe (be n x) = x mod 256 ^ n"
proof (induction n arbitrary: x)
  case (Suc n)
  have "unbe (be (Suc n) x) = (x div 256 mod 256 ^ n) * 256 + x mod 256"
    by (simp add: unbe_snoc Suc.IH unat_of_nat_byte )
  also have "\<dots> = x mod (256 * 256 ^ n)"
    by (simp add: mod_mult2_eq)
  finally show ?case by simp
qed simp

lemma be_unbe: "length bs = n \<Longrightarrow> be n (unbe bs) = bs"
proof (induction n arbitrary: bs)
  case (Suc n)
  then obtain cs b where bs: "bs = cs @ [b]" "length cs = n"
    by (cases bs rule: rev_cases) auto
  have "unat b < 256" using unsigned_less [of b, where ?'a = nat] by simp
  then show ?case
    by (simp add: bs unbe_snoc Suc.IH)
qed simp

lemma unbe_less: "unbe bs < 256 ^ length bs"
proof (induction bs rule: rev_induct)
  case (snoc b bs)
  have "unat b < 256" using unsigned_less [of b, where ?'a = nat] by simp
  moreover have "(unbe bs + 1) * 256 \<le> 256 ^ length bs * 256"
    using snoc by (simp add: Suc_leI)
  ultimately show ?case by (simp add: unbe_snoc)
qed simp

lemma be_inj: "x < 256 ^ n \<Longrightarrow> y < 256 ^ n \<Longrightarrow> be n x = be n y \<longleftrightarrow> x = y"
  by (metis mod_less unbe_be)

lemma div_mod_less_iff:
  fixes x y :: nat
  shows "x div 256 < y div 256 \<or> x div 256 = y div 256 \<and> x mod 256 < y mod 256 \<longleftrightarrow> x < y"
proof -
  have aux: "a < b \<or> a = b \<and> r < s \<longleftrightarrow> a * 256 + r < b * 256 + s"
    if "r < 256" "s < 256" for a b r s :: nat
    using that by arith
  show ?thesis
    using aux [of "x mod 256" "y mod 256" "x div 256" "y div 256"] by simp
qed

text \<open>Big-endian encodings of one width compare as the numbers do.\<close>

lemma be_less_iff:
  "x < 256 ^ n \<Longrightarrow> y < 256 ^ n \<Longrightarrow> be n x < be n y \<longleftrightarrow> x < y"
proof (induction n arbitrary: x y)
  case (Suc n)
  have "x div 256 < 256 ^ n" "y div 256 < 256 ^ n"
    using Suc.prems by (simp_all add: less_mult_imp_div_less mult.commute)
  note IH = Suc.IH [OF this] and inj = be_inj [OF this]
  have "(of_nat (x mod 256) :: byte) < of_nat (y mod 256) \<longleftrightarrow> x mod 256 < y mod 256"
    by (simp add: word_less_nat_alt unat_of_nat_byte )
  then have "be (Suc n) x < be (Suc n) y \<longleftrightarrow>
      x div 256 < y div 256 \<or> x div 256 = y div 256 \<and> x mod 256 < y mod 256"
    by (simp add: append_less_append_length IH inj)
  also have "\<dots> \<longleftrightarrow> x < y"
    by (rule div_mod_less_iff)
  finally show ?case .
qed simp

lemma u64_lt [simp]: "unat (w :: u64) < 256 ^ 8"
  using unsigned_less [of w, where ?'a = nat] by simp

lemma u32_lt [simp]: "unat (w :: u32) < 256 ^ 4"
  using unsigned_less [of w, where ?'a = nat] by simp

lemma length_PutUint64 [simp, wire_simps]: "length (PutUint64 w) = 8"
  by (simp add: PutUint64_def)

lemma length_PutUint32 [simp, wire_simps]: "length (PutUint32 w) = 4"
  by (simp add: PutUint32_def)

lemma unbe_be_u64: "unbe (be 8 (unat (w :: u64))) = unat w"
  by (simp only: unbe_be mod_less [OF u64_lt])

lemma unbe_be_u32: "unbe (be 4 (unat (w :: u32))) = unat w"
  by (simp only: unbe_be mod_less [OF u32_lt])

lemma Uint64_PutUint64 [simp, wire_simps]: "Uint64 (PutUint64 w @ rest) = w"
  by (simp add: Uint64_def PutUint64_def unbe_be_u64)

lemma Uint32_PutUint32 [simp, wire_simps]: "Uint32 (PutUint32 w @ rest) = w"
  by (simp add: Uint32_def PutUint32_def unbe_be_u32)

lemma Uint64_PutUint64_Nil [simp, wire_simps]: "Uint64 (PutUint64 w) = w"
  using Uint64_PutUint64 [of w "[]"] by simp

lemma Uint32_PutUint32_Nil [simp, wire_simps]: "Uint32 (PutUint32 w) = w"
  using Uint32_PutUint32 [of w "[]"] by simp

lemma PutUint64_inject [simp]: "PutUint64 a = PutUint64 b \<longleftrightarrow> a = b"
  by (metis Uint64_PutUint64_Nil)

lemma PutUint32_inject [simp]: "PutUint32 a = PutUint32 b \<longleftrightarrow> a = b"
  by (metis Uint32_PutUint32_Nil)

lemma PutUint64_less_iff [simp]: "PutUint64 a < PutUint64 b \<longleftrightarrow> a < b"
  by (simp only: PutUint64_def be_less_iff [OF u64_lt u64_lt] word_less_nat_alt)

lemma PutUint32_less_iff [simp]: "PutUint32 a < PutUint32 b \<longleftrightarrow> a < b"
  by (simp only: PutUint32_def be_less_iff [OF u32_lt u32_lt] word_less_nat_alt)

lemma PutUint64_append_inject [simp]:
  "PutUint64 a @ xs = PutUint64 b @ ys \<longleftrightarrow> a = b \<and> xs = ys"
  by (simp add: append_eq_append_conv)

lemma PutUint64_neq_Nil [simp]: "PutUint64 a \<noteq> []"
  by (metis length_PutUint64 list.size(3) zero_neq_numeral)

section \<open>Unsigned varints\<close>

text \<open>\<open>binary.PutUvarint\<close>: seven bits per byte, low group first, the top bit set on all but the
  last byte.\<close>

fun PutUvarint :: "nat \<Rightarrow> bytes" where
  "PutUvarint x = (if x < 128 then [of_nat x]
     else of_nat (x mod 128 + 128) # PutUvarint (x div 128))"

declare PutUvarint.simps [simp del]

text \<open>\<open>binary.Uvarint\<close>: the value and the number of bytes read, \<open>0\<close> when the buffer is too short and
  negative on overflow.\<close>

fun Uvarint_loop :: "bytes \<Rightarrow> nat \<Rightarrow> nat \<Rightarrow> nat \<Rightarrow> nat \<times> int" where
  "Uvarint_loop [] i s x = (0, 0)"
| "Uvarint_loop (b # bs) i s x =
     (if i = 10 then (0, - (int i + 1))
      else if b < 128 then
        (if i = 9 \<and> b > 1 then (0, - (int i + 1)) else (x + unat b * 2 ^ s, int i + 1))
      else Uvarint_loop bs (i + 1) (s + 7) (x + unat b mod 128 * 2 ^ s))"

definition Uvarint :: "bytes \<Rightarrow> nat \<times> int" where
  "Uvarint bs = Uvarint_loop bs 0 0 0"

lemma unat_of_nat_small: "x < 256 \<Longrightarrow> unat (of_nat x :: byte) = x"
  by (simp add: unat_of_nat)

lemma PutUvarint_neq_Nil [simp]: "PutUvarint x \<noteq> []"
  by (subst PutUvarint.simps) simp

lemma Uvarint_loop_PutUvarint:
  assumes "n < 2 ^ (64 - 7 * i)" "i \<le> 9"
  shows "Uvarint_loop (PutUvarint n @ rest) i s x =
    (x + n * 2 ^ s, int i + int (length (PutUvarint n)))"
  using assms
proof (induction n arbitrary: i s x rule: PutUvarint.induct)
  case (1 n)
  show ?case
  proof (cases "n < 128")
    case True
    then have u: "unat (of_nat n :: byte) = n" by (simp add: unat_of_nat_small)
    then have "(of_nat n :: byte) < 128" using True by (simp add: word_less_nat_alt)
    moreover have "\<not> (i = 9 \<and> (of_nat n :: byte) > 1)"
      using "1.prems" u by (auto simp: word_less_nat_alt)
    ultimately show ?thesis
      using True "1.prems" u by (simp add: PutUvarint.simps [of n])
  next
    case False
    have i: "i < 9"
    proof (rule ccontr)
      assume "\<not> i < 9"
      then have "i = 9" using "1.prems" by simp
      then show False using False "1.prems" by simp
    qed
    let ?b = "of_nat (n mod 128 + 128) :: byte"
    have u: "unat ?b = n mod 128 + 128" by (rule unat_of_nat_small) simp
    have b: "\<not> ?b < 128" using u by (simp add: word_less_nat_alt)
    have "2 ^ (64 - 7 * i) = (2 ^ (64 - 7 * (i + 1)) * 128 :: nat)"
    proof -
      have "64 - 7 * i = (64 - 7 * (i + 1)) + 7" using i by simp
      then show ?thesis by (simp only: power_add) simp
    qed
    then have "n div 128 < 2 ^ (64 - 7 * (i + 1))"
      using "1.prems" by (simp add: less_mult_imp_div_less)
    note IH = "1.IH" [OF False this, of "s + 7" "x + unat ?b mod 128 * 2 ^ s"]
    have "n * 2 ^ s = n mod 128 * 2 ^ s + n div 128 * 2 ^ (s + 7)"
    proof -
      have "n * 2 ^ s = (n mod 128 + 128 * (n div 128)) * 2 ^ s"
        by (simp only: mod_mult_div_eq)
      then show ?thesis by (simp only: add_mult_distrib power_add) simp
    qed
    then show ?thesis
      using False b i IH u by (simp add: PutUvarint.simps [of n])
  qed
qed

lemma Uvarint_PutUvarint [simp, wire_simps]:
  "n < 2 ^ 64 \<Longrightarrow> Uvarint (PutUvarint n @ rest) = (n, int (length (PutUvarint n)))"
  using Uvarint_loop_PutUvarint [of n 0 rest 0 0] by (simp add: Uvarint_def)

lemma of_nat_byte_eq_iff: "x < 256 \<Longrightarrow> y < 256 \<Longrightarrow> (of_nat x :: byte) = of_nat y \<longleftrightarrow> x = y"
  by (metis unat_of_nat_small)

text \<open>The code is prefix-free.\<close>

lemma PutUvarint_append_inject:
  "PutUvarint m @ xs = PutUvarint n @ ys \<longleftrightarrow> m = n \<and> xs = ys"
proof (induction m arbitrary: n rule: PutUvarint.induct)
  case (1 m)
  have neq: "(of_nat (a mod 128 + 128) :: byte) = of_nat b \<longleftrightarrow> a mod 128 + 128 = b" if "b < 256" for a b :: nat
    using that mod_less_divisor [of 128 a] by (intro of_nat_byte_eq_iff) auto
  have dm: "a = b \<longleftrightarrow> a mod 128 = b mod 128 \<and> a div 128 = b div 128" for a b :: nat
    by (metis div_mult_mod_eq)
  have bnd: "a mod 128 + 128 < 256" for a :: nat
    using mod_less_divisor [of 128 a] by simp
  show ?case
  proof (cases "m < 128")
    case True
    then show ?thesis
      using neq [of m n] of_nat_byte_eq_iff [of m n] of_nat_byte_eq_iff [of m "n mod 128 + 128"] bnd [of n]
      by (auto simp: PutUvarint.simps [of m] PutUvarint.simps [of n])
  next
    case False
    have m: "PutUvarint m = of_nat (m mod 128 + 128) # PutUvarint (m div 128)"
      using False by (subst PutUvarint.simps) simp
    show ?thesis
    proof (cases "n < 128")
      case True
      then show ?thesis
        using False neq [of n m] unfolding m PutUvarint.simps [of n] by simp
    next
      case n: False
      have "PutUvarint m @ xs = PutUvarint n @ ys \<longleftrightarrow>
          m mod 128 = n mod 128 \<and> m div 128 = n div 128 \<and> xs = ys"
        unfolding m PutUvarint.simps [of n] using n neq [OF bnd, of m n] 1 [OF False, of "n div 128"]
        by simp
      then show ?thesis using dm [of m n] by blast
    qed
  qed
qed

lemma hd_PutUvarint_small: "n < 128 \<Longrightarrow> PutUvarint n = [of_nat n]"
  by (subst PutUvarint.simps) simp

section \<open>The end of a prefix range\<close>

text \<open>\<open>prefixEnd\<close> (recordstore/store.go and collections/command.go hold the same loop): drop trailing
  \<open>0xff\<close> bytes, increment the last remaining byte; \<open>None\<close> is the \<open>nil\<close> result, an unbounded scan.\<close>

fun prefixEnd_rev :: "bytes \<Rightarrow> bytes option" where
  "prefixEnd_rev [] = None"
| "prefixEnd_rev (b # bs) =
     (if b \<noteq> 0xff then Some (rev ((b + 1) # bs)) else prefixEnd_rev bs)"

definition prefixEnd :: "bytes \<Rightarrow> bytes option" where
  "prefixEnd p = prefixEnd_rev (rev p)"

text \<open>A key of the half-open range \<open>[start, end)\<close>, a \<open>nil\<close> bound being absent.\<close>

definition in_range :: "bytes option \<Rightarrow> bytes option \<Rightarrow> bytes \<Rightarrow> bool" where
  "in_range lo hi k \<longleftrightarrow>
     (case lo of None \<Rightarrow> True | Some l \<Rightarrow> l \<le> k) \<and> (case hi of None \<Rightarrow> True | Some h \<Rightarrow> k < h)"

lemma byte_less_Suc:
  assumes "b \<noteq> 0xff"
  shows "(x :: byte) < b + 1 \<longleftrightarrow> x \<le> b"
proof -
  have "1 + b \<noteq> 0"
  proof
    assume "1 + b = 0"
    then have "b = - 1" by (simp add: add_eq_0_iff)
    then show False using assms by simp
  qed
  then have "unat (b + 1) = Suc (unat b)"
    by (metis add.commute unatSuc)
  then show ?thesis
    by (simp add: word_less_nat_alt word_le_nat_alt less_Suc_eq_le)
qed

lemma prefixEnd_snoc:
  "prefixEnd (p @ [b]) = (if b \<noteq> 0xff then Some (p @ [b + 1]) else prefixEnd p)"
  by (simp add: prefixEnd_def)

lemma prefixEnd_Nil [simp]: "prefixEnd [] = None"
  by (simp add: prefixEnd_def)

lemma range_next_byte:
  assumes "b \<noteq> (0xff :: byte)"
  shows "p @ [b] \<le> k \<and> k < p @ [b + 1] \<longleftrightarrow> prefix (p @ [b]) k"
proof (induction p arbitrary: k)
  case Nil
  show ?case
    by (cases k) (auto simp: byte_less_Suc [OF assms])
next
  case (Cons a p)
  show ?case
    by (cases k) (auto simp flip: Cons.IH)
qed

lemma byte_max: "(b :: byte) \<le> 0xff"
  by (simp add: word_le_nat_alt) (use unsigned_less [of b, where ?'a = nat] in simp)

lemma byte_not_gt_max [simp]: "\<not> (0xff :: byte) < b"
  using byte_max [of b] by (simp only: not_less)

lemma range_max_byte:
  "prefix p k \<and> p @ [0xff] \<le> k \<longleftrightarrow> prefix (p @ [0xff :: byte]) k"
proof (induction p arbitrary: k)
  case Nil
  show ?case
    by (cases k) auto
next
  case (Cons a p)
  show ?case
    by (cases k) (use Cons.IH in \<open>auto\<close>)
qed

text \<open>The range from a prefix to its \<open>prefixEnd\<close> is exactly the keys with that prefix.\<close>

lemma in_range_prefixEnd: "in_range (Some p) (prefixEnd p) k \<longleftrightarrow> prefix p k"
proof (induction p rule: rev_induct)
  case Nil
  show ?case by (simp add: in_range_def)
next
  case (snoc b p)
  show ?case
  proof (cases "b = 0xff")
    case True
    have "p \<le> p @ [b]" by (rule prefix_imp_le) simp
    then have "in_range (Some (p @ [b])) (prefixEnd (p @ [b])) k \<longleftrightarrow>
        in_range (Some p) (prefixEnd p) k \<and> p @ [b] \<le> k"
      using True by (auto simp: in_range_def prefixEnd_snoc)
    then show ?thesis
      using snoc range_max_byte True by simp
  next
    case False
    then show ?thesis
      by (simp add: in_range_def prefixEnd_snoc range_next_byte)
  qed
qed

end
