(* ===== verification/Local_Store.thy ===== *)
theory Local_Store
  imports Wave_Prelude
begin

text \<open>
  The storage boundary, \<open>src/internal/storage\<close>: column families (cf.go), write operations and errors
  (store.go, errors.go), the in-memory store (mem_store.go), and the \<open>LocalStore\<close> interface as the
  locale \<open>local_store\<close>, interpreted on the in-memory store.  The layers above run on the in-memory
  store in this model and are proved from the laws of the locale.

  A Go map is an association list with distinct keys.  An iterator is the list of the rows it has
  still to visit; \<open>slice_iterator\<close> is the cursor of the code and \<open>drain\<close> relates the two.  A \<open>nil\<close>
  bound of a scan is \<open>None\<close>; a column family outside the registry is \<open>CFInvalid\<close>.
\<close>

section \<open>Column families, operations, errors\<close>

datatype column_family =
    CFSys | CFKVData | CFKVMeta | CFGraphData | CFGraphIndex | CFVectorRaw | CFVectorIndex
  | CFReplLog | CFCacheMeta | CFReplData | CFInvalid int

definition allColumnFamilies :: "column_family list" where
  "allColumnFamilies = [CFSys, CFKVData, CFKVMeta, CFGraphData, CFGraphIndex, CFVectorRaw,
     CFVectorIndex, CFReplLog, CFCacheMeta, CFReplData]"

fun cfNames :: "column_family \<Rightarrow> bytes option" where
  "cfNames CFSys = Some (str ''sys'')"
| "cfNames CFKVData = Some (str ''kv_data'')"
| "cfNames CFKVMeta = Some (str ''kv_meta'')"
| "cfNames CFGraphData = Some (str ''graph_data'')"
| "cfNames CFGraphIndex = Some (str ''graph_index'')"
| "cfNames CFVectorRaw = Some (str ''vector_raw'')"
| "cfNames CFVectorIndex = Some (str ''vector_index'')"
| "cfNames CFReplLog = Some (str ''repl_log'')"
| "cfNames CFCacheMeta = Some (str ''cache_meta'')"
| "cfNames CFReplData = Some (str ''repl_data'')"
| "cfNames (CFInvalid _) = None"

definition ColumnFamily_Name :: "column_family \<Rightarrow> bytes" where
  "ColumnFamily_Name cf = (case cfNames cf of Some n \<Rightarrow> n | None \<Rightarrow> str ''unknown'')"

definition cf_valid :: "column_family \<Rightarrow> bool" where
  "cf_valid cf \<longleftrightarrow> cfNames cf \<noteq> None"

record store_op =
  op_CF :: column_family
  op_Key :: bytes
  op_Value :: bytes
  op_Delete :: bool
  op_ExpiresAtUnixMs :: i64

datatype storage_error = ErrClosed | ErrConflict | ErrUnknownColumnFamily

text \<open>The literals \<open>StoreOp{CF: cf, Key: k, Value: v}\<close>, with an expiry, and with \<open>Delete: true\<close>.\<close>

definition put_op :: "column_family \<Rightarrow> bytes \<Rightarrow> bytes \<Rightarrow> store_op" where
  "put_op cf k v = \<lparr>op_CF = cf, op_Key = k, op_Value = v, op_Delete = False, op_ExpiresAtUnixMs = 0\<rparr>"

definition put_exp_op :: "column_family \<Rightarrow> bytes \<Rightarrow> bytes \<Rightarrow> i64 \<Rightarrow> store_op" where
  "put_exp_op cf k v e = \<lparr>op_CF = cf, op_Key = k, op_Value = v, op_Delete = False, op_ExpiresAtUnixMs = e\<rparr>"

definition del_op :: "column_family \<Rightarrow> bytes \<Rightarrow> store_op" where
  "del_op cf k = \<lparr>op_CF = cf, op_Key = k, op_Value = [], op_Delete = True, op_ExpiresAtUnixMs = 0\<rparr>"

section \<open>Iterators\<close>

type_synonym rows = "(bytes \<times> bytes) list"

record slice_iterator =
  it_rows :: rows
  it_idx :: nat

definition newSliceIterator :: "(bytes \<times> bytes) list \<Rightarrow> bytes option \<Rightarrow> bytes option \<Rightarrow> int \<Rightarrow> slice_iterator" where
  "newSliceIterator m start endk limit =
     (let keys = filter (\<lambda>k. \<not> (case start of None \<Rightarrow> False | Some s \<Rightarrow> cmp_bytes k s < 0) \<and>
                             \<not> (case endk of None \<Rightarrow> False | Some e \<Rightarrow> cmp_bytes k e \<ge> 0)) (map fst m);
          keys = sort keys;
          keys = (if limit > 0 \<and> int (length keys) > limit then take (nat limit) keys else keys)
      in \<lparr>it_rows = map (\<lambda>k. (k, case map_of m k of Some v \<Rightarrow> v | None \<Rightarrow> [])) keys, it_idx = 0\<rparr>)"

definition it_Valid :: "slice_iterator \<Rightarrow> bool" where
  "it_Valid it \<longleftrightarrow> it_idx it < length (it_rows it)"

definition it_Next :: "slice_iterator \<Rightarrow> slice_iterator" where
  "it_Next it = it\<lparr>it_idx := it_idx it + 1\<rparr>"

definition it_Key :: "slice_iterator \<Rightarrow> bytes" where
  "it_Key it = (if \<not> it_Valid it then [] else fst (it_rows it ! it_idx it))"

definition it_Value :: "slice_iterator \<Rightarrow> bytes" where
  "it_Value it = (if \<not> it_Valid it then [] else snd (it_rows it ! it_idx it))"

text \<open>The loop \<open>for it.Valid() { ... it.Next() }\<close> visits these rows.\<close>

function drain :: "slice_iterator \<Rightarrow> rows" where
  "drain it = (if it_Valid it then (it_Key it, it_Value it) # drain (it_Next it) else [])"
  by pat_completeness auto

termination
  by (relation "measure (\<lambda>it. length (it_rows it) - it_idx it)")
    (auto simp: it_Valid_def it_Next_def)

declare drain.simps [simp del]

section \<open>The in-memory store\<close>

record mem_store =
  cfs :: "column_family \<Rightarrow> (bytes \<times> bytes) list"
  closed :: bool

definition NewMemStore :: mem_store where
  "NewMemStore = \<lparr>cfs = (\<lambda>_. []), closed = False\<rparr>"

definition MemStore_Get :: "mem_store \<Rightarrow> column_family \<Rightarrow> bytes \<Rightarrow> storage_error + bytes option" where
  "MemStore_Get s cf key =
     (if closed s then Inl ErrClosed
      else if \<not> cf_valid cf then Inl ErrUnknownColumnFamily
      else Inr (map_of (cfs s cf) key))"

definition apply_op :: "mem_store \<Rightarrow> store_op \<Rightarrow> mem_store" where
  "apply_op s op =
     (let m = cfs s (op_CF op) in
      if op_Delete op then s\<lparr>cfs := (cfs s)(op_CF op := AList.delete (op_Key op) m)\<rparr>
      else s\<lparr>cfs := (cfs s)(op_CF op := AList.update (op_Key op) (op_Value op) m)\<rparr>)"

definition MemStore_Batch :: "mem_store \<Rightarrow> store_op list \<Rightarrow> mem_store \<times> storage_error option" where
  "MemStore_Batch s ops =
     (if closed s then (s, Some ErrClosed)
      else if \<exists>op \<in> set ops. \<not> cf_valid (op_CF op) then (s, Some ErrUnknownColumnFamily)
      else (foldl apply_op s ops, None))"

definition MemStore_Put :: "mem_store \<Rightarrow> column_family \<Rightarrow> bytes \<Rightarrow> bytes \<Rightarrow> mem_store \<times> storage_error option" where
  "MemStore_Put s cf key value = MemStore_Batch s [put_op cf key value]"

definition MemStore_Delete :: "mem_store \<Rightarrow> column_family \<Rightarrow> bytes \<Rightarrow> mem_store \<times> storage_error option" where
  "MemStore_Delete s cf key = MemStore_Batch s [del_op cf key]"

definition MemStore_BatchRC :: "mem_store \<Rightarrow> store_op list \<Rightarrow> mem_store \<times> storage_error option" where
  "MemStore_BatchRC s ops = MemStore_Batch s ops"

definition MemStore_Scan ::
  "mem_store \<Rightarrow> column_family \<Rightarrow> bytes option \<Rightarrow> bytes option \<Rightarrow> int \<Rightarrow> storage_error + rows" where
  "MemStore_Scan s cf start endk limit =
     (if closed s then Inl ErrClosed
      else Inr (drain (newSliceIterator (cfs s cf) start endk limit)))"

definition MemStore_Snapshot :: "mem_store \<Rightarrow> storage_error + (column_family \<Rightarrow> (bytes \<times> bytes) list)" where
  "MemStore_Snapshot s = (if closed s then Inl ErrClosed else Inr (cfs s))"

definition memSnapshot_Get ::
  "(column_family \<Rightarrow> (bytes \<times> bytes) list) \<Rightarrow> column_family \<Rightarrow> bytes \<Rightarrow> storage_error + bytes option" where
  "memSnapshot_Get snap cf key =
     (if \<not> cf_valid cf then Inl ErrUnknownColumnFamily else Inr (map_of (snap cf) key))"

definition memSnapshot_Scan ::
  "(column_family \<Rightarrow> (bytes \<times> bytes) list) \<Rightarrow> column_family \<Rightarrow> bytes option \<Rightarrow> bytes option \<Rightarrow> int \<Rightarrow>
     storage_error + rows" where
  "memSnapshot_Scan snap cf start endk limit = Inr (drain (newSliceIterator (snap cf) start endk limit))"

definition MemStore_Flush :: "mem_store \<Rightarrow> column_family \<Rightarrow> mem_store \<times> storage_error option" where
  "MemStore_Flush s cf = (s, None)"

definition MemStore_CompactRange ::
  "mem_store \<Rightarrow> column_family \<Rightarrow> bytes option \<Rightarrow> bytes option \<Rightarrow> mem_store \<times> storage_error option" where
  "MemStore_CompactRange s cf start endk = (s, None)"

definition MemStore_Close :: "mem_store \<Rightarrow> mem_store \<times> storage_error option" where
  "MemStore_Close s = (s\<lparr>closed := True\<rparr>, None)"

section \<open>The interface\<close>

type_synonym kv_view = "column_family \<Rightarrow> bytes \<Rightarrow> bytes option"

text \<open>What one write does to the contents of a store.\<close>

definition view_op :: "kv_view \<Rightarrow> store_op \<Rightarrow> kv_view" where
  "view_op v op = v(op_CF op := (v (op_CF op))(op_Key op := (if op_Delete op then None else Some (op_Value op))))"

definition view_ops :: "kv_view \<Rightarrow> store_op list \<Rightarrow> kv_view" where
  "view_ops v ops = foldl view_op v ops"

text \<open>The rows of a map in a key range, in ascending key order.\<close>

definition range_rows :: "(bytes \<Rightarrow> bytes option) \<Rightarrow> bytes option \<Rightarrow> bytes option \<Rightarrow> rows \<Rightarrow> bool" where
  "range_rows m lo hi rs \<longleftrightarrow> sorted_wrt (<) (map fst rs) \<and>
     set rs = {(k, v). m k = Some v \<and> in_range lo hi k}"

locale local_store =
  fixes invar :: "'s \<Rightarrow> bool"
    and view :: "'s \<Rightarrow> kv_view"
    and get :: "'s \<Rightarrow> column_family \<Rightarrow> bytes \<Rightarrow> storage_error + bytes option"
    and batch :: "'s \<Rightarrow> store_op list \<Rightarrow> 's \<times> storage_error option"
    and scan :: "'s \<Rightarrow> column_family \<Rightarrow> bytes option \<Rightarrow> bytes option \<Rightarrow> int \<Rightarrow> storage_error + rows"
  assumes get_view: "\<lbrakk>invar s; cf_valid cf\<rbrakk> \<Longrightarrow> get s cf k = Inr (view s cf k)"
    and batch_view: "\<lbrakk>invar s; \<forall>op \<in> set ops. cf_valid (op_CF op)\<rbrakk> \<Longrightarrow>
      \<exists>s'. batch s ops = (s', None) \<and> invar s' \<and> view s' = view_ops (view s) ops"
    and batch_error: "batch s ops = (s', Some e) \<Longrightarrow> s' = s"
    and scan_view: "invar s \<Longrightarrow> \<exists>rs. range_rows (view s cf) lo hi rs \<and>
      scan s cf lo hi limit = Inr (if 0 < limit then take (nat limit) rs else rs)"
begin

lemma get_not_error: "\<lbrakk>invar s; cf_valid cf\<rbrakk> \<Longrightarrow> get s cf k \<noteq> Inl e"
  by (simp add: get_view)

lemma batch_fst:
  assumes "invar s" "\<forall>op \<in> set ops. cf_valid (op_CF op)"
  shows "snd (batch s ops) = None" "invar (fst (batch s ops))"
    "view (fst (batch s ops)) = view_ops (view s) ops"
  using batch_view [OF assms] by auto

lemma batch_Pair:
  assumes "invar s" "\<forall>op \<in> set ops. cf_valid (op_CF op)"
  shows "batch s ops = (fst (batch s ops), None)"
  using batch_fst(1) [OF assms] by (metis prod.collapse)

lemma scan_all: "invar s \<Longrightarrow> \<exists>rs. scan s cf lo hi 0 = Inr rs \<and> range_rows (view s cf) lo hi rs"
  using scan_view [of s cf lo hi 0] by auto

text \<open>A scan from a prefix to its end visits exactly the keys with that prefix.\<close>

lemma scan_prefix:
  assumes "invar s"
  shows "\<exists>rs. scan s cf (Some p) (prefixEnd p) 0 = Inr rs \<and> sorted_wrt (<) (map fst rs) \<and>
    set rs = {(k, v). view s cf k = Some v \<and> prefix p k}"
  using scan_all [OF assms, of cf "Some p" "prefixEnd p"]
  by (simp add: range_rows_def in_range_prefixEnd)

end

section \<open>Rows of a range\<close>

lemma range_rows_keys:
  assumes "range_rows m lo hi rs"
  shows "rs = map (\<lambda>k. (k, the (m k))) (map fst rs)"
  unfolding map_map by (rule map_idI [symmetric]) (use assms in \<open>auto simp: range_rows_def\<close>)

lemma range_rows_unique:
  assumes "range_rows m lo hi rs" "range_rows m lo hi rs'"
  shows "rs = rs'"
proof -
  have "set rs = set rs'" using assms by (simp add: range_rows_def)
  then have "map fst rs = map fst rs'"
    using assms by (intro strict_sorted_equal) (auto simp: range_rows_def)
  then show ?thesis using range_rows_keys [OF assms(1)] range_rows_keys [OF assms(2)] by simp
qed

lemma sorted_filter_keys: "distinct ks \<Longrightarrow> sorted_wrt (<) (sort (filter P ks :: 'a::linorder list))"
  by (simp add: strict_sorted_iff)

lemma drain_rows: "drain it = drop (it_idx it) (it_rows it)"
proof (induction it rule: drain.induct)
  case (1 it)
  show ?case
    using 1 by (subst drain.simps) (auto simp: it_Valid_def it_Key_def it_Value_def it_Next_def
        Cons_nth_drop_Suc)
qed

definition mem_invar :: "mem_store \<Rightarrow> bool" where
  "mem_invar s \<longleftrightarrow> \<not> closed s \<and> (\<forall>cf. distinct (map fst (cfs s cf)))"

definition mem_view :: "mem_store \<Rightarrow> kv_view" where
  "mem_view s cf = map_of (cfs s cf)"

lemma mem_view_apply_op: "mem_invar s \<Longrightarrow> mem_view (apply_op s op) = view_op (mem_view s) op"
  by (auto simp: fun_eq_iff mem_view_def view_op_def apply_op_def Let_def update_conv delete_conv)

lemma mem_invar_apply_op: "mem_invar s \<Longrightarrow> mem_invar (apply_op s op)"
  by (auto simp: mem_invar_def apply_op_def Let_def distinct_update distinct_delete)

lemma mem_apply_ops:
  "mem_invar s \<Longrightarrow> mem_invar (foldl apply_op s ops) \<and>
     mem_view (foldl apply_op s ops) = view_ops (mem_view s) ops"
  by (induction ops arbitrary: s)
    (simp_all add: view_ops_def mem_invar_apply_op mem_view_apply_op)

lemma newSliceIterator_rows:
  assumes "distinct (map fst m)"
  shows "\<exists>rs. range_rows (map_of m) lo hi rs \<and>
    drain (newSliceIterator m lo hi limit) = (if 0 < limit then take (nat limit) rs else rs)"
proof -
  let ?P = "\<lambda>k. \<not> (case lo of None \<Rightarrow> False | Some s \<Rightarrow> cmp_bytes k s < 0) \<and>
                \<not> (case hi of None \<Rightarrow> False | Some e \<Rightarrow> cmp_bytes k e \<ge> 0)"
  let ?ks = "sort (filter ?P (map fst m))"
  let ?row = "\<lambda>k. (k, case map_of m k of Some v \<Rightarrow> v | None \<Rightarrow> [])"
  let ?rs = "map ?row ?ks"
  have P: "?P k \<longleftrightarrow> in_range lo hi k" for k
    by (auto simp: in_range_def split: option.splits)
  have "set ?rs = {(k, v). map_of m k = Some v \<and> in_range lo hi k}"
    by (force simp: P image_iff weak_map_of_SomeI map_of_is_SomeI [OF assms] dest: map_of_SomeD split: option.splits)
  moreover have "map fst ?rs = ?ks" by (simp add: comp_def)
  moreover have "sorted_wrt (<) ?ks" using assms by (rule sorted_filter_keys)
  ultimately have "range_rows (map_of m) lo hi ?rs" unfolding range_rows_def by simp
  moreover have "drain (newSliceIterator m lo hi limit) = (if 0 < limit then take (nat limit) ?rs else ?rs)"
    by (auto simp: drain_rows newSliceIterator_def Let_def take_map)
  ultimately show ?thesis by blast
qed

interpretation mem: local_store mem_invar mem_view MemStore_Get MemStore_BatchRC MemStore_Scan
proof unfold_locales
  show "MemStore_Get s cf k = Inr (mem_view s cf k)" if "mem_invar s" "cf_valid cf" for s cf k
    using that by (simp add: MemStore_Get_def mem_invar_def mem_view_def)
  show "\<exists>s'. MemStore_BatchRC s ops = (s', None) \<and> mem_invar s' \<and> mem_view s' = view_ops (mem_view s) ops"
    if "mem_invar s" "\<forall>op \<in> set ops. cf_valid (op_CF op)" for s ops
    using that mem_apply_ops [OF that(1), of ops]
    by (auto simp: MemStore_BatchRC_def MemStore_Batch_def mem_invar_def)
  show "s' = s" if "MemStore_BatchRC s ops = (s', Some e)" for s ops s' e
    using that by (auto simp: MemStore_BatchRC_def MemStore_Batch_def split: if_splits)
  show "\<exists>rs. range_rows (mem_view s cf) lo hi rs \<and>
      MemStore_Scan s cf lo hi limit = Inr (if 0 < limit then take (nat limit) rs else rs)"
    if "mem_invar s" for s cf lo hi limit
    using that newSliceIterator_rows [of "cfs s cf" lo hi limit]
    by (auto simp: MemStore_Scan_def mem_invar_def mem_view_def)
qed

lemma mem_invar_New [simp]: "mem_invar NewMemStore"
  by (simp add: mem_invar_def NewMemStore_def)

lemma mem_view_New [simp]: "mem_view NewMemStore = (\<lambda>_. Map.empty)"
  by (simp add: fun_eq_iff mem_view_def NewMemStore_def)

lemma cf_valid_simps [simp]:
  "cf_valid CFSys" "cf_valid CFKVData" "cf_valid CFKVMeta" "cf_valid CFReplLog" "cf_valid CFReplData"
  by (simp_all add: cf_valid_def)

lemma view_op_del [view_simps]: "view_op v (del_op cf k) = v(cf := (v cf)(k := None))"
  by (simp add: view_op_def del_op_def)

lemma view_op_put [view_simps]:
  "view_op v (put_op cf k b) = v(cf := (v cf)(k \<mapsto> b))"
  "view_op v (put_exp_op cf k b e) = v(cf := (v cf)(k \<mapsto> b))"
  by (simp_all add: view_op_def put_op_def put_exp_op_def)

lemma view_ops_dels:
  "view_ops v (map (\<lambda>kv. del_op cf (fst kv)) rows) =
    v(cf := (\<lambda>k. if k \<in> fst ` set rows then None else v cf k))"
proof (induction rows arbitrary: v)
  case Nil
  then show ?case by (simp add: view_ops_def)
next
  case (Cons kv rows)
  have "view_ops v (map (\<lambda>kv. del_op cf (fst kv)) (kv # rows)) =
      view_ops (view_op v (del_op cf (fst kv))) (map (\<lambda>kv. del_op cf (fst kv)) rows)"
    by (simp add: view_ops_def)
  then show ?case using Cons.IH by (auto simp: fun_eq_iff view_simps)
qed

lemma MemStore_Batch_RC: "MemStore_Batch = MemStore_BatchRC"
  by (simp add: fun_eq_iff MemStore_BatchRC_def)

lemma scan_cong:
  assumes "mem_invar st" "mem_invar st'" "mem_view st cf = mem_view st' cf"
  shows "MemStore_Scan st cf lo hi n = MemStore_Scan st' cf lo hi n"
proof -
  obtain rs rs' where "range_rows (mem_view st cf) lo hi rs"
      "MemStore_Scan st cf lo hi n = Inr (if 0 < n then take (nat n) rs else rs)"
      "range_rows (mem_view st' cf) lo hi rs'"
      "MemStore_Scan st' cf lo hi n = Inr (if 0 < n then take (nat n) rs' else rs')"
    using mem.scan_view [OF assms(1)] mem.scan_view [OF assms(2)] by metis
  moreover then have "rs = rs'" using assms(3) range_rows_unique by metis
  ultimately show ?thesis by simp
qed

lemma view_ops_Nil [simp]: "view_ops v [] = v"
  by (simp add: view_ops_def)

lemma view_ops_Cons: "view_ops v (op # ops) = view_ops (view_op v op) ops"
  by (simp add: view_ops_def)

lemma view_ops_append: "view_ops v (a @ b) = view_ops (view_ops v a) b"
  by (simp add: view_ops_def)

lemma view_ops_other:
  "(\<And>op. op \<in> set ops \<Longrightarrow> op_CF op \<noteq> cf \<or> op_Key op \<noteq> key) \<Longrightarrow> view_ops v ops cf key = v cf key"
proof (induction ops arbitrary: v)
  case (Cons op ops)
  then have "view_op v op cf key = v cf key" by (auto simp: view_op_def)
  then show ?case using Cons by (simp add: view_ops_Cons)
qed simp

lemma map_filter_keys_sorted:
  assumes "sorted_wrt (<) (map fst rs)" "\<forall>x \<in> set rs. \<forall>y. f x = Some y \<longrightarrow> fst x = g y"
  shows "sorted_wrt (<) (map g (List.map_filter f rs))"
  using assms
proof (induction rs)
  case (Cons x rs)
  then have IH: "sorted_wrt (<) (map g (List.map_filter f rs))" by simp
  have "g y < g y'" if "f x = Some y" "y' \<in> set (List.map_filter f rs)" for y y'
    using Cons.prems that by (fastforce simp: set_map_filter_iff)
  then show ?case using IH by (cases "f x") simp_all
qed simp

end
