(* ===== verification/Hlc.thy ===== *)
theory Hlc
  imports Wave_Prelude
begin

text \<open>
  The hybrid logical clock of \<open>src/internal/version/hlc.go\<close>: timestamps and their order, the clock
  state, the send event \<open>Now\<close>, the receive event \<open>Update\<close> with its skew guard, and \<open>normalize\<close>,
  which carries a logical counter beyond 16 bits into the physical component.

  The wall clock is a callback of the Go \<open>Clock\<close>; every operation that calls it once takes the value
  it returned as an argument.  The mutex makes each operation one step.  The main results read a
  normalised stamp as the single number \<open>physical * 2^16 + logical\<close> (\<open>hlc_val\<close>): \<open>Now\<close> issues
  \<open>max (last + 1) (wall, 0)\<close> and \<open>Update\<close> issues \<open>max (last + 1) (remote + 1) (wall, 0)\<close>.
\<close>

section \<open>Timestamps\<close>

definition cmpUint64 :: "u64 \<Rightarrow> u64 \<Rightarrow> int" where
  "cmpUint64 a b = (if a < b then -1 else if a > b then 1 else 0)"

definition cmpUint32 :: "u32 \<Rightarrow> u32 \<Rightarrow> int" where
  "cmpUint32 a b = (if a < b then -1 else if a > b then 1 else 0)"

definition max64 :: "u64 \<Rightarrow> u64 \<Rightarrow> u64" where
  "max64 a b = (if a > b then a else b)"

definition max32 :: "u32 \<Rightarrow> u32 \<Rightarrow> u32" where
  "max32 a b = (if a > b then a else b)"

definition maxLogical :: u32 where
  "maxLogical = 0xFFFF"

datatype timestamp = Timestamp (PhysicalMs: u64) (Logical: u32)

definition Timestamp_Compare :: "timestamp \<Rightarrow> timestamp \<Rightarrow> int" where
  "Timestamp_Compare t u =
     (if PhysicalMs t \<noteq> PhysicalMs u then cmpUint64 (PhysicalMs t) (PhysicalMs u)
      else cmpUint32 (Logical t) (Logical u))"

lemmas cmp_defs = cmpUint64_def cmpUint32_def

instantiation timestamp :: linorder
begin

definition less_eq_timestamp :: "timestamp \<Rightarrow> timestamp \<Rightarrow> bool" where
  "less_eq_timestamp t u \<longleftrightarrow> Timestamp_Compare t u \<le> 0"

definition less_timestamp :: "timestamp \<Rightarrow> timestamp \<Rightarrow> bool" where
  "less_timestamp t u \<longleftrightarrow> Timestamp_Compare t u < 0"

instance
proof
  fix x y z :: timestamp
  show "x < y \<longleftrightarrow> x \<le> y \<and> \<not> y \<le> x"
    by (auto simp: less_eq_timestamp_def less_timestamp_def Timestamp_Compare_def cmp_defs)
  show "x \<le> x"
    by (simp add: less_eq_timestamp_def Timestamp_Compare_def cmp_defs)
  show "x \<le> y \<Longrightarrow> y \<le> z \<Longrightarrow> x \<le> z"
    by (auto simp: less_eq_timestamp_def Timestamp_Compare_def cmp_defs split: if_splits)
  show "x \<le> y \<Longrightarrow> y \<le> x \<Longrightarrow> x = y"
    by (auto simp: less_eq_timestamp_def Timestamp_Compare_def cmp_defs timestamp.expand
        split: if_splits)
  show "x \<le> y \<or> y \<le> x"
    by (auto simp: less_eq_timestamp_def Timestamp_Compare_def cmp_defs)
qed

end

lemma less_timestamp_iff:
  "t < u \<longleftrightarrow> PhysicalMs t < PhysicalMs u
     \<or> PhysicalMs t = PhysicalMs u \<and> Logical t < Logical u"
  by (auto simp: less_timestamp_def Timestamp_Compare_def cmp_defs)

section \<open>The clock\<close>

record clock =
  last_ts :: timestamp
  maxSkewMs :: u64
  skewRejects :: u64

record skew_error =
  RemoteMs :: u64
  WallMs :: u64
  SkewBoundMs :: u64

definition NewClock :: "u64 \<Rightarrow> clock" where
  "NewClock skew =
     \<lparr>last_ts = Timestamp 0 0, maxSkewMs = (if skew = 0 then 500 else skew), skewRejects = 0\<rparr>"

function normalize :: "u64 \<Rightarrow> u32 \<Rightarrow> timestamp" where
  "normalize phys logical =
     (if logical > maxLogical then normalize (phys + 1) (logical - (maxLogical + 1))
      else Timestamp phys logical)"
  by pat_completeness auto
termination
proof (relation "measure (\<lambda>(phys, logical). unat logical)", goal_cases)
  case (2 phys logical)
  then have "(0x10000 :: u32) \<le> logical"
    by (simp add: maxLogical_def word_less_nat_alt word_le_nat_alt)
  then show ?case
    by (simp add: maxLogical_def unat_sub word_le_nat_alt)
qed simp

declare normalize.simps [simp del]

definition Clock_Now :: "clock \<Rightarrow> u64 \<Rightarrow> clock \<times> timestamp" where
  "Clock_Now c wall =
     (let phys = max64 (PhysicalMs (last_ts c)) wall;
          logical = (if phys = PhysicalMs (last_ts c) then Logical (last_ts c) + 1 else 0);
          t = normalize phys logical
      in (c\<lparr>last_ts := t\<rparr>, t))"

definition Clock_Update :: "clock \<Rightarrow> u64 \<Rightarrow> timestamp \<Rightarrow> clock \<times> (skew_error + timestamp)" where
  "Clock_Update c wall remote =
     (if PhysicalMs remote > wall + maxSkewMs c
      then (c\<lparr>skewRejects := skewRejects c + 1\<rparr>,
            Inl \<lparr>RemoteMs = PhysicalMs remote, WallMs = wall, SkewBoundMs = maxSkewMs c\<rparr>)
      else
        (let phys = max64 (max64 (PhysicalMs (last_ts c)) (PhysicalMs remote)) wall;
             logical =
               (if phys = PhysicalMs (last_ts c) \<and> phys = PhysicalMs remote
                then max32 (Logical (last_ts c)) (Logical remote) + 1
                else if phys = PhysicalMs (last_ts c) then Logical (last_ts c) + 1
                else if phys = PhysicalMs remote then Logical remote + 1
                else 0);
             t = normalize phys logical
         in (c\<lparr>last_ts := t\<rparr>, Inr t)))"

definition SkewRejections :: "clock \<Rightarrow> u64" where
  "SkewRejections c = skewRejects c"

section \<open>Stamps as numbers\<close>

definition hlc_val :: "timestamp \<Rightarrow> nat" where
  "hlc_val t = unat (PhysicalMs t) * 65536 + unat (Logical t)"

definition norm_ts :: "timestamp \<Rightarrow> bool" where
  "norm_ts t \<longleftrightarrow> Logical t \<le> maxLogical"

lemma norm_ts_unat: "norm_ts t \<longleftrightarrow> unat (Logical t) < 65536"
  by (auto simp: norm_ts_def maxLogical_def word_le_nat_alt)

lemma hlc_val_less_iff:
  assumes "norm_ts t" "norm_ts u"
  shows "t < u \<longleftrightarrow> hlc_val t < hlc_val u"
proof -
  have aux: "a < b \<or> a = b \<and> r < s \<longleftrightarrow> a * 65536 + r < b * 65536 + s"
    if "r < 65536" "s < 65536" for a b r s :: nat
    using that by arith
  show ?thesis
    using aux [of "unat (Logical t)" "unat (Logical u)"] assms
    by (simp add: less_timestamp_iff hlc_val_def norm_ts_unat word_less_nat_alt
        word_unat_eq_iff)
qed

lemma unat_Suc_u64: "unat (w :: u64) < 2 ^ 64 - 1 \<Longrightarrow> unat (w + 1) = unat w + 1"
  by (simp add: unat_word_ariths)

lemma unat_Suc_u32: "unat (w :: u32) < 2 ^ 32 - 1 \<Longrightarrow> unat (w + 1) = unat w + 1"
  by (simp add: unat_word_ariths)

text \<open>\<open>normalize\<close> keeps the number and makes the stamp normal.\<close>

lemma normalize_props:
  assumes "unat phys + unat logical div 65536 < 2 ^ 64"
  shows "hlc_val (normalize phys logical) = unat phys * 65536 + unat logical
    \<and> norm_ts (normalize phys logical)"
  using assms
proof (induction phys logical rule: normalize.induct)
  case (1 phys logical)
  show ?case
  proof (cases "logical > maxLogical")
    case True
    then have ge: "65536 \<le> unat logical"
      by (simp add: maxLogical_def word_less_nat_alt)
    then have l: "unat (logical - (maxLogical + 1)) = unat logical - 65536"
      by (simp add: maxLogical_def unat_sub word_le_nat_alt)
    have d: "(unat logical - 65536) div 65536 = unat logical div 65536 - 1"
      using ge by (simp add: div_if)
    have pos: "1 \<le> unat logical div 65536" using ge by simp
    have p: "unat (phys + 1) = unat phys + 1"
      by (rule unat_Suc_u64) (use "1.prems" pos in simp)
    have "unat (phys + 1) + unat (logical - (maxLogical + 1)) div 65536 < 2 ^ 64"
      using "1.prems" pos by (simp add: l p d)
    from "1.IH" [OF True this] show ?thesis
      using ge by (simp add: normalize.simps [of phys logical] True p l)
  next
    case False
    then have "normalize phys logical = Timestamp phys logical"
      by (simp add: normalize.simps [of phys logical])
    then show ?thesis
      using False by (simp add: hlc_val_def norm_ts_def not_less)
  qed
qed

lemma max64_unat: "unat (max64 a b) = max (unat a) (unat b)"
  by (auto simp: max64_def word_less_nat_alt max_def)

lemma max32_unat: "unat (max32 a b) = max (unat a) (unat b)"
  by (auto simp: max32_def word_less_nat_alt max_def)

text \<open>A stamp with room for one more logical tick.\<close>

definition room :: "timestamp \<Rightarrow> bool" where
  "room t \<longleftrightarrow> norm_ts t \<and> unat (PhysicalMs t) < 2 ^ 64 - 1"

lemma room_iff: "room t \<longleftrightarrow> norm_ts t \<and> hlc_val t < (2 ^ 64 - 1) * 65536"
  by (auto simp: room_def hlc_val_def norm_ts_unat)

lemma normalize_room:
  assumes "unat phys < 2 ^ 64 - 1" "unat logical \<le> 65536"
  shows "hlc_val (normalize phys logical) = unat phys * 65536 + unat logical
    \<and> norm_ts (normalize phys logical)"
proof (rule normalize_props)
  have "unat logical div 65536 \<le> 1" using assms(2) by (simp add: div_le_mono [of _ 65536])
  then show "unat phys + unat logical div 65536 < 2 ^ 64" using assms(1) by simp
qed

lemma unat_tick: "norm_ts t \<Longrightarrow> unat (Logical t + 1) = unat (Logical t) + 1"
  by (rule unat_Suc_u32) (simp add: norm_ts_unat)

lemma normalize_zero [simp]: "normalize phys 0 = Timestamp phys 0"
  by (simp add: normalize.simps [of phys 0] maxLogical_def)

lemma Clock_Now_val:
  assumes "room (last_ts c)"
  shows "hlc_val (snd (Clock_Now c wall)) =
      max (hlc_val (last_ts c) + 1) (unat wall * 65536)
    \<and> norm_ts (snd (Clock_Now c wall))"
proof (cases "wall \<le> PhysicalMs (last_ts c)")
  case True
  then have m: "max64 (PhysicalMs (last_ts c)) wall = PhysicalMs (last_ts c)"
    by (auto simp: max64_def)
  have "unat wall \<le> unat (PhysicalMs (last_ts c))"
    using True by (simp add: word_le_nat_alt)
  then show ?thesis
    using assms normalize_room [of "PhysicalMs (last_ts c)" "Logical (last_ts c) + 1"]
    by (simp add: Clock_Now_def Let_def m room_def unat_tick norm_ts_unat hlc_val_def max_def)
next
  case False
  then have m: "max64 (PhysicalMs (last_ts c)) wall = wall" and ne: "wall \<noteq> PhysicalMs (last_ts c)"
    by (auto simp: max64_def)
  have "unat (PhysicalMs (last_ts c)) < unat wall"
    using False by (simp add: word_le_nat_alt)
  then have "hlc_val (last_ts c) + 1 \<le> unat wall * 65536"
    using assms unfolding room_def norm_ts_unat hlc_val_def by arith
  then show ?thesis
    using ne by (simp add: Clock_Now_def Let_def m) (simp add: hlc_val_def norm_ts_unat)
qed

lemma Clock_Now_last [simp]: "last_ts (fst (Clock_Now c wall)) = snd (Clock_Now c wall)"
  by (simp add: Clock_Now_def Let_def)

lemma Clock_Update_last: "snd (Clock_Update c wall r) = Inr t \<Longrightarrow> last_ts (fst (Clock_Update c wall r)) = t"
  by (auto simp: Clock_Update_def Let_def split: if_splits)

lemma hlc_val_le_phys:
  assumes "norm_ts t" "unat (PhysicalMs t) < n"
  shows "hlc_val t + 1 \<le> n * 65536"
  using assms unfolding norm_ts_unat hlc_val_def by arith

text \<open>The value issued when the physical component of the result is that of \<open>t\<close>, its logical part
  one above that of \<open>t\<close>.\<close>

lemma normalize_tick:
  assumes "room t"
  shows "hlc_val (normalize (PhysicalMs t) (Logical t + 1)) = hlc_val t + 1
    \<and> norm_ts (normalize (PhysicalMs t) (Logical t + 1))"
  using assms normalize_room [of "PhysicalMs t" "Logical t + 1"]
  by (simp add: room_def unat_tick norm_ts_unat hlc_val_def)

lemma Clock_Update_val:
  assumes r: "room (last_ts c)" "room remote"
    and acc: "\<not> PhysicalMs remote > wall + maxSkewMs c"
  shows "\<exists>t. snd (Clock_Update c wall remote) = Inr t
    \<and> hlc_val t = max (max (hlc_val (last_ts c) + 1) (hlc_val remote + 1)) (unat wall * 65536)
    \<and> norm_ts t"
proof -
  let ?l = "last_ts c"
  let ?p = "max64 (max64 (PhysicalMs ?l) (PhysicalMs remote)) wall"
  have p: "unat ?p = max (max (unat (PhysicalMs ?l)) (unat (PhysicalMs remote))) (unat wall)"
    by (simp add: max64_unat)
  have n: "norm_ts ?l" "norm_ts remote" using r by (simp_all add: room_def)
  consider (both) "?p = PhysicalMs ?l" "?p = PhysicalMs remote"
    | (loc) "?p = PhysicalMs ?l" "?p \<noteq> PhysicalMs remote"
    | (rem) "?p \<noteq> PhysicalMs ?l" "?p = PhysicalMs remote"
    | (wall) "?p \<noteq> PhysicalMs ?l" "?p \<noteq> PhysicalMs remote"
    by blast
  then show ?thesis
  proof cases
    case both
    let ?m = "if Logical ?l > Logical remote then ?l else remote"
    have m: "PhysicalMs ?m = ?p" "Logical ?m = max32 (Logical ?l) (Logical remote)" "room ?m"
      using both r by (auto simp: max32_def)
    have "hlc_val ?m = max (hlc_val ?l) (hlc_val remote)"
      using both by (simp add: hlc_val_def max_def word_less_nat_alt)
    moreover have "unat wall * 65536 \<le> hlc_val ?l"
      using p both by (simp add: hlc_val_def max_def split: if_splits)
    moreover have "snd (Clock_Update c wall remote) = Inr (normalize (PhysicalMs ?m) (Logical ?m + 1))"
      using acc both m by (simp add: Clock_Update_def Let_def)
    ultimately show ?thesis
      using normalize_tick [OF m(3)] by (auto simp: max_def)
  next
    case loc
    then have "unat (PhysicalMs remote) < unat (PhysicalMs ?l)"
      using p by (metis max.cobounded2 max.coboundedI1 le_neq_implies_less word_unat_eq_iff)
    then have "hlc_val remote + 1 \<le> hlc_val ?l"
      using hlc_val_le_phys [OF n(2)] by (simp add: hlc_val_def le_add1 trans_le_add1)
    moreover have "unat wall * 65536 \<le> hlc_val ?l"
      using p loc by (simp add: hlc_val_def max_def split: if_splits)
    moreover have "snd (Clock_Update c wall remote) = Inr (normalize (PhysicalMs ?l) (Logical ?l + 1))"
      using acc loc by (simp add: Clock_Update_def Let_def)
    ultimately show ?thesis
      using normalize_tick [OF r(1)] by (auto simp: max_def)
  next
    case rem
    then have "unat (PhysicalMs ?l) < unat (PhysicalMs remote)"
      using p by (metis max.cobounded1 max.coboundedI1 le_neq_implies_less word_unat_eq_iff)
    then have "hlc_val ?l + 1 \<le> hlc_val remote"
      using hlc_val_le_phys [OF n(1)] by (simp add: hlc_val_def trans_le_add1)
    moreover have "unat wall * 65536 \<le> hlc_val remote"
      using p rem by (simp add: hlc_val_def max_def split: if_splits)
    moreover have "snd (Clock_Update c wall remote) = Inr (normalize (PhysicalMs remote) (Logical remote + 1))"
      using acc rem by (simp add: Clock_Update_def Let_def)
    ultimately show ?thesis
      using normalize_tick [OF r(2)] by (auto simp: max_def)
  next
    case wall
    then have w: "?p = wall" by (auto simp: max64_def split: if_splits)
    then have "unat (PhysicalMs ?l) < unat wall" "unat (PhysicalMs remote) < unat wall"
      using p wall by (metis max.cobounded1 max.coboundedI1 max.cobounded2 le_neq_implies_less
          word_unat_eq_iff)+
    then have "hlc_val ?l + 1 \<le> unat wall * 65536" "hlc_val remote + 1 \<le> unat wall * 65536"
      using hlc_val_le_phys n by blast+
    moreover have "snd (Clock_Update c wall remote) = Inr (Timestamp wall 0)"
      using acc wall w by (simp add: Clock_Update_def Let_def)
    ultimately show ?thesis
      by (auto simp: max_def hlc_val_def norm_ts_unat)
  qed
qed

section \<open>Runs of a clock\<close>

text \<open>The events of one clock: a send with the wall time it read, a receive with the wall time and
  the remote stamp.  \<open>hlc_run\<close> collects the stamps issued; a rejected receive issues none.\<close>

datatype hlc_event = Send u64 | Receive u64 timestamp

fun hlc_step :: "clock \<Rightarrow> hlc_event \<Rightarrow> clock \<times> timestamp option" where
  "hlc_step c (Send wall) = (let (c', t) = Clock_Now c wall in (c', Some t))"
| "hlc_step c (Receive wall r) =
     (case Clock_Update c wall r of (c', Inl e) \<Rightarrow> (c', None) | (c', Inr t) \<Rightarrow> (c', Some t))"

fun hlc_run :: "clock \<Rightarrow> hlc_event list \<Rightarrow> timestamp list" where
  "hlc_run c [] = []"
| "hlc_run c (e # es) =
     (case hlc_step c e of (c', None) \<Rightarrow> hlc_run c' es | (c', Some t) \<Rightarrow> t # hlc_run c' es)"

text \<open>Events whose wall reading and remote stamp lie below the number \<open>B\<close>.\<close>

fun event_below :: "nat \<Rightarrow> hlc_event \<Rightarrow> bool" where
  "event_below B (Send wall) \<longleftrightarrow> unat wall * 65536 < B"
| "event_below B (Receive wall r) \<longleftrightarrow> unat wall * 65536 < B \<and> norm_ts r \<and> hlc_val r < B"

lemma hlc_step_props:
  assumes "norm_ts (last_ts c)" "hlc_val (last_ts c) < B" "B \<le> (2 ^ 64 - 1) * 65536"
    "event_below B e" "hlc_step c e = (c', ot)"
  shows "norm_ts (last_ts c') \<and> hlc_val (last_ts c') < Suc B
    \<and> (case ot of None \<Rightarrow> last_ts c' = last_ts c
       | Some t \<Rightarrow> last_ts c' = t \<and> last_ts c < t)"
proof (cases e)
  case (Send wall)
  have "room (last_ts c)" using assms by (simp add: room_iff)
  note v = Clock_Now_val [OF this, of wall]
  have "c' = fst (Clock_Now c wall)" "ot = Some (snd (Clock_Now c wall))"
    using assms Send by (auto simp: split_beta)
  then show ?thesis
    using v assms Send by (auto simp: hlc_val_less_iff)
next
  case (Receive wall r)
  have room: "room (last_ts c)" "room r" using assms Receive by (auto simp: room_iff)
  show ?thesis
  proof (cases "PhysicalMs r > wall + maxSkewMs c")
    case True
    then show ?thesis using assms Receive by (auto simp: Clock_Update_def)
  next
    case False
    from Clock_Update_val [OF room False] obtain t where
      t: "snd (Clock_Update c wall r) = Inr t" "norm_ts t"
      "hlc_val t = max (max (hlc_val (last_ts c) + 1) (hlc_val r + 1)) (unat wall * 65536)"
      by blast
    have "c' = fst (Clock_Update c wall r)" "ot = Some t"
      using assms(5) t Receive by (auto split: prod.splits sum.splits)
    then show ?thesis
      using t assms Receive Clock_Update_last [OF t(1)] by (auto simp: hlc_val_less_iff)
  qed
qed

lemma hlc_run_sorted:
  assumes "norm_ts (last_ts c)" "hlc_val (last_ts c) < B"
    "B + length es \<le> (2 ^ 64 - 1) * 65536" "\<forall>e \<in> set es. event_below B e"
  shows "sorted_wrt (<) (last_ts c # hlc_run c es)"
  using assms
proof (induction es arbitrary: c B)
  case (Cons e es)
  obtain c' ot where st: "hlc_step c e = (c', ot)" by fastforce
  have step: "norm_ts (last_ts c')" "hlc_val (last_ts c') < Suc B"
    "case ot of None \<Rightarrow> last_ts c' = last_ts c | Some t \<Rightarrow> last_ts c' = t \<and> last_ts c < t"
    using hlc_step_props [OF Cons.prems(1,2) _ _ st] Cons.prems by auto
  have mono: "event_below B x \<Longrightarrow> event_below (Suc B) x" for x by (cases x) auto
  have "sorted_wrt (<) (last_ts c' # hlc_run c' es)"
    by (rule Cons.IH [OF step(1,2)]) (use Cons.prems mono in auto)
  then show ?case
    using step(3) st by (cases ot) (auto intro: less_trans)
qed simp

section \<open>Properties\<close>

text \<open>C10: Every run of a hybrid logical clock issues strictly increasing stamps, each above the
  clock's initial stamp, whatever the wall clock reads (it may jump back) and whichever remote
  stamps arrive, as long as the physical times stay below \<open>2^62\<close> ms and the run below \<open>2^62\<close>
  events.\<close>

theorem hlc_run_strictly_increasing:
  assumes "norm_ts (last_ts c)" "unat (PhysicalMs (last_ts c)) < 2 ^ 62"
    and "\<forall>e \<in> set es. event_below (2 ^ 78) e" and "length es < 2 ^ 62"
  shows "sorted_wrt (<) (last_ts c # hlc_run c es)"
proof (rule hlc_run_sorted)
  show "hlc_val (last_ts c) < 2 ^ 78"
    using hlc_val_le_phys [OF assms(1,2)] by simp
  show "2 ^ 78 + length es \<le> (2 ^ 64 - 1) * 65536" using assms(4) by simp
qed (use assms in auto)

theorem hlc_run_strictly_increasing_witness:
  "sorted_wrt (<) (last_ts (NewClock 0) #
     hlc_run (NewClock 0) [Send 1000, Send 900, Receive 950 (Timestamp 1200 7), Send 1100])"
  by (rule hlc_run_strictly_increasing)
    (simp_all add: NewClock_def norm_ts_def maxLogical_def hlc_val_def)





text \<open>The receive event trusts the logical component of the wire: the counter is 32 bits wide and a
  remote logical of \<open>2^32 - 1\<close> wraps the increment to zero, so the clock moves backwards.\<close>

lemma Clock_Update_wraps_backwards:
  "snd (Clock_Update \<lparr>last_ts = Timestamp 1000 7, maxSkewMs = 500, skewRejects = 0\<rparr> 900
      (Timestamp 1000 0xFFFFFFFF)) = Inr (Timestamp 1000 0)"
  by (simp add: Clock_Update_def Let_def max64_def max32_def normalize.simps [of 1000 4294967296]
      maxLogical_def)

end
