(* ===== verification/Version.thy ===== *)
theory Version
  imports Hlc
begin

text \<open>
  Versions and writer sequences, \<open>src/internal/version/version.go\<close>: the five-field version stamped
  on every mutation, the deterministic last-write-wins order \<open>Compare\<close> (the \<open>linorder\<close> instance of
  the type), the mutation identity, the wire conversion and the per-member sequencer.
\<close>

section \<open>Decimal numbers\<close>

text \<open>\<open>strconv.FormatUint(n, 10)\<close>.\<close>

fun FormatUint :: "nat \<Rightarrow> bytes" where
  "FormatUint n = (if n < 10 then [of_nat (48 + n)] else FormatUint (n div 10) @ [of_nat (48 + n mod 10)])"

declare FormatUint.simps [simp del]

definition undec :: "bytes \<Rightarrow> nat" where
  "undec bs = foldl (\<lambda>a b. a * 10 + (unat b - 48)) 0 bs"

definition is_digit :: "byte \<Rightarrow> bool" where
  "is_digit b \<longleftrightarrow> 48 \<le> b \<and> b \<le> 57"

lemma unat_digit: "d < 10 \<Longrightarrow> unat (of_nat (48 + d) :: byte) = 48 + d"
  by (rule unat_of_nat_small) simp

lemma undec_FormatUint: "undec (FormatUint n) = n"
proof (induction n rule: FormatUint.induct)
  case (1 n)
  show ?case
  proof (cases "n < 10")
    case True
    then show ?thesis
      using unat_digit [of n] by (simp add: FormatUint.simps [of n] undec_def)
  next
    case False
    then show ?thesis
      using 1 unat_digit [of "n mod 10"] by (simp add: FormatUint.simps [of n] undec_def)
  qed
qed

lemma is_digit_of_nat: "d < 10 \<Longrightarrow> is_digit (of_nat (48 + d))"
  using unat_digit [of d] by (simp add: is_digit_def word_le_nat_alt)

lemma FormatUint_digits: "\<forall>b \<in> set (FormatUint n). is_digit b"
proof (induction n rule: FormatUint.induct)
  case (1 n)
  show ?case
    using 1 is_digit_of_nat [of n] is_digit_of_nat [of "n mod 10"]
    by (cases "n < 10") (auto simp: FormatUint.simps [of n])
qed

lemma FormatUint_inject [simp]: "FormatUint m = FormatUint n \<longleftrightarrow> m = n"
  by (metis undec_FormatUint)

lemma FormatUint_neq_Nil [simp]: "FormatUint n \<noteq> []"
  by (subst FormatUint.simps) simp

section \<open>Versions\<close>

datatype version = Version
  (HLCPhysicalMs: u64) (HLCLogical: u32)
  (WriterClusterID: bytes) (WriterMemberID: bytes) (WriterSequence: u64)

definition zero_version :: version where
  "zero_version = Version 0 0 [] [] 0"

definition Version_Timestamp :: "version \<Rightarrow> timestamp" where
  "Version_Timestamp a = Timestamp (HLCPhysicalMs a) (HLCLogical a)"

definition Version_Compare :: "version \<Rightarrow> version \<Rightarrow> int" where
  "Version_Compare a b =
     (if HLCPhysicalMs a \<noteq> HLCPhysicalMs b then cmpUint64 (HLCPhysicalMs a) (HLCPhysicalMs b)
      else if HLCLogical a \<noteq> HLCLogical b then cmpUint32 (HLCLogical a) (HLCLogical b)
      else let c = cmp_bytes (WriterClusterID a) (WriterClusterID b) in
        if c \<noteq> 0 then c
        else let c = cmp_bytes (WriterMemberID a) (WriterMemberID b) in
          if c \<noteq> 0 then c
          else cmpUint64 (WriterSequence a) (WriterSequence b))"

definition Version_Equal :: "version \<Rightarrow> version \<Rightarrow> bool" where
  "Version_Equal a b \<longleftrightarrow>
     HLCPhysicalMs a = HLCPhysicalMs b \<and> HLCLogical a = HLCLogical b
     \<and> WriterClusterID a = WriterClusterID b \<and> WriterMemberID a = WriterMemberID b
     \<and> WriterSequence a = WriterSequence b"

lemma Version_Equal_iff [simp]: "Version_Equal a b \<longleftrightarrow> a = b"
  by (auto simp: Version_Equal_def version.expand)

instantiation version :: linorder
begin

definition less_eq_version :: "version \<Rightarrow> version \<Rightarrow> bool" where
  "less_eq_version a b \<longleftrightarrow> Version_Compare a b \<le> 0"

definition less_version :: "version \<Rightarrow> version \<Rightarrow> bool" where
  "less_version a b \<longleftrightarrow> Version_Compare a b < 0"

lemma less_version_lex:
  "a < b \<longleftrightarrow> HLCPhysicalMs a < HLCPhysicalMs b \<or> HLCPhysicalMs a = HLCPhysicalMs b \<and>
    (HLCLogical a < HLCLogical b \<or> HLCLogical a = HLCLogical b \<and>
      (WriterClusterID a < WriterClusterID b \<or> WriterClusterID a = WriterClusterID b \<and>
        (WriterMemberID a < WriterMemberID b \<or> WriterMemberID a = WriterMemberID b \<and>
          WriterSequence a < WriterSequence b)))"
  by (auto simp: less_version_def Version_Compare_def cmp_defs cmp_bytes_def Let_def)

lemma Compare_eq_0: "Version_Compare a b = 0 \<longleftrightarrow> a = b"
  by (auto simp: Version_Compare_def cmp_defs Let_def version.expand split: if_splits)

lemma Compare_swap: "Version_Compare b a = - Version_Compare a b"
proof -
  obtain p1 l1 c1 m1 s1 where a: "a = Version p1 l1 c1 m1 s1" by (cases a)
  obtain p2 l2 c2 m2 s2 where b: "b = Version p2 l2 c2 m2 s2" by (cases b)
  have "cmpUint64 p2 p1 = - cmpUint64 p1 p2" "cmpUint32 l2 l1 = - cmpUint32 l1 l2"
    "cmp_bytes c2 c1 = - cmp_bytes c1 c2" "cmp_bytes m2 m1 = - cmp_bytes m1 m2"
    "cmpUint64 s2 s1 = - cmpUint64 s1 s2"
    by (auto simp: cmp_defs cmp_bytes_def)
  then show ?thesis
    by (auto simp: a b Version_Compare_def Let_def)
qed

lemma Compare_gt_0: "Version_Compare a b > 0 \<longleftrightarrow> Version_Compare b a < 0"
  by (simp add: Compare_swap [of b a])

lemma le_version_lex: "a \<le> b \<longleftrightarrow> a < b \<or> a = (b :: version)"
  using Compare_eq_0 [of a b] by (auto simp: less_eq_version_def less_version_def)

instance
proof
  fix x y z :: version
  show "x < y \<longleftrightarrow> x \<le> y \<and> \<not> y \<le> x"
    using Compare_gt_0 [of y x] by (auto simp: less_eq_version_def less_version_def)
  show "x \<le> x"
    by (simp add: le_version_lex)
  show "x \<le> y \<Longrightarrow> y \<le> z \<Longrightarrow> x \<le> z"
    by (auto simp: le_version_lex less_version_lex)
  show "x \<le> y \<Longrightarrow> y \<le> x \<Longrightarrow> x = y"
    by (auto simp: le_version_lex less_version_lex)
  show "x \<le> y \<or> y \<le> x"
    by (auto simp: less_eq_version_def not_le Compare_gt_0)
qed

end

lemma Compare_iff [simp]:
  "Version_Compare a b < 0 \<longleftrightarrow> a < b"
  "Version_Compare a b \<le> 0 \<longleftrightarrow> a \<le> b"
  "0 < Version_Compare a b \<longleftrightarrow> b < a"
  "0 \<le> Version_Compare a b \<longleftrightarrow> b \<le> a"
  "Version_Compare a b = 0 \<longleftrightarrow> a = b"
proof -
  show lt: "Version_Compare a b < 0 \<longleftrightarrow> a < b" by (simp add: less_version_def)
  show le: "Version_Compare a b \<le> 0 \<longleftrightarrow> a \<le> b" by (simp add: less_eq_version_def)
  show "0 < Version_Compare a b \<longleftrightarrow> b < a"
    using le by (metis linorder_not_le)
  show "0 \<le> Version_Compare a b \<longleftrightarrow> b \<le> a"
    using lt by (metis linorder_not_less)
  show "Version_Compare a b = 0 \<longleftrightarrow> a = b" by (rule Compare_eq_0)
qed

section \<open>Mutation identity\<close>

definition idSep :: byte where
  "idSep = 0x1f"

definition mutationID :: "bytes \<Rightarrow> bytes \<Rightarrow> u64 \<Rightarrow> bytes" where
  "mutationID cluster member seq = cluster @ [idSep] @ member @ [idSep] @ FormatUint (unat seq)"

definition Version_MutationID :: "version \<Rightarrow> bytes" where
  "Version_MutationID a = mutationID (WriterClusterID a) (WriterMemberID a) (WriterSequence a)"

lemma append_sep_inject:
  assumes "s \<notin> set xs" "s \<notin> set ys"
  shows "xs @ s # us = ys @ s # vs \<longleftrightarrow> xs = ys \<and> us = vs"
  using assms
proof (induction xs arbitrary: ys)
  case Nil
  then show ?case by (cases ys) auto
next
  case (Cons x xs)
  then show ?case by (cases ys) auto
qed

lemma mutationID_inject:
  assumes "idSep \<notin> set c1" "idSep \<notin> set m1" "idSep \<notin> set c2" "idSep \<notin> set m2"
  shows "mutationID c1 m1 s1 = mutationID c2 m2 s2 \<longleftrightarrow> c1 = c2 \<and> m1 = m2 \<and> s1 = s2"
  using assms by (simp add: mutationID_def append_sep_inject word_unat_eq_iff)

section \<open>Wire form\<close>

text \<open>\<open>wavespanv1.Version\<close> (proto/wavespan/v1/common.pb.go); a missing message is \<open>None\<close>.\<close>

record version_pb =
  pb_HlcPhysicalMs :: u64
  pb_HlcLogical :: u32
  pb_WriterClusterId :: bytes
  pb_WriterMemberId :: bytes
  pb_WriterSequence :: u64
  pb_VectorClock :: bytes

definition Version_ToProto :: "version \<Rightarrow> version_pb option" where
  "Version_ToProto a = Some
     \<lparr>pb_HlcPhysicalMs = HLCPhysicalMs a, pb_HlcLogical = HLCLogical a,
      pb_WriterClusterId = WriterClusterID a, pb_WriterMemberId = WriterMemberID a,
      pb_WriterSequence = WriterSequence a, pb_VectorClock = []\<rparr>"

definition Version_FromProto :: "version_pb option \<Rightarrow> version" where
  "Version_FromProto p =
     (case p of None \<Rightarrow> zero_version
      | Some q \<Rightarrow> Version (pb_HlcPhysicalMs q) (pb_HlcLogical q)
          (pb_WriterClusterId q) (pb_WriterMemberId q) (pb_WriterSequence q))"

lemma FromProto_ToProto [simp, wire_simps]: "Version_FromProto (Version_ToProto v) = v"
  by (simp add: Version_FromProto_def Version_ToProto_def)

section \<open>Sequencer\<close>

record sequencer =
  seq_last :: u64

definition NewSequencer :: "u64 \<Rightarrow> sequencer" where
  "NewSequencer start = \<lparr>seq_last = start\<rparr>"

definition Sequencer_Next :: "sequencer \<Rightarrow> sequencer \<times> u64" where
  "Sequencer_Next s = (s\<lparr>seq_last := seq_last s + 1\<rparr>, seq_last s + 1)"

definition Sequencer_Last :: "sequencer \<Rightarrow> u64" where
  "Sequencer_Last s = seq_last s"

fun Sequencer_run :: "sequencer \<Rightarrow> nat \<Rightarrow> u64 list" where
  "Sequencer_run s 0 = []"
| "Sequencer_run s (Suc n) = (let (s', v) = Sequencer_Next s in v # Sequencer_run s' n)"

lemma Sequencer_run_sorted:
  "unat (Sequencer_Last s) + n < 2 ^ 64 \<Longrightarrow>
    sorted_wrt (<) (Sequencer_Last s # Sequencer_run s n)"
proof (induction n arbitrary: s)
  case (Suc n)
  let ?s' = "s\<lparr>seq_last := seq_last s + 1\<rparr>"
  have u: "unat (seq_last s + 1) = unat (seq_last s) + 1"
    by (rule unat_Suc_u64) (use Suc.prems in \<open>simp add: Sequencer_Last_def\<close>)
  have "sorted_wrt (<) (Sequencer_Last ?s' # Sequencer_run ?s' n)"
    by (rule Suc.IH) (use Suc.prems u in \<open>simp add: Sequencer_Last_def\<close>)
  moreover have "seq_last s < seq_last s + 1"
    using u by (simp add: word_less_nat_alt)
  ultimately show ?case
    by (auto simp: Sequencer_Last_def Sequencer_Next_def intro: less_trans)
qed simp

section \<open>Properties\<close>

text \<open>C11: The version order is the lexicographic order of the five fields (physical, logical, cluster,
  member, sequence): \<open>Compare\<close> is negative, zero or positive exactly as the first version is
  below, equal to or above the second; it is antisymmetric and zero only on equal versions.\<close>

theorem Version_Compare_total_order:
  "(Version_Compare a b < 0 \<longleftrightarrow>
      HLCPhysicalMs a < HLCPhysicalMs b \<or> HLCPhysicalMs a = HLCPhysicalMs b \<and>
      (HLCLogical a < HLCLogical b \<or> HLCLogical a = HLCLogical b \<and>
       (WriterClusterID a < WriterClusterID b \<or> WriterClusterID a = WriterClusterID b \<and>
        (WriterMemberID a < WriterMemberID b \<or> WriterMemberID a = WriterMemberID b \<and>
         WriterSequence a < WriterSequence b))))
   \<and> (Version_Compare a b > 0 \<longleftrightarrow> Version_Compare b a < 0)
   \<and> (Version_Compare a b = 0 \<longleftrightarrow> Version_Equal a b)"
  by (simp add: less_version_lex)

text \<open>C15: Mutation identities are injective in (cluster, member, sequence), provided the identifiers do
  not contain the separator byte \<open>0x1f\<close>: two versions share an identity exactly when the same
  writer issued them under the same sequence number.\<close>

theorem Version_MutationID_inject:
  assumes "idSep \<notin> set (WriterClusterID a)" "idSep \<notin> set (WriterMemberID a)"
    and "idSep \<notin> set (WriterClusterID b)" "idSep \<notin> set (WriterMemberID b)"
  shows "Version_MutationID a = Version_MutationID b \<longleftrightarrow>
    WriterClusterID a = WriterClusterID b \<and> WriterMemberID a = WriterMemberID b
    \<and> WriterSequence a = WriterSequence b"
  using mutationID_inject [OF assms] by (simp add: Version_MutationID_def)

theorem Version_MutationID_inject_witness:
  "Version_MutationID (Version 5 0 [65] [66] 7) \<noteq> Version_MutationID (Version 5 0 [65] [66] 70)"
  using Version_MutationID_inject [of "Version 5 0 [65] [66] 7" "Version 5 0 [65] [66] 70"]
  by (simp add: idSep_def)

text \<open>Nothing in the code rejects the separator in an identifier; with it the identity is ambiguous.\<close>

lemma MutationID_ambiguous_with_separator:
  "mutationID [65, 0x1f, 66] [67] 1 = mutationID [65] [66, 0x1f, 67] 1"
  by (simp add: mutationID_def idSep_def)

end
