(* ===== verification/Records.thy ===== *)
theory Records
  imports Version
begin

text \<open>
  The wire and disk messages of \<open>src/proto/wavespan/v1/common.pb.go\<close> that the record layer passes
  around: values, versioned records, latest pointers and mutation-log envelopes.  An optional field
  and a pointer that may be \<open>nil\<close> are \<open>option\<close>s; a \<open>bytes\<close> field without presence does not
  distinguish \<open>nil\<close> from empty and is a plain byte string.
\<close>

record external_pointer =
  ext_Uri :: bytes
  ext_Size :: u64
  ext_Checksum :: bytes

datatype value_oneof = ValueBody_Inline bytes | ValueBody_External external_pointer

datatype value_body = ValueBody (Body: "value_oneof option")

datatype record_kind =
    RECORD_KIND_UNSPECIFIED | RECORD_KIND_KV | RECORD_KIND_GRAPH_NODE
  | RECORD_KIND_GRAPH_EDGE | RECORD_KIND_VECTOR

datatype mutation_kind = MUTATION_KIND_UNSPECIFIED | MUTATION_KIND_PUT | MUTATION_KIND_DELETE

datatype conflict_state =
    CONFLICT_STATE_UNSPECIFIED | CONFLICT_NONE | CONFLICT_RESOLVED | CONFLICT_SIBLINGS_PRESENT

record stored_record =
  LogicalKey :: bytes
  ValueOf :: "value_body option"
  VersionOf :: "version_pb option"
  ExpiresAtUnixMs :: "i64 option"
  Tombstone :: bool
  Kind :: record_kind
  Namespace :: bytes
  OriginClusterId :: bytes
  OriginMemberId :: bytes
  LocalApplyUnixMs :: i64
  ConflictState :: conflict_state

record latest_pointer =
  lp_Winner :: "version_pb option"
  lp_SiblingVersions :: "version_pb list"
  lp_ExpiresAtUnixMs :: "i64 option"
  lp_Tombstone :: bool
  lp_LocalGeneration :: u64
  lp_InlineValue :: "bytes option"

record mutation_envelope =
  env_MutationId :: bytes
  env_Kind :: mutation_kind
  env_LogicalKey :: bytes
  env_Value :: "value_body option"
  env_Version :: "version_pb option"
  env_ExpiresAtUnixMs :: "i64 option"
  env_Tombstone :: bool
  env_Namespace :: bytes
  env_OriginClusterId :: bytes
  env_OriginMemberId :: bytes
  env_OriginSequence :: u64
  env_CausalParents :: "bytes list"

text \<open>\<open>ValueBody.GetInline\<close>: the inline bytes, or \<open>nil\<close> (empty) for any other body.\<close>

definition GetInline :: "value_body option \<Rightarrow> bytes" where
  "GetInline v = (case v of Some (ValueBody (Some (ValueBody_Inline b))) \<Rightarrow> b | _ \<Rightarrow> [])"

text \<open>The version of a record, as the code reads it everywhere: \<open>version.FromProto(r.GetVersion())\<close>.\<close>

definition rec_ver :: "stored_record \<Rightarrow> version" where
  "rec_ver r = Version_FromProto (VersionOf r)"

definition lp_ver :: "latest_pointer \<Rightarrow> version" where
  "lp_ver lp = Version_FromProto (lp_Winner lp)"

end
