(* ===== verification/Keys.thy ===== *)
theory Keys
  imports Records "HOL-Library.Signed_Division"
begin

text \<open>
  The keyspace of the record layer: the builders of \<open>src/internal/storage/envelope.go\<close> (\<open>joinKey\<close>
  keys), the layout and the time-to-live index of \<open>src/internal/recordstore/encode.go\<close>, the inverse
  \<open>parseLatestKey\<close> (repair.go) and the namespace selection of backups (selection.go).

  Shown here: every builder is injective, the latest-pointer keys of a namespace sort like the user
  keys, the versions of a user key are exactly the keys below its data prefix, the parsers invert the
  builders, and the scan bound of the sweeper selects exactly the buckets that are due.
\<close>

section \<open>Storage key builders\<close>

fun joinKey :: "bytes list \<Rightarrow> bytes" where
  "joinKey [] = []"
| "joinKey (p # parts) = PutUvarint (length p) @ p @ joinKey parts"

text \<open>\<open>encodeVersion\<close> of envelope.go, on the wire version.\<close>

definition storage_encodeVersion :: "version_pb option \<Rightarrow> bytes" where
  "storage_encodeVersion p = (case p of None \<Rightarrow> []
     | Some v \<Rightarrow> joinKey [PutUint64 (pb_HlcPhysicalMs v) @ PutUint32 (pb_HlcLogical v),
         pb_WriterClusterId v, pb_WriterMemberId v, PutUint64 (pb_WriterSequence v)])"

definition KVDataKey :: "bytes \<Rightarrow> bytes \<Rightarrow> version_pb option \<Rightarrow> bytes" where
  "KVDataKey namespace userKey v = joinKey [namespace, str ''data'', userKey, storage_encodeVersion v]"

definition KVLatestKey :: "bytes \<Rightarrow> bytes \<Rightarrow> bytes" where
  "KVLatestKey namespace userKey = joinKey [namespace, str ''latest'', userKey]"

definition ReplLogKey :: "bytes \<Rightarrow> u64 \<Rightarrow> bytes" where
  "ReplLogKey part seq = joinKey [str ''local'', part, PutUint64 seq]"

section \<open>Record-store keys\<close>

definition lenPrefix :: "bytes \<Rightarrow> bytes \<Rightarrow> bytes" where
  "lenPrefix dst b = dst @ PutUvarint (length b) @ b"

definition latestKey :: "bytes \<Rightarrow> bytes \<Rightarrow> bytes" where
  "latestKey namespace userKey = lenPrefix [] namespace @ userKey"

definition namespacePrefix :: "bytes \<Rightarrow> bytes" where
  "namespacePrefix namespace = lenPrefix [] namespace"

definition encodeVersion :: "version \<Rightarrow> bytes" where
  "encodeVersion v =
     (let out = PutUint64 (HLCPhysicalMs v) @ PutUint32 (HLCLogical v);
          out = lenPrefix out (WriterClusterID v);
          out = lenPrefix out (WriterMemberID v)
      in out @ PutUint64 (WriterSequence v))"

definition dataKey :: "bytes \<Rightarrow> bytes \<Rightarrow> version \<Rightarrow> bytes" where
  "dataKey namespace userKey v = lenPrefix (lenPrefix [] namespace) userKey @ encodeVersion v"

definition dataKeyPrefix :: "bytes \<Rightarrow> bytes \<Rightarrow> bytes" where
  "dataKeyPrefix namespace userKey = lenPrefix (lenPrefix [] namespace) userKey"

section \<open>The time-to-live index\<close>

definition ttlSentinel :: byte where
  "ttlSentinel = 0xff"

definition ttlBucketMs :: int where
  "ttlBucketMs = 60000"

text \<open>Go's \<open>/\<close> on \<open>int64\<close> truncates towards zero: \<open>sdiv\<close>.\<close>

definition ttlBucketStart :: "i64 \<Rightarrow> i64" where
  "ttlBucketStart expiresMs = word_of_int ((sint expiresMs sdiv ttlBucketMs) * ttlBucketMs)"

definition ttlKey :: "i64 \<Rightarrow> bytes \<Rightarrow> bytes \<Rightarrow> bytes" where
  "ttlKey expiresMs namespace userKey =
     lenPrefix ([ttlSentinel] @ PutUint64 (ttlBucketStart expiresMs)) namespace @ userKey"

definition ttlLowBound :: bytes where
  "ttlLowBound = [ttlSentinel]"

definition ttlScanBound :: "i64 \<Rightarrow> bytes" where
  "ttlScanBound nowMs = [ttlSentinel] @ PutUint64 (ttlBucketStart nowMs + word_of_int ttlBucketMs)"

section \<open>Parsers\<close>

text \<open>The shared tail of the parsers: a length-prefixed namespace and the rest of the key.  The code
  compares lengths unsigned, so a length above \<open>2^63\<close> is refused and never used as a slice bound.\<close>

definition parseLatestKey :: "bytes \<Rightarrow> (bytes \<times> bytes) option" where
  "parseLatestKey k =
     (let (nsLen, n) = Uvarint k in
      if n \<le> 0 \<or> int nsLen > int (length k) - n then None
      else Some (take nsLen (drop (nat n) k), drop (nat n + nsLen) k))"

definition parseTTLKey :: "bytes \<Rightarrow> (bytes \<times> bytes) option" where
  "parseTTLKey k =
     (if length k < 9 \<or> hd k \<noteq> ttlSentinel then None
      else let rest = drop 9 k; (nsLen, n) = Uvarint rest in
        if n \<le> 0 \<or> int nsLen > int (length rest) - n then None
        else Some (take nsLen (drop (nat n) rest), drop (nat n + nsLen) rest))"

definition NamespaceOfKey :: "bytes \<Rightarrow> bytes option" where
  "NamespaceOfKey key =
     (if key = [] then None
      else if hd key = ttlSentinel then map_option fst (parseTTLKey key)
      else let (nsLen, n) = Uvarint key in
        if n \<le> 0 \<or> int nsLen > int (length key) - n then None
        else Some (take nsLen (drop (nat n) key)))"

section \<open>Injectivity\<close>

lemma lenPrefix_append_inject [simp]:
  "lenPrefix d a @ x = lenPrefix d b @ y \<longleftrightarrow> a = b \<and> x = y"
  by (auto simp: lenPrefix_def PutUvarint_append_inject)

lemma lenPrefix_acc: "lenPrefix (d @ e) a = d @ lenPrefix e a"
  by (simp add: lenPrefix_def)

lemma lenPrefix_from: "lenPrefix d a = d @ lenPrefix [] a"
  by (simp add: lenPrefix_def)

lemma joinKey_inject: "joinKey xs @ u = joinKey ys @ v \<Longrightarrow> length xs = length ys \<Longrightarrow> xs = ys \<and> u = v"
proof (induction xs arbitrary: ys)
  case (Cons x xs)
  then obtain y ys' where "ys = y # ys'" by (cases ys) auto
  with Cons show ?case by (auto simp: PutUvarint_append_inject)
qed simp

lemma latestKey_inject [simp]: "latestKey ns k = latestKey ns' k' \<longleftrightarrow> ns = ns' \<and> k = k'"
  by (simp add: latestKey_def)

lemma encodeVersion_append_inject:
  "encodeVersion v @ x = encodeVersion w @ y \<longleftrightarrow> v = w \<and> x = y"
proof -
  have "encodeVersion v = PutUint64 (HLCPhysicalMs v) @ PutUint32 (HLCLogical v) @
      lenPrefix [] (WriterClusterID v) @ lenPrefix [] (WriterMemberID v) @ PutUint64 (WriterSequence v)" for v
    by (simp add: encodeVersion_def Let_def lenPrefix_def)
  then show ?thesis by (cases v; cases w) auto
qed

lemma encodeVersion_inject [simp]: "encodeVersion v = encodeVersion w \<longleftrightarrow> v = w"
  using encodeVersion_append_inject [of v "[]" w "[]"] by simp

lemma dataKey_inject [simp]: "dataKey ns k v = dataKey ns' k' v' \<longleftrightarrow> ns = ns' \<and> k = k' \<and> v = v'"
proof -
  have "dataKey ns k v = lenPrefix [] ns @ lenPrefix [] k @ encodeVersion v @ []" for ns k v
    by (simp add: dataKey_def lenPrefix_from [of "lenPrefix [] ns"])
  then show ?thesis by (auto simp: encodeVersion_append_inject)
qed

lemma prefix_dataKeyPrefix: "prefix (dataKeyPrefix ns k) (dataKey ns' k' v) \<longleftrightarrow> ns = ns' \<and> k = k'"
proof -
  have "dataKeyPrefix ns k = lenPrefix [] ns @ lenPrefix [] k" for ns k
    by (simp add: dataKeyPrefix_def lenPrefix_from [of "lenPrefix [] ns"])
  moreover have "dataKey ns k v = lenPrefix [] ns @ lenPrefix [] k @ encodeVersion v" for ns k v
    by (simp add: dataKey_def lenPrefix_from [of "lenPrefix [] ns"])
  ultimately show ?thesis by (auto simp: prefix_def)
qed

lemma ReplLogKey_inject [simp]: "ReplLogKey p n = ReplLogKey q m \<longleftrightarrow> p = q \<and> n = m"
  using joinKey_inject [of "[str ''local'', p, PutUint64 n]" "[]" "[str ''local'', q, PutUint64 m]" "[]"]
  by (auto simp: ReplLogKey_def)

lemma prefix_namespacePrefix: "prefix (namespacePrefix ns) (latestKey ns' k) \<longleftrightarrow> ns = ns'"
  by (auto simp: namespacePrefix_def latestKey_def prefix_def)

lemma latestKey_namespacePrefix: "latestKey ns k = namespacePrefix ns @ k"
  by (simp add: namespacePrefix_def latestKey_def)

lemma latestKey_less [simp]: "latestKey ns k < latestKey ns k' \<longleftrightarrow> k < k'"
  by (simp add: latestKey_def)

lemma latestKey_le [simp]: "latestKey ns k \<le> latestKey ns k' \<longleftrightarrow> k \<le> k'"
  by (simp add: latestKey_def)

section \<open>Latest-pointer keys and the index\<close>

text \<open>Namespaces of fewer than 128 bytes: the length prefix is one byte below \<open>0x80\<close>.\<close>

definition short_ns :: "bytes \<Rightarrow> bool" where
  "short_ns ns \<longleftrightarrow> length ns < 128"

lemma latestKey_short: "short_ns ns \<Longrightarrow> latestKey ns k = of_nat (length ns) # ns @ k"
  by (simp add: short_ns_def latestKey_def lenPrefix_def hd_PutUvarint_small)

lemma short_length_less_sentinel: "short_ns ns \<Longrightarrow> (of_nat (length ns) :: byte) < ttlSentinel"
  by (simp add: short_ns_def ttlSentinel_def word_less_nat_alt unat_of_nat_small)

lemma latestKey_neq_ttlKey [simp]: "short_ns ns \<Longrightarrow> latestKey ns k \<noteq> ttlKey e ns' k'"
  using short_length_less_sentinel [of ns] by (auto simp: latestKey_short ttlKey_def lenPrefix_def)

lemma latestKey_below_ttl: "short_ns ns \<Longrightarrow> latestKey ns k < ttlLowBound"
  using short_length_less_sentinel [of ns] by (simp add: latestKey_short ttlLowBound_def)

lemma ttlKey_not_below: "ttlLowBound \<le> ttlKey e ns k"
  by (simp add: ttlLowBound_def ttlKey_def lenPrefix_def)

section \<open>Parsers\<close>

lemma parseLatestKey_latestKey:
  "length ns < 2 ^ 63 \<Longrightarrow> parseLatestKey (latestKey ns k) = Some (ns, k)"
  by (simp add: parseLatestKey_def latestKey_def lenPrefix_def)

lemma parseTTLKey_ttlKey:
  "length ns < 2 ^ 63 \<Longrightarrow> parseTTLKey (ttlKey e ns k) = Some (ns, k)"
  by (simp add: parseTTLKey_def ttlKey_def lenPrefix_def)

lemma NamespaceOfKey_short:
  assumes "short_ns ns"
  shows "NamespaceOfKey (of_nat (length ns) # ns @ rest) = Some ns"
proof -
  have "Uvarint (PutUvarint (length ns) @ ns @ rest) = (length ns, 1)"
    using assms Uvarint_PutUvarint [of "length ns" "ns @ rest"] hd_PutUvarint_small [of "length ns"]
    by (simp add: short_ns_def)
  then have "Uvarint (of_nat (length ns) # ns @ rest) = (length ns, 1)"
    using assms by (simp add: short_ns_def hd_PutUvarint_small)
  then show ?thesis
    using order_less_imp_not_eq [OF short_length_less_sentinel [OF assms]]
    by (simp add: NamespaceOfKey_def)
qed

lemma NamespaceOfKey_latestKey: "short_ns ns \<Longrightarrow> NamespaceOfKey (latestKey ns k) = Some ns"
  by (simp add: latestKey_short NamespaceOfKey_short)

lemma NamespaceOfKey_dataKey: "short_ns ns \<Longrightarrow> NamespaceOfKey (dataKey ns k v) = Some ns"
  using NamespaceOfKey_short [of ns]
  by (simp add: dataKey_def lenPrefix_def short_ns_def hd_PutUvarint_small)

lemma NamespaceOfKey_ttlKey: "length ns < 2 ^ 63 \<Longrightarrow> NamespaceOfKey (ttlKey e ns k) = Some ns"
  using parseTTLKey_ttlKey [of ns e k]
  by (simp add: NamespaceOfKey_def) (simp add: ttlKey_def lenPrefix_def)

section \<open>Due buckets\<close>

lemma ttlKey_below_bound:
  "ttlKey e ns k < ttlScanBound now \<longleftrightarrow> ttlBucketStart e < ttlBucketStart now + word_of_int ttlBucketMs"
  using append_less_append_length [of "PutUint64 (ttlBucketStart e)"
      "PutUint64 (ttlBucketStart now + word_of_int ttlBucketMs)" "lenPrefix [] ns @ k" "[]"]
  by (simp add: ttlKey_def ttlScanBound_def lenPrefix_def)

lemma uint_word_of_int_u64: "0 \<le> x \<Longrightarrow> x < 2 ^ 64 \<Longrightarrow> uint (word_of_int x :: u64) = x"
  by (simp add: unsigned_of_int take_bit_int_eq_self)

lemma uint_ttlBucketStart:
  assumes "0 \<le> sint e"
  shows "uint (ttlBucketStart e) = sint e div 60000 * 60000"
proof -
  have lt: "sint e < 2 ^ 63" using sint_less [of e] by simp
  have "sint e div 60000 * 60000 \<le> sint e" by linarith
  moreover have "0 \<le> sint e div 60000 * 60000" using assms by simp
  moreover have "sint e sdiv 60000 = sint e div 60000"
    using assms by (auto simp: signed_divide_int_def sgn_if)
  ultimately show ?thesis using lt uint_word_of_int_u64 [of "sint e div 60000 * 60000"]
    unfolding ttlBucketStart_def ttlBucketMs_def by simp
qed

lemma due_bucket_iff:
  assumes "0 \<le> sint e" "0 \<le> sint now" "sint now < 2 ^ 62"
  shows "ttlBucketStart e < ttlBucketStart now + word_of_int ttlBucketMs \<longleftrightarrow>
    sint e div 60000 \<le> sint now div 60000"
proof -
  have "sint now div 60000 * 60000 \<le> sint now" by linarith
  then have "uint (ttlBucketStart now + word_of_int ttlBucketMs) = sint now div 60000 * 60000 + 60000"
    using uint_ttlBucketStart [OF assms(2)] assms
    by (simp add: uint_word_ariths ttlBucketMs_def)
  then show ?thesis using uint_ttlBucketStart [OF assms(1)]
    by (simp add: word_less_def) linarith
qed

section \<open>Properties\<close>

text \<open>C19: the keyspace is exact.  Latest-pointer keys and versioned-record keys determine their
  components whatever bytes the namespace, the user key and the writer identifiers hold; the pointer
  keys of one namespace sort as the user keys do and are exactly the keys below the namespace prefix;
  the versions of one user key are exactly the record keys below its data prefix.\<close>

theorem record_keys_exact:
  "(latestKey ns k = latestKey ns' k' \<longleftrightarrow> ns = ns' \<and> k = k') \<and>
   (latestKey ns k < latestKey ns k' \<longleftrightarrow> k < k') \<and>
   (prefix (namespacePrefix ns) (latestKey ns' k') \<longleftrightarrow> ns = ns') \<and>
   (dataKey ns k v = dataKey ns' k' v' \<longleftrightarrow> ns = ns' \<and> k = k' \<and> v = v') \<and>
   (in_range (Some (dataKeyPrefix ns k)) (prefixEnd (dataKeyPrefix ns k)) (dataKey ns' k' v') \<longleftrightarrow>
     ns = ns' \<and> k = k')"
  by (simp add: prefix_namespacePrefix in_range_prefixEnd prefix_dataKeyPrefix)

text \<open>C20: the backup selection reads the right namespace off every kind of key: for namespaces of
  fewer than 128 bytes, latest-pointer, versioned-record and index keys all yield the namespace they
  were built with, and the index parser also returns the user key.\<close>

theorem NamespaceOfKey_built:
  assumes "short_ns ns"
  shows "NamespaceOfKey (latestKey ns k) = Some ns \<and> NamespaceOfKey (dataKey ns k v) = Some ns \<and>
    NamespaceOfKey (ttlKey e ns k) = Some ns \<and> parseTTLKey (ttlKey e ns k) = Some (ns, k) \<and>
    parseLatestKey (latestKey ns k) = Some (ns, k)"
  using assms
  by (simp add: NamespaceOfKey_latestKey NamespaceOfKey_dataKey NamespaceOfKey_ttlKey
      parseTTLKey_ttlKey parseLatestKey_latestKey short_ns_def)

theorem NamespaceOfKey_built_witness:
  "NamespaceOfKey (ttlKey 5 (str ''ns'') (str ''k'')) = Some (str ''ns'')"
  using NamespaceOfKey_built [of "str ''ns''" "str ''k''" _ 5] by (simp add: short_ns_def str_def)

text \<open>C21: the scan of the sweeper visits exactly the index entries whose one-minute bucket has started:
  an entry is in the range at time \<open>now\<close> iff the bucket of its expiry is not after the bucket of
  \<open>now\<close>.  In particular every expired key is visited, and never a key of a later bucket.\<close>

theorem ttl_scan_exact:
  assumes "0 \<le> sint e" "0 \<le> sint now" "sint now < 2 ^ 62"
  shows "in_range (Some ttlLowBound) (Some (ttlScanBound now)) (ttlKey e ns k) \<longleftrightarrow>
    sint e div ttlBucketMs \<le> sint now div ttlBucketMs"
  using due_bucket_iff [OF assms] ttlKey_below_bound [of e ns k now] ttlKey_not_below [of e ns k]
  by (simp add: in_range_def ttlBucketMs_def)

theorem ttl_scan_exact_witness:
  "in_range (Some ttlLowBound) (Some (ttlScanBound 60001)) (ttlKey 119999 (str ''ns'') (str ''k'')) \<and>
   \<not> in_range (Some ttlLowBound) (Some (ttlScanBound 60001)) (ttlKey 120000 (str ''ns'') (str ''k''))"
  using ttl_scan_exact [of 119999 60001] ttl_scan_exact [of 120000 60001] by (simp add: ttlBucketMs_def)

section \<open>Where the comments of the layout do not hold\<close>

text \<open>A namespace of 255 bytes gives latest-pointer keys in the region of the index: the layout's
  claim that the first byte of a pointer key is below \<open>0x80\<close> holds for short namespaces only.\<close>

lemma latestKey_in_ttl_region:
  assumes "length ns = 255"
  shows "hd (latestKey ns k) = ttlSentinel \<and> ttlLowBound < latestKey ns k"
proof -
  have "PutUvarint 255 = [0xff, 1]" by (simp add: PutUvarint.simps)
  then show ?thesis using assms by (simp add: latestKey_def lenPrefix_def ttlLowBound_def ttlSentinel_def)
qed

text \<open>The version suffix is not byte-comparable across writers whose identifiers differ in length.\<close>

lemma encodeVersion_not_monotone:
  "Version 1 0 (str ''aa'') [] 0 < Version 1 0 (str ''b'') [] 0 \<and>
   encodeVersion (Version 1 0 (str ''b'') [] 0) < encodeVersion (Version 1 0 (str ''aa'') [] 0)"
  by (simp add: less_version_lex str_def encodeVersion_def lenPrefix_def Let_def hd_PutUvarint_small)

end
