(* ===== verification/Envelope.thy ===== *)
theory Envelope
  imports Records
begin

text \<open>
  The envelopes of \<open>src/internal/storage/envelope.go\<close>: encoding and decoding of records, latest
  pointers and mutation-log entries, the inlined small value, and the pointer rebuilt from the
  versioned records.

  The encoding itself is the protobuf library.  It is a parameter, a \<open>proto_codec\<close>: marshalling may
  fail (it refuses strings that are not UTF-8) and unmarshalling may fail.  \<open>codec_ok\<close> is what the code
  relies on, that a message which could be marshalled unmarshals to itself.  \<open>demo_codec\<close> is a concrete
  codec with that property, for the examples.
\<close>

record proto_codec =
  marshal_record :: "stored_record \<Rightarrow> bytes option"
  unmarshal_record :: "bytes \<Rightarrow> stored_record option"
  marshal_pointer :: "latest_pointer \<Rightarrow> bytes option"
  unmarshal_pointer :: "bytes \<Rightarrow> latest_pointer option"
  marshal_envelope :: "mutation_envelope \<Rightarrow> bytes option"
  unmarshal_envelope :: "bytes \<Rightarrow> mutation_envelope option"

definition codec_ok :: "proto_codec \<Rightarrow> bool" where
  "codec_ok c \<longleftrightarrow>
     (\<forall>r b. marshal_record c r = Some b \<longrightarrow> unmarshal_record c b = Some r) \<and>
     (\<forall>p b. marshal_pointer c p = Some b \<longrightarrow> unmarshal_pointer c b = Some p) \<and>
     (\<forall>m b. marshal_envelope c m = Some b \<longrightarrow> unmarshal_envelope c b = Some m)"

text \<open>\<open>MarshalAppend\<close> appends the encoding to the buffer.\<close>

definition AppendStoredRecord :: "proto_codec \<Rightarrow> bytes \<Rightarrow> stored_record \<Rightarrow> bytes option" where
  "AppendStoredRecord c buf r = map_option (\<lambda>b. buf @ b) (marshal_record c r)"

definition AppendLatestPointer :: "proto_codec \<Rightarrow> bytes \<Rightarrow> latest_pointer \<Rightarrow> bytes option" where
  "AppendLatestPointer c buf p = map_option (\<lambda>b. buf @ b) (marshal_pointer c p)"

definition AppendMutationEnvelope :: "proto_codec \<Rightarrow> bytes \<Rightarrow> mutation_envelope \<Rightarrow> bytes option" where
  "AppendMutationEnvelope c buf m = map_option (\<lambda>b. buf @ b) (marshal_envelope c m)"

definition EncodeStoredRecord :: "proto_codec \<Rightarrow> stored_record \<Rightarrow> bytes option" where
  "EncodeStoredRecord c r = marshal_record c r"

definition DecodeStoredRecord :: "proto_codec \<Rightarrow> bytes \<Rightarrow> stored_record option" where
  "DecodeStoredRecord c b = unmarshal_record c b"

definition EncodeLatestPointer :: "proto_codec \<Rightarrow> latest_pointer \<Rightarrow> bytes option" where
  "EncodeLatestPointer c p = marshal_pointer c p"

definition DecodeLatestPointer :: "proto_codec \<Rightarrow> bytes \<Rightarrow> latest_pointer option" where
  "DecodeLatestPointer c b = unmarshal_pointer c b"

definition EncodeMutationEnvelope :: "proto_codec \<Rightarrow> mutation_envelope \<Rightarrow> bytes option" where
  "EncodeMutationEnvelope c m = marshal_envelope c m"

definition DecodeMutationEnvelope :: "proto_codec \<Rightarrow> bytes \<Rightarrow> mutation_envelope option" where
  "DecodeMutationEnvelope c b = unmarshal_envelope c b"

definition InlineValueMax :: nat where
  "InlineValueMax = 512"

definition InlineValue :: "stored_record \<Rightarrow> bytes option" where
  "InlineValue rec =
     (if Tombstone rec then None
      else case ValueOf rec of
        Some (ValueBody (Some (ValueBody_Inline b))) \<Rightarrow> if length b > InlineValueMax then None else Some b
      | _ \<Rightarrow> None)"

fun rebuild_winner :: "stored_record \<Rightarrow> stored_record list \<Rightarrow> stored_record" where
  "rebuild_winner winner [] = winner"
| "rebuild_winner winner (r # rs) =
     rebuild_winner (if Version_Compare (rec_ver r) (rec_ver winner) > 0 then r else winner) rs"

definition RebuildLatestPointer :: "stored_record list \<Rightarrow> latest_pointer option" where
  "RebuildLatestPointer records =
     (case records of [] \<Rightarrow> None
      | r # rs \<Rightarrow>
          (let winner = rebuild_winner r rs in
           Some \<lparr>lp_Winner = VersionOf winner, lp_SiblingVersions = [],
             lp_ExpiresAtUnixMs = ExpiresAtUnixMs winner, lp_Tombstone = Tombstone winner,
             lp_LocalGeneration = 0, lp_InlineValue = InlineValue winner\<rparr>))"

section \<open>Facts\<close>

lemma codec_record: "\<lbrakk>codec_ok c; marshal_record c r = Some b\<rbrakk> \<Longrightarrow> unmarshal_record c b = Some r"
  by (simp add: codec_ok_def)

lemma codec_pointer: "\<lbrakk>codec_ok c; marshal_pointer c p = Some b\<rbrakk> \<Longrightarrow> unmarshal_pointer c b = Some p"
  by (simp add: codec_ok_def)

lemma codec_envelope: "\<lbrakk>codec_ok c; marshal_envelope c m = Some b\<rbrakk> \<Longrightarrow> unmarshal_envelope c b = Some m"
  by (simp add: codec_ok_def)

lemma rebuild_winner_spec:
  "rebuild_winner w rs \<in> insert w (set rs) \<and>
   (\<forall>r \<in> insert w (set rs). rec_ver r \<le> rec_ver (rebuild_winner w rs))"
proof (induction rs arbitrary: w)
  case (Cons r rs)
  show ?case
  proof (cases "rec_ver w < rec_ver r")
    case True
    then show ?thesis using Cons.IH [of r] by auto
  next
    case False
    then show ?thesis using Cons.IH [of w] by auto
  qed
qed simp

section \<open>A concrete codec\<close>

text \<open>Self-delimiting fields: every byte of a string is preceded by 1 and a string is closed by 0.\<close>

fun put_str :: "bytes \<Rightarrow> bytes" where
  "put_str [] = [0]"
| "put_str (b # bs) = 1 # b # put_str bs"

fun get_str :: "bytes \<Rightarrow> (bytes \<times> bytes) option" where
  "get_str (t # rest) = (if t = 0 then Some ([], rest)
     else case rest of [] \<Rightarrow> None
       | b # rest' \<Rightarrow> map_option (\<lambda>(bs, r). (b # bs, r)) (get_str rest'))"
| "get_str [] = None"

lemma get_put_str [simp]: "get_str (put_str bs @ rest) = Some (bs, rest)"
  by (induction bs) auto

text \<open>A pair of a writer and a reader that inverts it in any context; the combinators build one for
  every message from its fields.\<close>

definition inverts :: "('a \<Rightarrow> bytes) \<Rightarrow> (bytes \<Rightarrow> ('a \<times> bytes) option) \<Rightarrow> bool" where
  "inverts put get \<longleftrightarrow> (\<forall>x rest. get (put x @ rest) = Some (x, rest))"

definition get_with :: "(bytes \<Rightarrow> 'a) \<Rightarrow> bytes \<Rightarrow> ('a \<times> bytes) option" where
  "get_with f bs = map_option (\<lambda>(s, r). (f s, r)) (get_str bs)"

definition put_pair :: "('a \<Rightarrow> bytes) \<Rightarrow> ('b \<Rightarrow> bytes) \<Rightarrow> 'a \<times> 'b \<Rightarrow> bytes" where
  "put_pair p q x = p (fst x) @ q (snd x)"

definition get_pair ::
  "(bytes \<Rightarrow> ('a \<times> bytes) option) \<Rightarrow> (bytes \<Rightarrow> ('b \<times> bytes) option) \<Rightarrow> bytes \<Rightarrow> (('a \<times> 'b) \<times> bytes) option" where
  "get_pair f g bs = (case f bs of None \<Rightarrow> None
     | Some (x, r) \<Rightarrow> (case g r of None \<Rightarrow> None | Some (y, r') \<Rightarrow> Some ((x, y), r')))"

definition put_opt :: "('a \<Rightarrow> bytes) \<Rightarrow> 'a option \<Rightarrow> bytes" where
  "put_opt p x = (case x of None \<Rightarrow> [0] | Some y \<Rightarrow> 1 # p y)"

definition get_opt :: "(bytes \<Rightarrow> ('a \<times> bytes) option) \<Rightarrow> bytes \<Rightarrow> ('a option \<times> bytes) option" where
  "get_opt g bs = (case bs of [] \<Rightarrow> None
     | t # r \<Rightarrow> if t = 0 then Some (None, r) else map_option (\<lambda>(x, r'). (Some x, r')) (g r))"

fun put_all :: "('a \<Rightarrow> bytes) \<Rightarrow> 'a list \<Rightarrow> bytes" where
  "put_all p [] = [0]"
| "put_all p (x # xs) = 1 # p x @ put_all p xs"

text \<open>The fuel is the length of the input, which bounds the number of elements.\<close>

fun get_all :: "nat \<Rightarrow> (bytes \<Rightarrow> ('a \<times> bytes) option) \<Rightarrow> bytes \<Rightarrow> ('a list \<times> bytes) option" where
  "get_all n g [] = None"
| "get_all 0 g (t # r) = (if t = 0 then Some ([], r) else None)"
| "get_all (Suc n) g (t # r) = (if t = 0 then Some ([], r)
     else case g r of None \<Rightarrow> None
       | Some (x, r') \<Rightarrow> map_option (\<lambda>(xs, r''). (x # xs, r'')) (get_all n g r'))"

definition get_list :: "(bytes \<Rightarrow> ('a \<times> bytes) option) \<Rightarrow> bytes \<Rightarrow> ('a list \<times> bytes) option" where
  "get_list g bs = get_all (length bs) g bs"

lemma inverts_str: "inverts put_str get_str"
  by (simp add: inverts_def)

lemma inverts_with: "(\<And>x. f (p x) = x) \<Longrightarrow> inverts (\<lambda>x. put_str (p x)) (get_with f)"
  by (simp add: inverts_def get_with_def)

lemma inverts_pair: "inverts p f \<Longrightarrow> inverts q g \<Longrightarrow> inverts (put_pair p q) (get_pair f g)"
  by (simp add: inverts_def put_pair_def get_pair_def)

lemma inverts_opt: "inverts p g \<Longrightarrow> inverts (put_opt p) (get_opt g)"
  by (simp add: inverts_def put_opt_def get_opt_def split: option.split)

lemma get_all_put_all:
  "inverts p g \<Longrightarrow> length xs \<le> n \<Longrightarrow> get_all n g (put_all p xs @ rest) = Some (xs, rest)"
proof (induction xs arbitrary: n)
  case Nil
  then show ?case by (cases n) auto
next
  case (Cons x xs)
  then show ?case by (cases n) (auto simp: inverts_def)
qed

lemma length_put_all: "length xs \<le> length (put_all p xs)"
  by (induction xs) auto

lemma inverts_list: "inverts p g \<Longrightarrow> inverts (put_all p) (get_list g)"
  unfolding inverts_def get_list_def
  by (auto intro!: get_all_put_all simp: inverts_def trans_le_add1 length_put_all)

lemma inverts_iso:
  "inverts p g \<Longrightarrow> (\<And>x. of_rep (to_rep x) = x) \<Longrightarrow>
    inverts (\<lambda>x. p (to_rep x)) (\<lambda>bs. map_option (\<lambda>(y, r). (of_rep y, r)) (g bs))"
  by (simp add: inverts_def)

definition put_bool :: "bool \<Rightarrow> bytes" where
  "put_bool b = put_str (if b then [1] else [])"

definition put_version :: "version_pb \<Rightarrow> bytes" where
  "put_version v = put_pair (\<lambda>w. put_str (PutUint64 w)) (put_pair (\<lambda>w. put_str (PutUint32 w))
     (put_pair put_str (put_pair put_str (put_pair (\<lambda>w. put_str (PutUint64 w)) put_str))))
     (pb_HlcPhysicalMs v, pb_HlcLogical v, pb_WriterClusterId v, pb_WriterMemberId v,
      pb_WriterSequence v, pb_VectorClock v)"

definition get_version :: "bytes \<Rightarrow> (version_pb \<times> bytes) option" where
  "get_version bs = map_option (\<lambda>((a, b, c, d, e, f), r).
       (\<lparr>pb_HlcPhysicalMs = a, pb_HlcLogical = b, pb_WriterClusterId = c, pb_WriterMemberId = d,
         pb_WriterSequence = e, pb_VectorClock = f\<rparr>, r))
     (get_pair (get_with Uint64) (get_pair (get_with Uint32)
       (get_pair get_str (get_pair get_str (get_pair (get_with Uint64) get_str)))) bs)"

lemmas inverts_prim =
  inverts_str inverts_with [of Uint64 PutUint64, OF Uint64_PutUint64_Nil]
  inverts_with [of Uint32 PutUint32, OF Uint32_PutUint32_Nil]

lemma inverts_version: "inverts put_version get_version"
proof -
  have "inverts (put_pair (\<lambda>w. put_str (PutUint64 w)) (put_pair (\<lambda>w. put_str (PutUint32 w))
     (put_pair put_str (put_pair put_str (put_pair (\<lambda>w. put_str (PutUint64 w)) put_str)))))
    (get_pair (get_with Uint64) (get_pair (get_with Uint32)
       (get_pair get_str (get_pair get_str (get_pair (get_with Uint64) get_str)))))"
    by (intro inverts_pair inverts_prim)
  then show ?thesis by (simp add: inverts_def put_version_def get_version_def)
qed

definition get_bool :: "bytes \<Rightarrow> (bool \<times> bytes) option" where
  "get_bool = get_with (\<lambda>bs. bs \<noteq> [])"

definition value_fields :: "value_body \<Rightarrow> bytes \<times> bytes option \<times> bytes \<times> bytes" where
  "value_fields v = (case Body v of
      None \<Rightarrow> ([0], None, [], [])
    | Some (ValueBody_Inline b) \<Rightarrow> ([1], Some b, [], [])
    | Some (ValueBody_External e) \<Rightarrow> ([2], Some (ext_Uri e), PutUint64 (ext_Size e), ext_Checksum e))"

definition value_of_fields :: "bytes \<times> bytes option \<times> bytes \<times> bytes \<Rightarrow> value_body" where
  "value_of_fields = (\<lambda>(t, b, n, h). ValueBody
     (if t = [0] then None else if t = [1] then Some (ValueBody_Inline (the b))
      else Some (ValueBody_External \<lparr>ext_Uri = the b, ext_Size = Uint64 n, ext_Checksum = h\<rparr>)))"

lemma value_fields_inverse [simp]: "value_of_fields (value_fields v) = v"
  by (cases v) (auto simp: value_of_fields_def value_fields_def split: option.splits value_oneof.splits)

definition put_value :: "value_body \<Rightarrow> bytes" where
  "put_value v = put_pair put_str (put_pair (put_opt put_str) (put_pair put_str put_str)) (value_fields v)"

definition get_value :: "bytes \<Rightarrow> (value_body \<times> bytes) option" where
  "get_value bs = map_option (\<lambda>(y, r). (value_of_fields y, r))
     (get_pair get_str (get_pair (get_opt get_str) (get_pair get_str get_str)) bs)"

definition kind_code :: "record_kind \<Rightarrow> bytes" where
  "kind_code k = (case k of RECORD_KIND_UNSPECIFIED \<Rightarrow> [0] | RECORD_KIND_KV \<Rightarrow> [1]
     | RECORD_KIND_GRAPH_NODE \<Rightarrow> [2] | RECORD_KIND_GRAPH_EDGE \<Rightarrow> [3] | RECORD_KIND_VECTOR \<Rightarrow> [4])"

definition code_kind :: "bytes \<Rightarrow> record_kind" where
  "code_kind b = (if b = [1] then RECORD_KIND_KV else if b = [2] then RECORD_KIND_GRAPH_NODE
     else if b = [3] then RECORD_KIND_GRAPH_EDGE else if b = [4] then RECORD_KIND_VECTOR
     else RECORD_KIND_UNSPECIFIED)"

definition conflict_code :: "conflict_state \<Rightarrow> bytes" where
  "conflict_code k = (case k of CONFLICT_STATE_UNSPECIFIED \<Rightarrow> [0] | CONFLICT_NONE \<Rightarrow> [1]
     | CONFLICT_RESOLVED \<Rightarrow> [2] | CONFLICT_SIBLINGS_PRESENT \<Rightarrow> [3])"

definition code_conflict :: "bytes \<Rightarrow> conflict_state" where
  "code_conflict b = (if b = [1] then CONFLICT_NONE else if b = [2] then CONFLICT_RESOLVED
     else if b = [3] then CONFLICT_SIBLINGS_PRESENT else CONFLICT_STATE_UNSPECIFIED)"

definition mkind_code :: "mutation_kind \<Rightarrow> bytes" where
  "mkind_code k = (case k of MUTATION_KIND_UNSPECIFIED \<Rightarrow> [0] | MUTATION_KIND_PUT \<Rightarrow> [1]
     | MUTATION_KIND_DELETE \<Rightarrow> [2])"

definition code_mkind :: "bytes \<Rightarrow> mutation_kind" where
  "code_mkind b = (if b = [1] then MUTATION_KIND_PUT else if b = [2] then MUTATION_KIND_DELETE
     else MUTATION_KIND_UNSPECIFIED)"

lemma code_inverses [simp]:
  "code_kind (kind_code k) = k" "code_conflict (conflict_code cs) = cs" "code_mkind (mkind_code mk) = mk"
  by (auto simp: code_kind_def kind_code_def code_conflict_def conflict_code_def code_mkind_def
      mkind_code_def split: record_kind.splits conflict_state.splits mutation_kind.splits)

definition put_record :: "stored_record \<Rightarrow> bytes" where
  "put_record x = put_pair put_str (put_pair (put_opt put_value) (put_pair (put_opt put_version)
     (put_pair (put_opt (\<lambda>w. put_str (PutUint64 w))) (put_pair put_bool (put_pair (\<lambda>k. put_str (kind_code k))
     (put_pair put_str (put_pair put_str (put_pair put_str (put_pair (\<lambda>w. put_str (PutUint64 w))
     (\<lambda>k. put_str (conflict_code k)))))))))))
     (LogicalKey x, ValueOf x, VersionOf x, ExpiresAtUnixMs x, Tombstone x, Kind x, Namespace x,
      OriginClusterId x, OriginMemberId x, LocalApplyUnixMs x, ConflictState x)"

definition get_record :: "bytes \<Rightarrow> (stored_record \<times> bytes) option" where
  "get_record bs = map_option (\<lambda>((a, b, c, d, e, f, g, h, i, j, k), r).
       (\<lparr>LogicalKey = a, ValueOf = b, VersionOf = c, ExpiresAtUnixMs = d, Tombstone = e, Kind = f,
         Namespace = g, OriginClusterId = h, OriginMemberId = i, LocalApplyUnixMs = j, ConflictState = k\<rparr>, r))
     (get_pair get_str (get_pair (get_opt get_value) (get_pair (get_opt get_version)
       (get_pair (get_opt (get_with Uint64)) (get_pair get_bool (get_pair (get_with code_kind)
       (get_pair get_str (get_pair get_str (get_pair get_str (get_pair (get_with Uint64)
       (get_with code_conflict)))))))))) bs)"

definition put_pointer :: "latest_pointer \<Rightarrow> bytes" where
  "put_pointer x = put_pair (put_opt put_version) (put_pair (put_all put_version)
     (put_pair (put_opt (\<lambda>w. put_str (PutUint64 w))) (put_pair put_bool
     (put_pair (\<lambda>w. put_str (PutUint64 w)) (put_opt put_str)))))
     (lp_Winner x, lp_SiblingVersions x, lp_ExpiresAtUnixMs x, lp_Tombstone x, lp_LocalGeneration x,
      lp_InlineValue x)"

definition get_pointer :: "bytes \<Rightarrow> (latest_pointer \<times> bytes) option" where
  "get_pointer bs = map_option (\<lambda>((a, b, c, d, e, f), r).
       (\<lparr>lp_Winner = a, lp_SiblingVersions = b, lp_ExpiresAtUnixMs = c, lp_Tombstone = d,
         lp_LocalGeneration = e, lp_InlineValue = f\<rparr>, r))
     (get_pair (get_opt get_version) (get_pair (get_list get_version)
       (get_pair (get_opt (get_with Uint64)) (get_pair get_bool
       (get_pair (get_with Uint64) (get_opt get_str))))) bs)"

definition put_envelope :: "mutation_envelope \<Rightarrow> bytes" where
  "put_envelope x = put_pair put_str (put_pair (\<lambda>k. put_str (mkind_code k)) (put_pair put_str
     (put_pair (put_opt put_value) (put_pair (put_opt put_version)
     (put_pair (put_opt (\<lambda>w. put_str (PutUint64 w))) (put_pair put_bool (put_pair put_str
     (put_pair put_str (put_pair put_str (put_pair (\<lambda>w. put_str (PutUint64 w)) (put_all put_str)))))))))))
     (env_MutationId x, env_Kind x, env_LogicalKey x, env_Value x, env_Version x, env_ExpiresAtUnixMs x,
      env_Tombstone x, env_Namespace x, env_OriginClusterId x, env_OriginMemberId x, env_OriginSequence x,
      env_CausalParents x)"

definition get_envelope :: "bytes \<Rightarrow> (mutation_envelope \<times> bytes) option" where
  "get_envelope bs = map_option (\<lambda>((a, b, c, d, e, f, g, h, i, j, k, l), r).
       (\<lparr>env_MutationId = a, env_Kind = b, env_LogicalKey = c, env_Value = d, env_Version = e,
         env_ExpiresAtUnixMs = f, env_Tombstone = g, env_Namespace = h, env_OriginClusterId = i,
         env_OriginMemberId = j, env_OriginSequence = k, env_CausalParents = l\<rparr>, r))
     (get_pair get_str (get_pair (get_with code_mkind) (get_pair get_str
       (get_pair (get_opt get_value) (get_pair (get_opt get_version)
       (get_pair (get_opt (get_with Uint64)) (get_pair get_bool (get_pair get_str
       (get_pair get_str (get_pair get_str (get_pair (get_with Uint64) (get_list get_str))))))))))) bs)"

definition demo_codec :: proto_codec where
  "demo_codec = \<lparr>marshal_record = (\<lambda>r. Some (put_record r)),
     unmarshal_record = (\<lambda>b. map_option fst (get_record b)),
     marshal_pointer = (\<lambda>p. Some (put_pointer p)),
     unmarshal_pointer = (\<lambda>b. map_option fst (get_pointer b)),
     marshal_envelope = (\<lambda>m. Some (put_envelope m)),
     unmarshal_envelope = (\<lambda>b. map_option fst (get_envelope b))\<rparr>"

lemma inverts_bool: "inverts put_bool get_bool"
  by (simp add: inverts_def put_bool_def get_bool_def get_with_def)

lemma inverts_value: "inverts put_value get_value"
proof -
  have "inverts (put_pair put_str (put_pair (put_opt put_str) (put_pair put_str put_str)))
      (get_pair get_str (get_pair (get_opt get_str) (get_pair get_str get_str)))"
    by (intro inverts_pair inverts_opt inverts_prim)
  then show ?thesis
    unfolding put_value_def get_value_def by (rule inverts_iso) (rule value_fields_inverse)
qed

lemma getters_put [simp]:
  "get_str (put_str s @ r) = Some (s, r)" "get_with f (put_str s @ r) = Some (f s, r)"
  "get_bool (put_bool b @ r) = Some (b, r)" "get_opt get_value (put_opt put_value v @ r) = Some (v, r)"
  "get_opt get_version (put_opt put_version p @ r) = Some (p, r)"
  "get_opt get_str (put_opt put_str m @ r) = Some (m, r)"
  "get_list get_version (put_all put_version ps @ r) = Some (ps, r)"
  "get_list get_str (put_all put_str ss @ r) = Some (ss, r)"
  "get_opt (get_with Uint64) (put_opt (\<lambda>w. put_str (PutUint64 w)) e @ r) = Some (e, r)"
  using inverts_bool inverts_opt [OF inverts_value] inverts_opt [OF inverts_version]
    inverts_opt [OF inverts_str] inverts_list [OF inverts_version] inverts_list [OF inverts_str]
    inverts_opt [OF inverts_prim(2)]
  by (simp_all add: inverts_def get_with_def)

lemma get_put_record: "get_record (put_record r @ rest) = Some (r, rest)"
  by (simp add: get_record_def put_record_def get_pair_def put_pair_def)

lemma get_put_pointer: "get_pointer (put_pointer p @ rest) = Some (p, rest)"
  by (simp add: get_pointer_def put_pointer_def get_pair_def put_pair_def)

lemma get_put_envelope: "get_envelope (put_envelope m @ rest) = Some (m, rest)"
  by (simp add: get_envelope_def put_envelope_def get_pair_def put_pair_def)

lemma codec_ok_demo: "codec_ok demo_codec"
  using get_put_record [of _ "[]"] get_put_pointer [of _ "[]"] get_put_envelope [of _ "[]"]
  by (simp add: codec_ok_def demo_codec_def)

end
