(* ===== verification/Record_Store.thy ===== *)
theory Record_Store
  imports Local_Store Keys Envelope
begin

text \<open>
  The local versioned-record store, \<open>src/internal/recordstore/store.go\<close>: version stamping, the atomic
  \<open>Apply\<close> of a record (versioned record, latest pointer, mutation log, time-to-live index) with its
  winner cache and live-key count, the sibling write, reads, range scans, the sweeper's index queries
  and the eviction of a cached key.

  The stripe lock of a key makes each operation one atomic step, so an operation is a function on the
  store's state.  The protobuf codec is the argument \<open>c\<close>.  The observer is modelled by the list of the
  calls it received.  The encode buffer is written and sliced as in the code.
\<close>

section \<open>State\<close>

record latest_entry =
  le_ver :: version
  le_tombstone :: bool

record store =
  st_local :: mem_store
  st_clock :: clock
  st_seq :: sequencer
  st_clusterID :: bytes
  st_memberID :: bytes
  st_logSeq :: u64
  st_latestVer :: "nat \<Rightarrow> (bytes \<times> latest_entry) list"
  st_liveKeys :: i64
  st_observed :: "(stored_record \<times> bool) list option"

datatype store_error = StorageErr storage_error | MarshalErr | DecodeErr

definition numStripes :: u32 where
  "numStripes = 512"

definition maxVerCachePer :: nat where
  "maxVerCachePer = 8192"

definition SetApplyObserver :: "store \<Rightarrow> bool \<Rightarrow> store" where
  "SetApplyObserver s installed = s\<lparr>st_observed := (if installed then Some [] else None)\<rparr>"

definition NewStore :: "mem_store \<Rightarrow> bytes \<Rightarrow> bytes \<Rightarrow> clock \<Rightarrow> sequencer \<Rightarrow> store" where
  "NewStore local clusterID memberID clk sq =
     \<lparr>st_local = local, st_clock = clk, st_seq = sq, st_clusterID = clusterID, st_memberID = memberID,
      st_logSeq = 0, st_latestVer = (\<lambda>_. []), st_liveKeys = 0, st_observed = None\<rparr>"

definition LiveKeys :: "store \<Rightarrow> i64" where
  "LiveKeys s = st_liveKeys s"

text \<open>FNV-1a over the namespace and the key, in 32-bit arithmetic.\<close>

definition fnv_step :: "u32 \<Rightarrow> byte \<Rightarrow> u32" where
  "fnv_step h b = xor h (ucast b) * 16777619"

definition stripeIdx :: "bytes \<Rightarrow> bytes \<Rightarrow> u32" where
  "stripeIdx ns key = foldl fnv_step (foldl fnv_step 2166136261 ns) key mod numStripes"

section \<open>Originating a write\<close>

definition NextVersion :: "store \<Rightarrow> u64 \<Rightarrow> store \<times> version" where
  "NextVersion s wall =
     (let (clk, ts) = Clock_Now (st_clock s) wall;
          (sq, n) = Sequencer_Next (st_seq s)
      in (s\<lparr>st_clock := clk, st_seq := sq\<rparr>,
          Version (PhysicalMs ts) (Logical ts) (st_clusterID s) (st_memberID s) n))"

definition BuildRecord ::
  "store \<Rightarrow> u64 \<Rightarrow> bytes \<Rightarrow> bytes \<Rightarrow> bytes \<Rightarrow> version \<Rightarrow> bool \<Rightarrow> i64 option \<Rightarrow> store \<times> stored_record" where
  "BuildRecord s wall namespace key value v tombstone ttlMs =
     (let rec = \<lparr>LogicalKey = key, ValueOf = None, VersionOf = Version_ToProto v, ExpiresAtUnixMs = None,
            Tombstone = tombstone, Kind = RECORD_KIND_KV, Namespace = namespace,
            OriginClusterId = WriterClusterID v, OriginMemberId = WriterMemberID v,
            LocalApplyUnixMs = 0, ConflictState = CONFLICT_STATE_UNSPECIFIED\<rparr>;
          rec = (if \<not> tombstone then rec\<lparr>ValueOf := Some (ValueBody (Some (ValueBody_Inline value)))\<rparr> else rec)
      in case ttlMs of
           None \<Rightarrow> (s, rec)
         | Some ttl \<Rightarrow>
             (let (clk, ts) = Clock_Now (st_clock s) wall
              in (s\<lparr>st_clock := clk\<rparr>, rec\<lparr>ExpiresAtUnixMs := Some (PhysicalMs ts + ttl)\<rparr>)))"

section \<open>Apply\<close>

text \<open>The winner of the read-modify-write and the liveness of the prior winner.\<close>

record apply_winner =
  aw_winner :: version
  aw_tombstone :: bool
  aw_expiry :: "i64 option"
  aw_inline :: "bytes option"
  aw_priorKnown :: bool
  aw_priorTombstone :: bool

definition pick_winner ::
  "proto_codec \<Rightarrow> store \<Rightarrow> stored_record \<Rightarrow> nat \<Rightarrow> bytes \<Rightarrow> store_error + apply_winner" where
  "pick_winner c s rec si ckey =
     (let recVer = rec_ver rec;
          win = \<lparr>aw_winner = recVer, aw_tombstone = Tombstone rec, aw_expiry = ExpiresAtUnixMs rec,
                 aw_inline = None, aw_priorKnown = False, aw_priorTombstone = False\<rparr>;
          slow = (case MemStore_Get (st_local s) CFKVMeta (latestKey (Namespace rec) (LogicalKey rec)) of
              Inl e \<Rightarrow> Inl (StorageErr e)
            | Inr None \<Rightarrow> Inr win
            | Inr (Some cur) \<Rightarrow>
                (case DecodeLatestPointer c cur of
                   None \<Rightarrow> Inl DecodeErr
                 | Some lp \<Rightarrow>
                     (let win = win\<lparr>aw_priorKnown := True, aw_priorTombstone := lp_Tombstone lp\<rparr>
                      in if Version_Compare (lp_ver lp) recVer \<ge> 0
                         then Inr (win\<lparr>aw_winner := lp_ver lp, aw_tombstone := lp_Tombstone lp,
                                       aw_expiry := lp_ExpiresAtUnixMs lp, aw_inline := lp_InlineValue lp\<rparr>)
                         else Inr win)))
      in case map_of (st_latestVer s si) ckey of
           Some cached \<Rightarrow>
             if Version_Compare recVer (le_ver cached) > 0
             then Inr (win\<lparr>aw_priorKnown := True, aw_priorTombstone := le_tombstone cached\<rparr>)
             else slow
         | None \<Rightarrow> slow)"

definition apply_pointer :: "stored_record \<Rightarrow> apply_winner \<Rightarrow> latest_pointer" where
  "apply_pointer rec w =
     \<lparr>lp_Winner = Version_ToProto (aw_winner w), lp_SiblingVersions = [], lp_ExpiresAtUnixMs = aw_expiry w,
      lp_Tombstone = aw_tombstone w, lp_LocalGeneration = 0,
      lp_InlineValue = (if Version_Equal (aw_winner w) (rec_ver rec) then InlineValue rec else aw_inline w)\<rparr>"

definition apply_envelope :: "stored_record \<Rightarrow> mutation_kind \<Rightarrow> mutation_envelope" where
  "apply_envelope rec kind =
     \<lparr>env_MutationId = Version_MutationID (rec_ver rec), env_Kind = kind, env_LogicalKey = LogicalKey rec,
      env_Value = ValueOf rec, env_Version = VersionOf rec, env_ExpiresAtUnixMs = ExpiresAtUnixMs rec,
      env_Tombstone = Tombstone rec, env_Namespace = Namespace rec, env_OriginClusterId = OriginClusterId rec,
      env_OriginMemberId = OriginMemberId rec, env_OriginSequence = WriterSequence (rec_ver rec),
      env_CausalParents = []\<rparr>"

text \<open>The three messages in one buffer, then sliced at the recorded offsets.\<close>

definition encode_sections ::
  "proto_codec \<Rightarrow> stored_record \<Rightarrow> latest_pointer \<Rightarrow> mutation_envelope \<Rightarrow> (bytes \<times> bytes \<times> bytes) option" where
  "encode_sections c rec lp env =
     (case AppendStoredRecord c [] rec of None \<Rightarrow> None
      | Some buf \<Rightarrow> (let off1 = length buf in
      case AppendLatestPointer c buf lp of None \<Rightarrow> None
      | Some buf \<Rightarrow> (let off2 = length buf in
      case AppendMutationEnvelope c buf env of None \<Rightarrow> None
      | Some buf \<Rightarrow> (let off3 = length buf in
          Some (take off1 buf, take (off2 - off1) (drop off1 buf), take (off3 - off2) (drop off2 buf))))))"

definition apply_ops ::
  "stored_record \<Rightarrow> apply_winner \<Rightarrow> u64 \<Rightarrow> bytes \<times> bytes \<times> bytes \<Rightarrow> store_op list" where
  "apply_ops rec w seq secs =
     (let ns = Namespace rec; key = LogicalKey rec; recVer = rec_ver rec;
          (recBytes, lpBytes, envBytes) = secs;
          recExpiry = (case ExpiresAtUnixMs rec of Some e \<Rightarrow> if \<not> Tombstone rec then e else 0 | None \<Rightarrow> 0);
          lpExpiry = (case aw_expiry w of Some e \<Rightarrow> if \<not> aw_tombstone w then e else 0 | None \<Rightarrow> 0)
      in [put_exp_op CFKVData (dataKey ns key recVer) recBytes recExpiry,
          put_exp_op CFKVMeta (latestKey ns key) lpBytes lpExpiry,
          put_op CFReplLog (ReplLogKey ns seq) envBytes] @
         (case ExpiresAtUnixMs rec of
            Some e \<Rightarrow> if \<not> Tombstone rec then [put_op CFKVMeta (ttlKey e ns key) (encodeVersion recVer)] else []
          | None \<Rightarrow> []))"

text \<open>After the commit: the live-key count, the bounded winner cache, the observer.\<close>

definition apply_commit ::
  "store \<Rightarrow> stored_record \<Rightarrow> apply_winner \<Rightarrow> nat \<Rightarrow> bytes \<Rightarrow> store" where
  "apply_commit s rec w si ckey =
     (let beforeLive = aw_priorKnown w \<and> \<not> aw_priorTombstone w;
          afterLive = (\<not> aw_tombstone w);
          s = (if afterLive \<and> \<not> beforeLive then s\<lparr>st_liveKeys := st_liveKeys s + 1\<rparr>
               else if beforeLive \<and> \<not> afterLive then s\<lparr>st_liveKeys := st_liveKeys s - 1\<rparr> else s);
          entry = \<lparr>le_ver = aw_winner w, le_tombstone = aw_tombstone w\<rparr>;
          m = st_latestVer s si;
          m' = (if length m < maxVerCachePer then AList.update ckey entry m else [(ckey, entry)]);
          s = s\<lparr>st_latestVer := (st_latestVer s)(si := m')\<rparr>
      in case st_observed s of
           None \<Rightarrow> s
         | Some calls \<Rightarrow>
             s\<lparr>st_observed := Some (calls @ [(rec, Version_Compare (aw_winner w) (rec_ver rec) = 0)])\<rparr>)"

definition Apply ::
  "proto_codec \<Rightarrow> store \<Rightarrow> stored_record \<Rightarrow> mutation_kind \<Rightarrow> store \<times> (store_error + version)" where
  "Apply c s rec kind =
     (let ns = Namespace rec; key = LogicalKey rec;
          si = unat (stripeIdx ns key);
          ckey = ns @ [0] @ key
      in case pick_winner c s rec si ckey of
           Inl e \<Rightarrow> (s, Inl e)
         | Inr w \<Rightarrow>
             (case encode_sections c rec (apply_pointer rec w) (apply_envelope rec kind) of
                None \<Rightarrow> (s, Inl MarshalErr)
              | Some secs \<Rightarrow>
                  (let seq = st_logSeq s + 1;
                       s = s\<lparr>st_logSeq := seq\<rparr>
                   in case MemStore_BatchRC (st_local s) (apply_ops rec w seq secs) of
                        (l, Some e) \<Rightarrow> (s\<lparr>st_local := l\<rparr>, Inl (StorageErr e))
                      | (l, None) \<Rightarrow>
                          (apply_commit (s\<lparr>st_local := l\<rparr>) rec w si ckey, Inr (aw_winner w)))))"

section \<open>Reads\<close>

record get_outcome =
  go_Found :: bool
  go_Value :: bytes
  go_Version :: version
  go_Tombstone :: bool
  go_ConflictNone :: bool
  go_ExpiresAtMs :: "i64 option"

definition no_outcome :: get_outcome where
  "no_outcome = \<lparr>go_Found = False, go_Value = [], go_Version = zero_version, go_Tombstone = False,
     go_ConflictNone = False, go_ExpiresAtMs = None\<rparr>"

definition Store_Get :: "proto_codec \<Rightarrow> store \<Rightarrow> bytes \<Rightarrow> bytes \<Rightarrow> get_outcome \<times> store_error option" where
  "Store_Get c s namespace key =
     (case MemStore_Get (st_local s) CFKVMeta (latestKey namespace key) of
        Inl e \<Rightarrow> (no_outcome, Some (StorageErr e))
      | Inr None \<Rightarrow> (no_outcome, None)
      | Inr (Some cur) \<Rightarrow>
          (case DecodeLatestPointer c cur of
             None \<Rightarrow> (no_outcome, Some DecodeErr)
           | Some lp \<Rightarrow>
               (let win = lp_ver lp;
                    out = no_outcome\<lparr>go_Version := win, go_Tombstone := lp_Tombstone lp,
                      go_ConflictNone := (lp_SiblingVersions lp = []), go_ExpiresAtMs := lp_ExpiresAtUnixMs lp\<rparr>
                in if lp_Tombstone lp then (out, None)
                   else case lp_InlineValue lp of
                     Some v \<Rightarrow> (out\<lparr>go_Found := True, go_Value := v\<rparr>, None)
                   | None \<Rightarrow>
                       (case MemStore_Get (st_local s) CFKVData (dataKey namespace key win) of
                          Inl e \<Rightarrow> (out, Some (StorageErr e))
                        | Inr None \<Rightarrow> (out, None)
                        | Inr (Some recBytes) \<Rightarrow>
                            (case DecodeStoredRecord c recBytes of
                               None \<Rightarrow> (out, Some DecodeErr)
                             | Some rec \<Rightarrow>
                                 (out\<lparr>go_Found := True, go_Value := GetInline (ValueOf rec)\<rparr>, None))))))"

definition GetRecord ::
  "proto_codec \<Rightarrow> store \<Rightarrow> bytes \<Rightarrow> bytes \<Rightarrow> store_error + stored_record option" where
  "GetRecord c s namespace key =
     (case MemStore_Get (st_local s) CFKVMeta (latestKey namespace key) of
        Inl e \<Rightarrow> Inl (StorageErr e)
      | Inr None \<Rightarrow> Inr None
      | Inr (Some cur) \<Rightarrow>
          (case DecodeLatestPointer c cur of
             None \<Rightarrow> Inl DecodeErr
           | Some lp \<Rightarrow>
               (case MemStore_Get (st_local s) CFKVData (dataKey namespace key (lp_ver lp)) of
                  Inl e \<Rightarrow> Inl (StorageErr e)
                | Inr None \<Rightarrow> Inr None
                | Inr (Some recBytes) \<Rightarrow>
                    (case DecodeStoredRecord c recBytes of
                       None \<Rightarrow> Inl DecodeErr
                     | Some rec \<Rightarrow> Inr (Some rec)))))"

definition ExpiresAt :: "proto_codec \<Rightarrow> store \<Rightarrow> bytes \<Rightarrow> bytes \<Rightarrow> i64 option" where
  "ExpiresAt c s namespace key =
     (case MemStore_Get (st_local s) CFKVMeta (latestKey namespace key) of
        Inr (Some cur) \<Rightarrow>
          (case DecodeLatestPointer c cur of None \<Rightarrow> None | Some lp \<Rightarrow> lp_ExpiresAtUnixMs lp)
      | _ \<Rightarrow> None)"

section \<open>Range scans\<close>

record scan_row =
  sr_Key :: bytes
  sr_Value :: bytes
  sr_Version :: version
  sr_ExpiresAtMs :: "i64 option"

text \<open>The row of one latest pointer, \<open>None\<close> when the pointer is skipped.\<close>

definition scan_row_of :: "proto_codec \<Rightarrow> store \<Rightarrow> bytes \<Rightarrow> i64 \<Rightarrow> bytes \<times> bytes \<Rightarrow> scan_row option" where
  "scan_row_of c s namespace nowMs kv =
     (case DecodeLatestPointer c (snd kv) of
        None \<Rightarrow> None
      | Some lp \<Rightarrow>
          (let userKey = drop (length (namespacePrefix namespace)) (fst kv);
               win = lp_ver lp;
               hidden = (lp_Tombstone lp \<or>
                 (case lp_ExpiresAtUnixMs lp of Some e \<Rightarrow> sint e \<le> sint nowMs | None \<Rightarrow> False));
               value = (case lp_InlineValue lp of
                   Some v \<Rightarrow> Some v
                 | None \<Rightarrow>
                     (case MemStore_Get (st_local s) CFKVData (dataKey namespace userKey win) of
                        Inr (Some recBytes) \<Rightarrow>
                          (case DecodeStoredRecord c recBytes of
                             Some rec \<Rightarrow> Some (GetInline (ValueOf rec)) | None \<Rightarrow> None)
                      | _ \<Rightarrow> None))
           in if hidden then None
              else map_option (\<lambda>v. \<lparr>sr_Key = userKey, sr_Value = v, sr_Version = win,
                                     sr_ExpiresAtMs = lp_ExpiresAtUnixMs lp\<rparr>) value))"

fun scan_range_loop ::
  "proto_codec \<Rightarrow> store \<Rightarrow> bytes \<Rightarrow> int \<Rightarrow> i64 \<Rightarrow> rows \<Rightarrow> scan_row list \<Rightarrow> scan_row list" where
  "scan_range_loop c s namespace limit nowMs [] out = out"
| "scan_range_loop c s namespace limit nowMs (kv # kvs) out =
     (case scan_row_of c s namespace nowMs kv of
        None \<Rightarrow> scan_range_loop c s namespace limit nowMs kvs out
      | Some row \<Rightarrow>
          (let out = out @ [row] in
           if limit > 0 \<and> int (length out) \<ge> limit then out
           else scan_range_loop c s namespace limit nowMs kvs out))"

definition scan_bounds :: "bytes \<Rightarrow> bytes option \<Rightarrow> bytes option \<Rightarrow> bytes \<times> bytes option" where
  "scan_bounds namespace start endk =
     ((case start of None \<Rightarrow> namespacePrefix namespace | Some k \<Rightarrow> latestKey namespace k),
      (case endk of None \<Rightarrow> prefixEnd (namespacePrefix namespace) | Some k \<Rightarrow> Some (latestKey namespace k)))"

definition ScanRange ::
  "proto_codec \<Rightarrow> store \<Rightarrow> bytes \<Rightarrow> bytes option \<Rightarrow> bytes option \<Rightarrow> int \<Rightarrow> i64 \<Rightarrow> store_error + scan_row list" where
  "ScanRange c s namespace start endk limit nowMs =
     (let (lo, hi) = scan_bounds namespace start endk in
      case MemStore_Scan (st_local s) CFKVMeta (Some lo) hi 0 of
        Inl e \<Rightarrow> Inl (StorageErr e)
      | Inr rows \<Rightarrow> Inr (scan_range_loop c s namespace limit nowMs rows []))"

text \<open>The winning record behind one latest pointer.\<close>

definition scan_record_of :: "proto_codec \<Rightarrow> store \<Rightarrow> bytes \<Rightarrow> bytes \<times> bytes \<Rightarrow> stored_record option" where
  "scan_record_of c s namespace kv =
     (case DecodeLatestPointer c (snd kv) of
        None \<Rightarrow> None
      | Some lp \<Rightarrow>
          (let userKey = drop (length (namespacePrefix namespace)) (fst kv) in
           case MemStore_Get (st_local s) CFKVData (dataKey namespace userKey (lp_ver lp)) of
             Inr (Some rb) \<Rightarrow> DecodeStoredRecord c rb
           | _ \<Rightarrow> None))"

definition ScanRecords ::
  "proto_codec \<Rightarrow> store \<Rightarrow> bytes \<Rightarrow> bytes option \<Rightarrow> bytes option \<Rightarrow> store_error + stored_record list" where
  "ScanRecords c s namespace start endk =
     (let (lo, hi) = scan_bounds namespace start endk in
      case MemStore_Scan (st_local s) CFKVMeta (Some lo) hi 0 of
        Inl e \<Rightarrow> Inl (StorageErr e)
      | Inr rows \<Rightarrow> Inr (List.map_filter (scan_record_of c s namespace) rows))"

definition ScanRecordsFrom ::
  "proto_codec \<Rightarrow> store \<Rightarrow> bytes \<Rightarrow> bytes option \<Rightarrow> int \<Rightarrow>
     store_error + (stored_record list \<times> bytes option)" where
  "ScanRecordsFrom c s namespace start limit =
     (let (lo, hi) = scan_bounds namespace start None in
      case MemStore_Scan (st_local s) CFKVMeta (Some lo) hi limit of
        Inl e \<Rightarrow> Inl (StorageErr e)
      | Inr rows \<Rightarrow>
          (let recs = List.map_filter (scan_record_of c s namespace) rows;
               count = length rows
           in if limit > 0 \<and> int count \<ge> limit \<and> rows \<noteq> []
              then Inr (recs, Some (drop (length (namespacePrefix namespace)) (fst (last rows)) @ [0]))
              else Inr (recs, None)))"

section \<open>The time-to-live index\<close>

record expired_entry =
  ee_Namespace :: bytes
  ee_Key :: bytes
  ee_IndexKey :: bytes

fun expired_loop :: "int \<Rightarrow> rows \<Rightarrow> expired_entry list \<Rightarrow> expired_entry list" where
  "expired_loop limit [] out = out"
| "expired_loop limit (kv # kvs) out =
     (case parseTTLKey (fst kv) of
        None \<Rightarrow> expired_loop limit kvs out
      | Some (ns, key) \<Rightarrow>
          (let out = out @ [\<lparr>ee_Namespace = ns, ee_Key = key, ee_IndexKey = fst kv\<rparr>] in
           if limit > 0 \<and> int (length out) \<ge> limit then out else expired_loop limit kvs out))"

definition ExpiredEntries :: "store \<Rightarrow> i64 \<Rightarrow> int \<Rightarrow> store_error + expired_entry list" where
  "ExpiredEntries s nowMs limit =
     (case MemStore_Scan (st_local s) CFKVMeta (Some ttlLowBound) (Some (ttlScanBound nowMs)) 0 of
        Inl e \<Rightarrow> Inl (StorageErr e)
      | Inr rows \<Rightarrow> Inr (expired_loop limit rows []))"

definition ClearTTLIndex :: "store \<Rightarrow> bytes \<Rightarrow> store \<times> store_error option" where
  "ClearTTLIndex s indexKey =
     (case MemStore_Batch (st_local s) [del_op CFKVMeta indexKey] of
        (l, e) \<Rightarrow> (s\<lparr>st_local := l\<rparr>, map_option StorageErr e))"

section \<open>Siblings and eviction\<close>

text \<open>A \<open>nil\<close> element of a repeated message field is marshalled as the empty message.\<close>

definition pb_elem :: "version_pb option \<Rightarrow> version_pb" where
  "pb_elem p = (case p of Some v \<Rightarrow> v
     | None \<Rightarrow> \<lparr>pb_HlcPhysicalMs = 0, pb_HlcLogical = 0, pb_WriterClusterId = [], pb_WriterMemberId = [],
         pb_WriterSequence = 0, pb_VectorClock = []\<rparr>)"

fun sibling_ops ::
  "proto_codec \<Rightarrow> bytes \<Rightarrow> bytes \<Rightarrow> stored_record \<Rightarrow> stored_record list \<Rightarrow> (store_op list \<times> version_pb list) option" where
  "sibling_ops c ns key winner [] = Some ([], [])"
| "sibling_ops c ns key winner (r # rs) =
     (case EncodeStoredRecord c r of
        None \<Rightarrow> None
      | Some b \<Rightarrow>
          (case sibling_ops c ns key winner rs of
             None \<Rightarrow> None
           | Some (ops, sibs) \<Rightarrow>
               Some (put_op CFKVData (dataKey ns key (rec_ver r)) b # ops,
                 if \<not> Version_Equal (rec_ver r) (rec_ver winner) then pb_elem (VersionOf r) # sibs else sibs)))"

definition ApplySiblings ::
  "proto_codec \<Rightarrow> store \<Rightarrow> bytes \<Rightarrow> bytes \<Rightarrow> stored_record list \<Rightarrow> store \<times> store_error option" where
  "ApplySiblings c s namespace key siblings =
     (case siblings of
        [] \<Rightarrow> (s, None)
      | r # rs \<Rightarrow>
          (let si = unat (stripeIdx namespace key);
               s = s\<lparr>st_latestVer := (st_latestVer s)(si := AList.delete (namespace @ [0] @ key) (st_latestVer s si))\<rparr>;
               winner = rebuild_winner r rs
           in case sibling_ops c namespace key winner siblings of
                None \<Rightarrow> (s, Some MarshalErr)
              | Some (ops, sibs) \<Rightarrow>
                  (case EncodeLatestPointer c \<lparr>lp_Winner = VersionOf winner, lp_SiblingVersions = sibs,
                          lp_ExpiresAtUnixMs = None, lp_Tombstone = Tombstone winner, lp_LocalGeneration = 0,
                          lp_InlineValue = InlineValue winner\<rparr> of
                     None \<Rightarrow> (s, Some MarshalErr)
                   | Some lpBytes \<Rightarrow>
                       (case MemStore_BatchRC (st_local s) (ops @ [put_op CFKVMeta (latestKey namespace key) lpBytes]) of
                          (l, e) \<Rightarrow> (s\<lparr>st_local := l\<rparr>, map_option StorageErr e)))))"

definition Forget :: "store \<Rightarrow> bytes \<Rightarrow> bytes \<Rightarrow> store \<times> store_error option" where
  "Forget s namespace key =
     (case MemStore_Scan (st_local s) CFKVData (Some (dataKeyPrefix namespace key))
             (prefixEnd (dataKeyPrefix namespace key)) 0 of
        Inl e \<Rightarrow> (s, Some (StorageErr e))
      | Inr rows \<Rightarrow>
          (case MemStore_Batch (st_local s)
                  (del_op CFKVMeta (latestKey namespace key) # map (\<lambda>kv. del_op CFKVData (fst kv)) rows) of
             (l, e) \<Rightarrow> (s\<lparr>st_local := l\<rparr>, map_option StorageErr e)))"

end
