(* ===== verification/Record_Refine.thy ===== *)
theory Record_Refine
  imports Record_Store
begin

text \<open>
  What the record store represents: \<open>repr c R s\<close> relates a state \<open>s\<close> to the set \<open>R\<close> of the records applied
  to it.  Versioned records are stored under their own keys, the latest pointer of a key is that of its
  winner (the record with the highest version), the winner cache and the live-key count agree with
  them, and every expiry is indexed.  \<open>Apply\<close> refines insertion into \<open>R\<close> (lemma \<open>Apply_repr\<close>), and the reads
  are functions of \<open>R\<close>.
\<close>

section \<open>The abstract state: the set of applied records\<close>

text \<open>A namespace that the key layout and the winner cache can tell from every other: its length fits
  one byte below \<open>0x80\<close> and it holds no zero byte.\<close>

definition ns_ok :: "bytes \<Rightarrow> bool" where
  "ns_ok ns \<longleftrightarrow> short_ns ns \<and> 0 \<notin> set ns"

definition same_key :: "stored_record \<Rightarrow> stored_record \<Rightarrow> bool" where
  "same_key r r' \<longleftrightarrow> Namespace r = Namespace r' \<and> LogicalKey r = LogicalKey r'"

text \<open>One version names one record of a key.\<close>

definition one_version :: "stored_record set \<Rightarrow> bool" where
  "one_version R \<longleftrightarrow> (\<forall>r \<in> R. \<forall>r' \<in> R. same_key r r' \<and> rec_ver r = rec_ver r' \<longrightarrow> r = r')"

definition winner_of :: "stored_record set \<Rightarrow> stored_record \<Rightarrow> bool" where
  "winner_of R r \<longleftrightarrow> r \<in> R \<and> (\<forall>r' \<in> R. same_key r' r \<longrightarrow> rec_ver r' \<le> rec_ver r)"

text \<open>The latest pointer of a winner.\<close>

definition pointer_of :: "stored_record \<Rightarrow> latest_pointer" where
  "pointer_of r = \<lparr>lp_Winner = Version_ToProto (rec_ver r), lp_SiblingVersions = [],
     lp_ExpiresAtUnixMs = ExpiresAtUnixMs r, lp_Tombstone = Tombstone r, lp_LocalGeneration = 0,
     lp_InlineValue = InlineValue r\<rparr>"

text \<open>The codec accepts what \<open>Apply\<close> writes for a record.\<close>

definition encodable :: "proto_codec \<Rightarrow> stored_record \<Rightarrow> bool" where
  "encodable c r \<longleftrightarrow> marshal_record c r \<noteq> None \<and> marshal_pointer c (pointer_of r) \<noteq> None \<and>
     (\<forall>kind. marshal_envelope c (apply_envelope r kind) \<noteq> None)"

definition live_keys :: "stored_record set \<Rightarrow> (bytes \<times> bytes) set" where
  "live_keys R = {(Namespace r, LogicalKey r) | r. winner_of R r \<and> \<not> Tombstone r}"

definition wf_records :: "proto_codec \<Rightarrow> stored_record set \<Rightarrow> bool" where
  "wf_records c R \<longleftrightarrow> finite R \<and> one_version R \<and> (\<forall>r \<in> R. ns_ok (Namespace r) \<and> encodable c r)"

section \<open>The representation\<close>

definition data_repr :: "proto_codec \<Rightarrow> stored_record set \<Rightarrow> kv_view \<Rightarrow> bool" where
  "data_repr c R v \<longleftrightarrow>
     (\<forall>r \<in> R. v CFKVData (dataKey (Namespace r) (LogicalKey r) (rec_ver r)) = marshal_record c r) \<and>
     (\<forall>ns k ver b. v CFKVData (dataKey ns k ver) = Some b \<longrightarrow>
        (\<exists>r \<in> R. Namespace r = ns \<and> LogicalKey r = k \<and> rec_ver r = ver))"

definition pointer_repr :: "proto_codec \<Rightarrow> stored_record set \<Rightarrow> kv_view \<Rightarrow> bool" where
  "pointer_repr c R v \<longleftrightarrow>
     (\<forall>r. winner_of R r \<longrightarrow> v CFKVMeta (latestKey (Namespace r) (LogicalKey r)) = marshal_pointer c (pointer_of r)) \<and>
     (\<forall>ns k b. ns_ok ns \<and> v CFKVMeta (latestKey ns k) = Some b \<longrightarrow>
        (\<exists>r \<in> R. Namespace r = ns \<and> LogicalKey r = k))"

definition index_repr :: "stored_record set \<Rightarrow> kv_view \<Rightarrow> bool" where
  "index_repr R v \<longleftrightarrow> (\<forall>r \<in> R. \<forall>e. ExpiresAtUnixMs r = Some e \<and> \<not> Tombstone r \<longrightarrow>
     v CFKVMeta (ttlKey e (Namespace r) (LogicalKey r)) \<noteq> None)"

definition cache_repr :: "stored_record set \<Rightarrow> (nat \<Rightarrow> (bytes \<times> latest_entry) list) \<Rightarrow> bool" where
  "cache_repr R cache \<longleftrightarrow> (\<forall>ns k e. ns_ok ns \<and>
     map_of (cache (unat (stripeIdx ns k))) (ns @ [0] @ k) = Some e \<longrightarrow>
     (\<exists>r. winner_of R r \<and> Namespace r = ns \<and> LogicalKey r = k \<and>
        le_ver e = rec_ver r \<and> le_tombstone e = Tombstone r))"

definition repr :: "proto_codec \<Rightarrow> stored_record set \<Rightarrow> store \<Rightarrow> bool" where
  "repr c R s \<longleftrightarrow> mem_invar (st_local s) \<and> data_repr c R (mem_view (st_local s)) \<and>
     pointer_repr c R (mem_view (st_local s)) \<and> index_repr R (mem_view (st_local s)) \<and>
     cache_repr R (st_latestVer s) \<and> st_liveKeys s = of_nat (card (live_keys R))"

section \<open>Winners\<close>

lemma same_key_refl [simp]: "same_key r r"
  by (simp add: same_key_def)

lemma same_key_sym: "same_key r r' \<longleftrightarrow> same_key r' r"
  by (auto simp: same_key_def)

lemma same_key_trans: "same_key r r' \<Longrightarrow> same_key r' r'' \<Longrightarrow> same_key r r''"
  by (simp add: same_key_def)

lemma winner_exists:
  assumes "finite R" "r \<in> R"
  shows "\<exists>w. winner_of R w \<and> same_key w r"
proof -
  let ?K = "{r' \<in> R. same_key r' r}"
  have "finite ?K" "?K \<noteq> {}" using assms by auto
  then have "Max (rec_ver ` ?K) \<in> rec_ver ` ?K" by simp
  then obtain w where w: "w \<in> ?K" "rec_ver w = Max (rec_ver ` ?K)" by force
  then have "\<forall>r' \<in> ?K. rec_ver r' \<le> rec_ver w" using \<open>finite ?K\<close> by auto
  then have "winner_of R w" unfolding winner_of_def using same_key_trans w by blast
  then show ?thesis using w by blast
qed

lemma winner_unique:
  "\<lbrakk>one_version R; winner_of R w; winner_of R w'; same_key w w'\<rbrakk> \<Longrightarrow> w = w'"
  unfolding winner_of_def one_version_def
  by (meson order_antisym same_key_sym)

lemma winner_insert_other:
  "\<not> same_key w r \<Longrightarrow> winner_of (insert r R) w \<longleftrightarrow> winner_of R w"
  by (auto simp: winner_of_def same_key_sym)

lemma winner_insert_new:
  assumes "one_version (insert r R)"
    and "\<And>w. winner_of R w \<Longrightarrow> same_key w r \<Longrightarrow> rec_ver w \<le> rec_ver r" and "finite R"
  shows "winner_of (insert r R) r"
  unfolding winner_of_def
proof (intro conjI ballI impI)
  fix x assume x: "x \<in> insert r R" "same_key x r"
  show "rec_ver x \<le> rec_ver r"
  proof (cases "x \<in> R")
    case True
    then obtain w where "winner_of R w" "same_key w x" using winner_exists [OF assms(3)] by blast
    then show ?thesis
      using assms(2) [of w] x True same_key_trans same_key_sym
      by (metis order_trans winner_of_def)
  qed (use x in auto)
qed simp

lemma winner_insert_old:
  assumes "winner_of R w" "same_key w r" "rec_ver r \<le> rec_ver w"
  shows "winner_of (insert r R) w"
  using assms by (auto simp: winner_of_def)

lemma cache_key_inject:
  "ns_ok ns \<Longrightarrow> ns_ok ns' \<Longrightarrow> ns @ [0] @ k = ns' @ [0] @ k' \<longleftrightarrow> ns = ns' \<and> k = k'"
  by (auto simp: ns_ok_def append_eq_append_conv2 append_eq_Cons_conv Cons_eq_append_conv)

section \<open>The steps of Apply\<close>

lemma lp_ver_pointer_of [simp]: "lp_ver (pointer_of r) = rec_ver r"
  by (simp add: lp_ver_def pointer_of_def FromProto_ToProto)

lemma pointer_of_sel [simp]:
  "lp_Tombstone (pointer_of r) = Tombstone r" "lp_ExpiresAtUnixMs (pointer_of r) = ExpiresAtUnixMs r"
  "lp_InlineValue (pointer_of r) = InlineValue r" "lp_SiblingVersions (pointer_of r) = []"
  by (simp_all add: pointer_of_def)

lemma encode_sections_Some:
  assumes "marshal_record c r = Some a" "marshal_pointer c p = Some b" "marshal_envelope c m = Some d"
  shows "encode_sections c r p m = Some (a, b, d)"
  using assms
  by (simp add: encode_sections_def AppendStoredRecord_def AppendLatestPointer_def
      AppendMutationEnvelope_def Let_def)

lemma wf_records_insertD:
  assumes "wf_records c (insert r R)"
  shows "finite R" "one_version (insert r R)" "one_version R" "ns_ok (Namespace r)" "encodable c r"
    "\<forall>x \<in> R. ns_ok (Namespace x) \<and> encodable c x"
  using assms by (auto simp: wf_records_def one_version_def)

lemma live_keys_iff:
  assumes "one_version R" "winner_of R w"
  shows "(Namespace w, LogicalKey w) \<in> live_keys R \<longleftrightarrow> \<not> Tombstone w"
  using assms winner_unique [OF assms] by (auto simp: live_keys_def same_key_def)

lemma live_keys_absent:
  "(\<And>w. w \<in> R \<Longrightarrow> \<not> same_key w r) \<Longrightarrow> (Namespace r, LogicalKey r) \<notin> live_keys R"
  unfolding live_keys_def same_key_def winner_of_def by force

lemma repr_pointerD:
  "\<lbrakk>repr c R s; ns_ok ns; mem_view (st_local s) CFKVMeta (latestKey ns k) = Some b\<rbrakk> \<Longrightarrow>
    \<exists>r \<in> R. Namespace r = ns \<and> LogicalKey r = k"
  unfolding repr_def pointer_repr_def by blast

lemma repr_cacheD:
  "\<lbrakk>repr c R s; ns_ok ns; map_of (st_latestVer s (unat (stripeIdx ns k))) (ns @ [0] @ k) = Some e\<rbrakk> \<Longrightarrow>
    \<exists>r. winner_of R r \<and> Namespace r = ns \<and> LogicalKey r = k \<and> le_ver e = rec_ver r \<and> le_tombstone e = Tombstone r"
  unfolding repr_def cache_repr_def by blast

text \<open>What the read-modify-write computes: the winner among the record and those applied before, and
  whether the key was live.\<close>

definition picks :: "stored_record set \<Rightarrow> stored_record \<Rightarrow> apply_winner \<Rightarrow> stored_record \<Rightarrow> bool" where
  "picks R r W x \<longleftrightarrow> winner_of (insert r R) x \<and> same_key x r \<and> aw_winner W = rec_ver x \<and>
     aw_tombstone W = Tombstone x \<and> aw_expiry W = ExpiresAtUnixMs x \<and> apply_pointer r W = pointer_of x \<and>
     (aw_priorKnown W \<and> \<not> aw_priorTombstone W \<longleftrightarrow> (Namespace r, LogicalKey r) \<in> live_keys R)"

lemma picks_self:
  assumes "aw_winner W = rec_ver r" "aw_tombstone W = Tombstone r" "aw_expiry W = ExpiresAtUnixMs r"
    and "winner_of (insert r R) r"
    and "aw_priorKnown W \<and> \<not> aw_priorTombstone W \<longleftrightarrow> (Namespace r, LogicalKey r) \<in> live_keys R"
  shows "picks R r W r"
  using assms by (simp add: picks_def apply_pointer_def pointer_of_def)

lemma pointer_view:
  assumes "repr c R s" "winner_of R w" "wf_records c R"
  shows "MemStore_Get (st_local s) CFKVMeta (latestKey (Namespace w) (LogicalKey w)) =
    Inr (marshal_pointer c (pointer_of w))"
proof -
  have "mem_view (st_local s) CFKVMeta (latestKey (Namespace w) (LogicalKey w)) =
      marshal_pointer c (pointer_of w)"
    using assms by (simp add: repr_def pointer_repr_def)
  then show ?thesis using assms by (simp add: repr_def mem.get_view cf_valid_def)
qed

lemma pointer_absent:
  assumes "repr c R s" "ns_ok (Namespace r)" "\<And>w. w \<in> R \<Longrightarrow> \<not> same_key w r"
  shows "MemStore_Get (st_local s) CFKVMeta (latestKey (Namespace r) (LogicalKey r)) = Inr None"
proof -
  have "mem_view (st_local s) CFKVMeta (latestKey (Namespace r) (LogicalKey r)) = None"
    using repr_pointerD [OF assms(1,2)] assms(3) by (fastforce simp: same_key_def)
  then show ?thesis using assms(1) by (simp add: repr_def mem.get_view cf_valid_def)
qed

lemma pick_winner_read:
  assumes get: "MemStore_Get (st_local s) CFKVMeta (latestKey (Namespace r) (LogicalKey r)) = Inr (Some b)"
    and dec: "DecodeLatestPointer c b = Some lp"
    and cached: "\<And>e. map_of (st_latestVer s si) ck = Some e \<Longrightarrow>
      le_ver e = lp_ver lp \<and> le_tombstone e = lp_Tombstone lp"
  shows "pick_winner c s r si ck = Inr
    (if lp_ver lp < rec_ver r
     then \<lparr>aw_winner = rec_ver r, aw_tombstone = Tombstone r, aw_expiry = ExpiresAtUnixMs r,
       aw_inline = None, aw_priorKnown = True, aw_priorTombstone = lp_Tombstone lp\<rparr>
     else \<lparr>aw_winner = lp_ver lp, aw_tombstone = lp_Tombstone lp, aw_expiry = lp_ExpiresAtUnixMs lp,
       aw_inline = lp_InlineValue lp, aw_priorKnown = True, aw_priorTombstone = lp_Tombstone lp\<rparr>)"
proof (cases "map_of (st_latestVer s si) ck")
  case None
  then show ?thesis using get dec by (auto simp: pick_winner_def Let_def)
next
  case (Some e)
  then show ?thesis using get dec cached [OF Some] by (auto simp: pick_winner_def Let_def)
qed

lemma pick_winner_picks:
  assumes repr: "repr c R s" and c: "codec_ok c" and wf: "wf_records c (insert r R)"
  shows "\<exists>W x. pick_winner c s r (unat (stripeIdx (Namespace r) (LogicalKey r)))
      (Namespace r @ [0] @ LogicalKey r) = Inr W \<and> picks R r W x"
proof (cases "\<exists>w. winner_of R w \<and> same_key w r")
  case False
  note wfs = wf_records_insertD [OF wf]
  have none: "\<not> same_key w r" if "w \<in> R" for w
    using winner_exists [OF wfs(1) that] False that same_key_trans same_key_sym by metis
  have "map_of (st_latestVer s (unat (stripeIdx (Namespace r) (LogicalKey r))))
      (Namespace r @ [0] @ LogicalKey r) = None"
    using repr_cacheD [OF repr wfs(4), of "LogicalKey r"] False unfolding same_key_def
    by (meson not_None_eq)
  moreover have "winner_of (insert r R) r" using none by (auto simp: winner_of_def)
  ultimately show ?thesis
    using pointer_absent [OF repr wfs(4) none] live_keys_absent [of R r] none
    by (auto simp: pick_winner_def Let_def intro!: exI [of _ r] picks_self)
next
  case True
  then obtain w where w: "winner_of R w" "same_key w r" by blast
  note wfs = wf_records_insertD [OF wf]
  have wfR: "wf_records c R" using wfs by (simp add: wf_records_def)
  have key: "Namespace r = Namespace w" "LogicalKey r = LogicalKey w" using w by (simp_all add: same_key_def)
  have live: "(Namespace r, LogicalKey r) \<in> live_keys R \<longleftrightarrow> \<not> Tombstone w"
    using live_keys_iff [OF wfs(3) w(1)] key by simp
  have cached: "le_ver e = rec_ver w \<and> le_tombstone e = Tombstone w"
    if hit: "map_of (st_latestVer s (unat (stripeIdx (Namespace r) (LogicalKey r))))
      (Namespace r @ [0] @ LogicalKey r) = Some e" for e
  proof -
    obtain x where x: "winner_of R x" "Namespace x = Namespace r" "LogicalKey x = LogicalKey r"
        "le_ver e = rec_ver x" "le_tombstone e = Tombstone x"
      using repr_cacheD [OF repr wfs(4) hit] by blast
    have "same_key w x" using w(2) x(2,3) by (simp add: same_key_def)
    then have "w = x" by (rule winner_unique [OF wfs(3) w(1) x(1)])
    then show ?thesis using x(4,5) by simp
  qed
  obtain b where b: "marshal_pointer c (pointer_of w) = Some b"
    using wfs(6) w by (auto simp: encodable_def winner_of_def)
  have dec: "DecodeLatestPointer c b = Some (pointer_of w)"
    using codec_pointer [OF c b] by (simp add: DecodeLatestPointer_def)
  have get: "MemStore_Get (st_local s) CFKVMeta (latestKey (Namespace r) (LogicalKey r)) = Inr (Some b)"
    using pointer_view [OF repr w(1) wfR] key b by simp
  note pick = pick_winner_read [OF get dec, unfolded pointer_of_sel lp_ver_pointer_of, OF cached]
  show ?thesis
  proof (cases "rec_ver w < rec_ver r")
    case lt: True
    have "winner_of (insert r R) r"
      by (rule winner_insert_new [OF wfs(2) _ wfs(1)])
        (metis lt order_less_imp_le same_key_sym same_key_trans w winner_unique wfs(3))
    then show ?thesis using lt live by (auto simp: pick intro!: exI [of _ r] picks_self)
  next
    case False
    then have le: "rec_ver r \<le> rec_ver w" by simp
    have "w = r" if "rec_ver w = rec_ver r"
      using wfs(2) w that by (auto simp: one_version_def winner_of_def)
    then show ?thesis
      using False live winner_insert_old [OF w le] w(2)
      by (auto simp: pick picks_def apply_pointer_def pointer_of_def intro!: exI [of _ w])
  qed
qed

section \<open>The contents after Apply\<close>

lemma apply_ops_valid: "op \<in> set (apply_ops r W n secs) \<Longrightarrow> cf_valid (op_CF op)"
  by (cases secs) (auto simp: apply_ops_def Let_def put_op_def put_exp_op_def split: option.splits if_splits)

lemma view_apply_ops:
  "view_ops v (apply_ops r W n (a, b, d)) CFKVData =
     (v CFKVData)(dataKey (Namespace r) (LogicalKey r) (rec_ver r) \<mapsto> a)"
  "view_ops v (apply_ops r W n (a, b, d)) CFKVMeta =
     (let m = (v CFKVMeta)(latestKey (Namespace r) (LogicalKey r) \<mapsto> b) in
      case ExpiresAtUnixMs r of
        Some e \<Rightarrow> if \<not> Tombstone r then m(ttlKey e (Namespace r) (LogicalKey r) \<mapsto> encodeVersion (rec_ver r)) else m
      | None \<Rightarrow> m)"
  by (auto simp: apply_ops_def view_ops_def view_op_def put_op_def put_exp_op_def Let_def split: option.splits)

lemma view_apply_latestKey:
  assumes "ns_ok ns"
  shows "view_ops v (apply_ops r W n (a, b, d)) CFKVMeta (latestKey ns k) =
    (if ns = Namespace r \<and> k = LogicalKey r then Some b else v CFKVMeta (latestKey ns k))"
  using assms by (auto simp: view_apply_ops Let_def ns_ok_def split: option.splits)

lemma data_repr_apply:
  assumes "data_repr c R v" "marshal_record c r = Some a" "one_version (insert r R)"
  shows "data_repr c (insert r R) (view_ops v (apply_ops r W n (a, b, d)))"
  unfolding data_repr_def
proof (intro conjI ballI allI impI)
  fix x assume x: "x \<in> insert r R"
  show "view_ops v (apply_ops r W n (a, b, d)) CFKVData (dataKey (Namespace x) (LogicalKey x) (rec_ver x)) =
      marshal_record c x"
  proof (cases "same_key x r \<and> rec_ver x = rec_ver r")
    case True
    then have "x = r" using x assms(3) by (auto simp: one_version_def)
    then show ?thesis using assms(2) by (simp add: view_apply_ops)
  next
    case False
    then have "x \<in> R" using x by auto
    then show ?thesis using False assms(1) by (auto simp: view_apply_ops data_repr_def same_key_def)
  qed
next
  fix ns k ver bs assume "view_ops v (apply_ops r W n (a, b, d)) CFKVData (dataKey ns k ver) = Some bs"
  then show "\<exists>x \<in> insert r R. Namespace x = ns \<and> LogicalKey x = k \<and> rec_ver x = ver"
    using assms(1) by (auto simp: view_apply_ops data_repr_def split: if_splits)
qed

lemma pointer_repr_apply:
  assumes v: "pointer_repr c R v" and wf: "wf_records c (insert r R)" and W: "picks R r W x"
    and b: "marshal_pointer c (pointer_of x) = Some b"
  shows "pointer_repr c (insert r R) (view_ops v (apply_ops r W n (a, b, d)))"
  unfolding pointer_repr_def
proof (intro conjI allI impI)
  note wfs = wf_records_insertD [OF wf]
  fix y assume y: "winner_of (insert r R) y"
  then have ok: "ns_ok (Namespace y)" using wfs by (auto simp: winner_of_def)
  show "view_ops v (apply_ops r W n (a, b, d)) CFKVMeta (latestKey (Namespace y) (LogicalKey y)) =
      marshal_pointer c (pointer_of y)"
  proof (cases "same_key y r")
    case True
    then have "y = x"
      using winner_unique [OF wfs(2) y, of x] W same_key_trans same_key_sym
      by (metis picks_def)
    then show ?thesis using True b view_apply_latestKey [OF ok] by (simp add: same_key_def)
  next
    case False
    then have "winner_of R y" using y winner_insert_other by blast
    then have "v CFKVMeta (latestKey (Namespace y) (LogicalKey y)) = marshal_pointer c (pointer_of y)"
      using v by (simp add: pointer_repr_def)
    then show ?thesis using False view_apply_latestKey [OF ok] by (auto simp: same_key_def)
  qed
next
  fix ns k bs
  assume A: "ns_ok ns \<and> view_ops v (apply_ops r W n (a, b, d)) CFKVMeta (latestKey ns k) = Some bs"
  show "\<exists>x \<in> insert r R. Namespace x = ns \<and> LogicalKey x = k"
  proof (cases "ns = Namespace r \<and> k = LogicalKey r")
    case False
    then have "v CFKVMeta (latestKey ns k) = Some bs"
      using A view_apply_latestKey [of ns v r W n a b d k] by auto
    then show ?thesis using A v unfolding pointer_repr_def by blast
  qed auto
qed

lemma index_repr_apply:
  assumes "index_repr R v" "\<forall>x \<in> insert r R. ns_ok (Namespace x)"
  shows "index_repr (insert r R) (view_ops v (apply_ops r W n (a, b, d)))"
  using assms by (auto simp: index_repr_def view_apply_ops Let_def ns_ok_def split: option.splits)

lemma cache_repr_apply:
  assumes cache: "cache_repr R m" and wf: "wf_records c (insert r R)" and W: "picks R r W x"
    and e: "e = \<lparr>le_ver = aw_winner W, le_tombstone = aw_tombstone W\<rparr>"
    and si: "si = unat (stripeIdx (Namespace r) (LogicalKey r))"
    and ck: "ckey = Namespace r @ [0] @ LogicalKey r"
  shows "cache_repr (insert r R) (m(si := (if P then AList.update ckey e (m si) else [(ckey, e)])))"
  unfolding cache_repr_def
proof (intro allI impI)
  note wfs = wf_records_insertD [OF wf]
  fix ns k e'
  assume A: "ns_ok ns \<and> map_of ((m(si := (if P then AList.update ckey e (m si) else [(ckey, e)])))
    (unat (stripeIdx ns k))) (ns @ [0] @ k) = Some e'"
  show "\<exists>y. winner_of (insert r R) y \<and> Namespace y = ns \<and> LogicalKey y = k \<and>
      le_ver e' = rec_ver y \<and> le_tombstone e' = Tombstone y"
  proof (cases "ns = Namespace r \<and> k = LogicalKey r")
    case True
    then have "e' = e" using A by (auto simp: si ck update_conv split: if_splits)
    then show ?thesis using W True e by (auto simp: picks_def same_key_def)
  next
    case False
    then have ne: "ns @ [0] @ k \<noteq> ckey" using cache_key_inject [of ns "Namespace r"] A wfs(4) ck by auto
    have "map_of (m (unat (stripeIdx ns k))) (ns @ [0] @ k) = Some e'"
      using A ne by (auto simp: update_conv split: if_splits)
    then obtain y where y: "winner_of R y" "Namespace y = ns" "LogicalKey y = k"
        "le_ver e' = rec_ver y" "le_tombstone e' = Tombstone y"
      using A cache unfolding cache_repr_def by blast
    then have "winner_of (insert r R) y" using False winner_insert_other [of y r R] by (auto simp: same_key_def)
    then show ?thesis using y by blast
  qed
qed

lemma live_keys_apply:
  assumes wf: "wf_records c (insert r R)" and W: "picks R r W x"
  shows "live_keys (insert r R) = (if Tombstone x then live_keys R - {(Namespace r, LogicalKey r)}
    else insert (Namespace r, LogicalKey r) (live_keys R))"
proof -
  note wfs = wf_records_insertD [OF wf]
  have self: "(Namespace r, LogicalKey r) \<in> live_keys (insert r R) \<longleftrightarrow> \<not> Tombstone x"
    using live_keys_iff [OF wfs(2), of x] W by (simp add: picks_def same_key_def)
  have other: "p \<in> live_keys (insert r R) \<longleftrightarrow> p \<in> live_keys R" if "p \<noteq> (Namespace r, LogicalKey r)" for p
  proof -
    have "winner_of (insert r R) y \<longleftrightarrow> winner_of R y" if "(Namespace y, LogicalKey y) = p" for y
      using that \<open>p \<noteq> _\<close> winner_insert_other [of y r R] by (auto simp: same_key_def)
    then show ?thesis unfolding live_keys_def by blast
  qed
  show ?thesis
  proof (rule set_eqI)
    fix p
    show "p \<in> live_keys (insert r R) \<longleftrightarrow> p \<in> (if Tombstone x then live_keys R - {(Namespace r, LogicalKey r)}
        else insert (Namespace r, LogicalKey r) (live_keys R))"
      using self other [of p] by (cases "p = (Namespace r, LogicalKey r)") auto
  qed
qed

lemma finite_live_keys: "finite R \<Longrightarrow> finite (live_keys R)"
proof -
  assume "finite R"
  then have "finite ((\<lambda>r. (Namespace r, LogicalKey r)) ` R)" by simp
  then show ?thesis by (rule rev_finite_subset) (auto simp: live_keys_def winner_of_def)
qed

lemma card_live_keys_apply:
  assumes wf: "wf_records c (insert r R)" and W: "picks R r W x"
  shows "of_nat (card (live_keys (insert r R))) =
    (if \<not> aw_tombstone W \<and> \<not> (aw_priorKnown W \<and> \<not> aw_priorTombstone W) then of_nat (card (live_keys R)) + 1
     else if (aw_priorKnown W \<and> \<not> aw_priorTombstone W) \<and> aw_tombstone W then of_nat (card (live_keys R)) - 1
     else of_nat (card (live_keys R)) :: i64)"
proof -
  have fin: "finite (live_keys R)" using wf_records_insertD(1) [OF wf] by (rule finite_live_keys)
  have W': "aw_tombstone W = Tombstone x"
      "(aw_priorKnown W \<and> \<not> aw_priorTombstone W) = ((Namespace r, LogicalKey r) \<in> live_keys R)"
    using W by (simp_all add: picks_def)
  have "card (live_keys R) = Suc (card (live_keys R - {(Namespace r, LogicalKey r)}))"
    if "(Namespace r, LogicalKey r) \<in> live_keys R"
    using card_Suc_Diff1 [OF fin that] by simp
  then show ?thesis unfolding W' live_keys_apply [OF wf W] using fin
    by (auto simp: insert_absorb)
qed

lemma apply_commit_fields:
  "st_local (apply_commit s r W si ck) = st_local s"
  "st_latestVer (apply_commit s r W si ck) = (st_latestVer s)(si :=
     (if length (st_latestVer s si) < maxVerCachePer
      then AList.update ck \<lparr>le_ver = aw_winner W, le_tombstone = aw_tombstone W\<rparr> (st_latestVer s si)
      else [(ck, \<lparr>le_ver = aw_winner W, le_tombstone = aw_tombstone W\<rparr>)]))"
  "st_liveKeys (apply_commit s r W si ck) =
     (if \<not> aw_tombstone W \<and> \<not> (aw_priorKnown W \<and> \<not> aw_priorTombstone W) then st_liveKeys s + 1
      else if (aw_priorKnown W \<and> \<not> aw_priorTombstone W) \<and> aw_tombstone W then st_liveKeys s - 1
      else st_liveKeys s)"
  by (auto simp: apply_commit_def Let_def split: option.splits)

text \<open>\<open>Apply\<close> refines the insertion into the set of applied records.\<close>

lemma Apply_repr:
  assumes repr: "repr c R s" and c: "codec_ok c" and wf: "wf_records c (insert r R)"
  shows "\<exists>s' x. Apply c s r kind = (s', Inr (rec_ver x)) \<and> repr c (insert r R) s' \<and>
    winner_of (insert r R) x \<and> same_key x r"
proof -
  let ?si = "unat (stripeIdx (Namespace r) (LogicalKey r))" and ?ck = "Namespace r @ [0] @ LogicalKey r"
  note wfs = wf_records_insertD [OF wf]
  obtain W x where W: "pick_winner c s r ?si ?ck = Inr W" "picks R r W x"
    using pick_winner_picks [OF repr c wf] by blast
  have x: "winner_of (insert r R) x" "same_key x r" "aw_winner W = rec_ver x" "apply_pointer r W = pointer_of x"
    using W(2) by (simp_all add: picks_def)
  have "encodable c x" using x(1) wfs by (auto simp: winner_of_def)
  then obtain a b d where m: "marshal_record c r = Some a" "marshal_pointer c (pointer_of x) = Some b"
      "marshal_envelope c (apply_envelope r kind) = Some d"
    using wfs(5) unfolding encodable_def by (meson not_None_eq)
  have enc: "encode_sections c r (apply_pointer r W) (apply_envelope r kind) = Some (a, b, d)"
    using encode_sections_Some m x(4) by simp
  define ops where "ops = apply_ops r W (st_logSeq s + 1) (a, b, d)"
  have inv: "mem_invar (st_local s)" using repr by (simp add: repr_def)
  have val: "\<forall>op \<in> set ops. cf_valid (op_CF op)" unfolding ops_def using apply_ops_valid by blast
  obtain l where l: "MemStore_BatchRC (st_local s) ops = (l, None)" "mem_invar l"
      "mem_view l = view_ops (mem_view (st_local s)) ops"
    using mem.batch_view [OF inv val] by blast
  define s' where "s' = apply_commit (s\<lparr>st_logSeq := st_logSeq s + 1, st_local := l\<rparr>) r W ?si ?ck"
  have step: "Apply c s r kind = (s', Inr (rec_ver x))"
    using W(1) enc l(1) x(3) by (simp add: Apply_def Let_def ops_def s'_def)
  have "data_repr c (insert r R) (mem_view l)" "pointer_repr c (insert r R) (mem_view l)"
      "index_repr (insert r R) (mem_view l)"
    unfolding l(3) ops_def using repr W(2) m(1,2) wf wfs
    by (auto simp: repr_def intro: data_repr_apply pointer_repr_apply index_repr_apply)
  moreover have "cache_repr (insert r R) (st_latestVer s')"
    unfolding s'_def apply_commit_fields using repr
    by (intro cache_repr_apply [OF _ wf W(2)]) (simp_all add: repr_def)
  moreover have "st_liveKeys s' = of_nat (card (live_keys (insert r R)))"
    unfolding s'_def apply_commit_fields card_live_keys_apply [OF wf W(2)] using repr
    by (simp add: repr_def)
  ultimately have "repr c (insert r R) s'"
    using l(2) by (simp add: repr_def s'_def apply_commit_fields)
  then show ?thesis using step x by blast
qed

section \<open>Reads\<close>

lemma repr_winner_bytes:
  assumes "repr c R s" "codec_ok c" "wf_records c R" "winner_of R w"
  shows "\<exists>b. mem_view (st_local s) CFKVMeta (latestKey (Namespace w) (LogicalKey w)) = Some b \<and>
    unmarshal_pointer c b = Some (pointer_of w)"
proof -
  have w: "w \<in> R" using assms(4) by (simp add: winner_of_def)
  obtain b where "marshal_pointer c (pointer_of w) = Some b"
    using assms(3) w by (auto simp: wf_records_def encodable_def)
  then show ?thesis using assms(1,4) codec_pointer [OF assms(2)] by (auto simp: repr_def pointer_repr_def)
qed

lemma repr_record_bytes:
  assumes "repr c R s" "codec_ok c" "wf_records c R" "w \<in> R"
  shows "\<exists>b. mem_view (st_local s) CFKVData (dataKey (Namespace w) (LogicalKey w) (rec_ver w)) = Some b \<and>
    unmarshal_record c b = Some w"
proof -
  obtain b where "marshal_record c w = Some b"
    using assms(3,4) by (auto simp: wf_records_def encodable_def)
  then show ?thesis using assms(1,4) codec_record [OF assms(2)] by (auto simp: repr_def data_repr_def)
qed

lemma repr_Get: "\<lbrakk>repr c R s; cf_valid cf\<rbrakk> \<Longrightarrow> MemStore_Get (st_local s) cf k = Inr (mem_view (st_local s) cf k)"
  by (simp add: repr_def mem.get_view)

lemma InlineValue_GetInline: "InlineValue w = Some v \<Longrightarrow> GetInline (ValueOf w) = v"
  by (auto simp: InlineValue_def GetInline_def split: if_splits option.splits value_body.splits value_oneof.splits)

definition outcome_of :: "stored_record \<Rightarrow> get_outcome" where
  "outcome_of w = \<lparr>go_Found = (\<not> Tombstone w), go_Value = (if Tombstone w then [] else GetInline (ValueOf w)),
     go_Version = rec_ver w, go_Tombstone = Tombstone w, go_ConflictNone = True,
     go_ExpiresAtMs = ExpiresAtUnixMs w\<rparr>"

lemma Store_Get_winner:
  assumes "repr c R s" "codec_ok c" "wf_records c R" "winner_of R w"
  shows "Store_Get c s (Namespace w) (LogicalKey w) = (outcome_of w, None)"
proof -
  obtain b where b: "mem_view (st_local s) CFKVMeta (latestKey (Namespace w) (LogicalKey w)) = Some b"
      "unmarshal_pointer c b = Some (pointer_of w)"
    using repr_winner_bytes [OF assms] by blast
  have "w \<in> R" using assms(4) by (simp add: winner_of_def)
  then obtain a where a: "mem_view (st_local s) CFKVData (dataKey (Namespace w) (LogicalKey w) (rec_ver w)) = Some a"
      "unmarshal_record c a = Some w"
    using repr_record_bytes [OF assms(1-3)] by blast
  show ?thesis
    using a b InlineValue_GetInline [of w]
    by (auto simp: Store_Get_def Let_def repr_Get [OF assms(1)] DecodeLatestPointer_def DecodeStoredRecord_def
        outcome_of_def no_outcome_def split: option.split)
qed

lemma GetRecord_winner:
  assumes "repr c R s" "codec_ok c" "wf_records c R" "winner_of R w"
  shows "GetRecord c s (Namespace w) (LogicalKey w) = Inr (Some w)"
proof -
  have "w \<in> R" using assms(4) by (simp add: winner_of_def)
  then show ?thesis
    using repr_winner_bytes [OF assms] repr_record_bytes [OF assms(1-3)]
    by (fastforce simp: GetRecord_def repr_Get [OF assms(1)] DecodeLatestPointer_def DecodeStoredRecord_def)
qed

lemma repr_pointer_None:
  assumes "repr c R s" "ns_ok ns" "\<not> (\<exists>r \<in> R. Namespace r = ns \<and> LogicalKey r = k)"
  shows "mem_view (st_local s) CFKVMeta (latestKey ns k) = None"
  using repr_pointerD [OF assms(1,2), of k] assms(3) by (meson not_None_eq)

lemma GetRecord_absent:
  assumes "repr c R s" "ns_ok ns" "\<not> (\<exists>r \<in> R. Namespace r = ns \<and> LogicalKey r = k)"
  shows "GetRecord c s ns k = Inr None" "Store_Get c s ns k = (no_outcome, None)"
  using repr_pointer_None [OF assms] by (simp_all add: GetRecord_def Store_Get_def repr_Get [OF assms(1)])

section \<open>Two stores of the same records\<close>

lemma repr_meta_eq:
  assumes "repr c R s" "repr c R s'" "wf_records c R" "ns_ok ns"
  shows "mem_view (st_local s) CFKVMeta (latestKey ns k) = mem_view (st_local s') CFKVMeta (latestKey ns k)"
proof (cases "\<exists>r \<in> R. Namespace r = ns \<and> LogicalKey r = k")
  case False
  then show ?thesis using repr_pointer_None assms by metis
next
  case True
  then obtain r where r: "r \<in> R" "Namespace r = ns" "LogicalKey r = k" by blast
  have "finite R" using assms(3) by (simp add: wf_records_def)
  then obtain w where w: "winner_of R w" "same_key w r" using winner_exists r(1) by blast
  then have "Namespace w = ns" "LogicalKey w = k" using r by (simp_all add: same_key_def)
  then show ?thesis using assms(1,2) w(1) unfolding repr_def pointer_repr_def by metis
qed

lemma repr_data_eq:
  assumes "repr c R s" "repr c R s'"
  shows "mem_view (st_local s) CFKVData (dataKey ns k v) = mem_view (st_local s') CFKVData (dataKey ns k v)"
proof (cases "\<exists>r \<in> R. Namespace r = ns \<and> LogicalKey r = k \<and> rec_ver r = v")
  case True
  then show ?thesis using assms by (auto simp: repr_def data_repr_def)
next
  case False
  then have "mem_view (st_local s) CFKVData (dataKey ns k v) = None"
      "mem_view (st_local s') CFKVData (dataKey ns k v) = None"
    using assms unfolding repr_def data_repr_def by (meson not_None_eq)+
  then show ?thesis by simp
qed

lemma repr_store_get_eq:
  assumes "repr c R s" "repr c R s'"
  shows "MemStore_Get (st_local s) CFKVData (dataKey ns k v) = MemStore_Get (st_local s') CFKVData (dataKey ns k v)"
  by (simp add: repr_Get [OF assms(1)] repr_Get [OF assms(2)] repr_data_eq [OF assms])

lemma repr_pointer_get_eq:
  assumes "repr c R s" "repr c R s'" "wf_records c R" "ns_ok ns"
  shows "MemStore_Get (st_local s) CFKVMeta (latestKey ns k) = MemStore_Get (st_local s') CFKVMeta (latestKey ns k)"
  by (simp add: repr_Get [OF assms(1)] repr_Get [OF assms(2)] repr_meta_eq [OF assms])

lemma repr_Get_eq:
  assumes "repr c R s" "repr c R s'" "wf_records c R" "ns_ok ns"
  shows "Store_Get c s ns k = Store_Get c s' ns k" "GetRecord c s ns k = GetRecord c s' ns k"
    "ExpiresAt c s ns k = ExpiresAt c s' ns k"
proof -
  note get = repr_store_get_eq [OF assms(1,2)] repr_pointer_get_eq [OF assms]
  show "Store_Get c s ns k = Store_Get c s' ns k" "GetRecord c s ns k = GetRecord c s' ns k"
      "ExpiresAt c s ns k = ExpiresAt c s' ns k"
    unfolding Store_Get_def GetRecord_def ExpiresAt_def get by (rule refl)+
qed

section \<open>Range scans\<close>

lemma scan_bounds_range:
  assumes "scan_bounds ns st en = (lo, hi)"
  shows "in_range (Some lo) hi key \<longleftrightarrow> (\<exists>k. key = latestKey ns k \<and> in_range st en k)"
proof -
  let ?p = "namespacePrefix ns"
  have lo: "lo = ?p @ (case st of None \<Rightarrow> [] | Some a \<Rightarrow> a)"
    using assms by (auto simp: scan_bounds_def latestKey_namespacePrefix split: option.splits)
  have hi: "hi = (case en of None \<Rightarrow> prefixEnd ?p | Some b \<Rightarrow> Some (?p @ b))"
    using assms by (auto simp: scan_bounds_def latestKey_namespacePrefix split: option.splits)
  have pre: "prefix ?p key" if "in_range (Some lo) hi key"
  proof -
    have "?p \<le> lo" using lo prefix_imp_le [of ?p lo] by simp
    then have "in_range (Some ?p) (prefixEnd ?p) key"
    proof (cases en)
      case None
      then show ?thesis using that hi \<open>?p \<le> lo\<close> by (auto simp: in_range_def)
    next
      case (Some b)
      have "?p @ b < h" if "prefixEnd ?p = Some h" for h
        using in_range_prefixEnd [of ?p "?p @ b"] that by (simp add: in_range_def)
      then show ?thesis using that hi Some \<open>?p \<le> lo\<close>
        by (auto simp: in_range_def split: option.splits intro: order_trans less_trans)
    qed
    then show ?thesis by (simp add: in_range_prefixEnd)
  qed
  have rng: "in_range (Some lo) hi (?p @ k) \<longleftrightarrow> in_range st en k" for k
    using in_range_prefixEnd [of ?p "?p @ k"]
    by (auto simp: in_range_def lo hi split: option.splits)
  show ?thesis using pre rng by (auto simp: latestKey_namespacePrefix prefix_def)
qed

lemma repr_scan_eq:
  assumes "repr c R s" "repr c R s'" "wf_records c R" "ns_ok ns" "scan_bounds ns st en = (lo, hi)"
  shows "MemStore_Scan (st_local s) CFKVMeta (Some lo) hi n = MemStore_Scan (st_local s') CFKVMeta (Some lo) hi n"
proof -
  have inv: "mem_invar (st_local s)" "mem_invar (st_local s')" using assms by (simp_all add: repr_def)
  obtain rs where rs: "range_rows (mem_view (st_local s) CFKVMeta) (Some lo) hi rs"
      "MemStore_Scan (st_local s) CFKVMeta (Some lo) hi n = Inr (if 0 < n then take (nat n) rs else rs)"
    using mem.scan_view [OF inv(1)] by blast
  obtain rs' where rs': "range_rows (mem_view (st_local s') CFKVMeta) (Some lo) hi rs'"
      "MemStore_Scan (st_local s') CFKVMeta (Some lo) hi n = Inr (if 0 < n then take (nat n) rs' else rs')"
    using mem.scan_view [OF inv(2)] by blast
  have "range_rows (mem_view (st_local s') CFKVMeta) (Some lo) hi rs"
    using rs(1) repr_meta_eq [OF assms(1-4)]
    by (auto simp: range_rows_def scan_bounds_range [OF assms(5)])
  then have "rs = rs'" using rs'(1) range_rows_unique by blast
  then show ?thesis using rs rs' by simp
qed

lemma scan_row_eq:
  assumes "repr c R s" "repr c R s'"
  shows "scan_row_of c s ns now = scan_row_of c s' ns now" "scan_record_of c s ns = scan_record_of c s' ns"
  unfolding fun_eq_iff scan_row_of_def scan_record_of_def repr_store_get_eq [OF assms] by blast+

lemma scan_range_loop_cong:
  "scan_row_of c s ns now = scan_row_of c s' ns now \<Longrightarrow>
    scan_range_loop c s ns n now rows out = scan_range_loop c s' ns n now rows out"
  by (induction rows arbitrary: out) (auto simp: Let_def split: option.splits)

lemma repr_ScanRange_eq:
  assumes "repr c R s" "repr c R s'" "wf_records c R" "ns_ok ns"
  shows "ScanRange c s ns st en n now = ScanRange c s' ns st en n now"
    "ScanRecords c s ns st en = ScanRecords c s' ns st en"
    "ScanRecordsFrom c s ns st n = ScanRecordsFrom c s' ns st n"
proof -
  have "MemStore_Scan (st_local s) CFKVMeta (Some (fst (scan_bounds ns st e))) (snd (scan_bounds ns st e)) m =
      MemStore_Scan (st_local s') CFKVMeta (Some (fst (scan_bounds ns st e))) (snd (scan_bounds ns st e)) m" for e m
    using repr_scan_eq [OF assms] by (metis prod.collapse)
  note scan = this and row = scan_row_eq [OF assms(1,2)]
  show "ScanRange c s ns st en n now = ScanRange c s' ns st en n now"
    unfolding ScanRange_def case_prod_unfold Let_def scan scan_range_loop_cong [OF row(1)] ..
  show "ScanRecords c s ns st en = ScanRecords c s' ns st en"
    unfolding ScanRecords_def case_prod_unfold Let_def scan row(2) ..
  show "ScanRecordsFrom c s ns st n = ScanRecordsFrom c s' ns st n"
    unfolding ScanRecordsFrom_def case_prod_unfold Let_def scan row(2) ..
qed

lemma scan_range_loop_filter:
  "(0 < n \<Longrightarrow> length out < nat n) \<Longrightarrow> scan_range_loop c s ns n now rows out =
    (if 0 < n then take (nat n) (out @ List.map_filter (scan_row_of c s ns now) rows)
     else out @ List.map_filter (scan_row_of c s ns now) rows)"
proof (induction rows arbitrary: out)
  case Nil
  then show ?case by auto
next
  case (Cons kv rows)
  show ?case
  proof (cases "scan_row_of c s ns now kv")
    case None
    then show ?thesis using Cons.IH [of out] Cons.prems by simp
  next
    case (Some row)
    show ?thesis
    proof (cases "0 < n \<and> int (length (out @ [row])) \<ge> n")
      case True
      then have "nat n = Suc (length out)" using Cons.prems by auto
      then show ?thesis using Some True by simp
    next
      case False
      then show ?thesis using Some Cons.IH [of "out @ [row]"] by auto
    qed
  qed
qed

text \<open>The row that a scan returns for a winner.\<close>

definition expired_at :: "i64 \<Rightarrow> stored_record \<Rightarrow> bool" where
  "expired_at now w = (case ExpiresAtUnixMs w of Some e \<Rightarrow> sint e \<le> sint now | None \<Rightarrow> False)"

definition row_of :: "stored_record \<Rightarrow> scan_row" where
  "row_of w = \<lparr>sr_Key = LogicalKey w, sr_Value = GetInline (ValueOf w), sr_Version = rec_ver w,
     sr_ExpiresAtMs = ExpiresAtUnixMs w\<rparr>"

lemma scan_row_of_winner:
  assumes "repr c R s" "codec_ok c" "wf_records c R" "winner_of R w"
    and "mem_view (st_local s) CFKVMeta (latestKey (Namespace w) (LogicalKey w)) = Some b"
  shows "scan_row_of c s (Namespace w) now (latestKey (Namespace w) (LogicalKey w), b) =
    (if Tombstone w \<or> expired_at now w then None else Some (row_of w))"
proof -
  have b: "unmarshal_pointer c b = Some (pointer_of w)"
    using repr_winner_bytes [OF assms(1-4)] assms(5) by auto
  have "w \<in> R" using assms(4) by (simp add: winner_of_def)
  then obtain a where a: "mem_view (st_local s) CFKVData (dataKey (Namespace w) (LogicalKey w) (rec_ver w)) = Some a"
      "unmarshal_record c a = Some w"
    using repr_record_bytes [OF assms(1-3)] by blast
  show ?thesis
    using a b InlineValue_GetInline [of w]
    by (auto simp: scan_row_of_def Let_def repr_Get [OF assms(1)] DecodeLatestPointer_def DecodeStoredRecord_def
        row_of_def expired_at_def latestKey_namespacePrefix split: option.splits)
qed

lemma map_filter_sorted:
  assumes "sorted_wrt (<) (map fst rs)"
    and "\<forall>x \<in> set rs. \<forall>row. f x = Some row \<longrightarrow> fst x = latestKey ns (key row)"
  shows "sorted_wrt (<) (map key (List.map_filter f rs))"
  using map_filter_keys_sorted [OF assms] by (simp add: sorted_wrt_map)

lemma meta_row_winner:
  assumes "repr c R s" "codec_ok c" "wf_records c R" "ns_ok ns"
    and "mem_view (st_local s) CFKVMeta (latestKey ns k) = Some v"
  obtains w where "winner_of R w" "Namespace w = ns" "LogicalKey w = k"
    "scan_row_of c s ns now (latestKey ns k, v) =
      (if Tombstone w \<or> expired_at now w then None else Some (row_of w))"
proof -
  obtain r where r: "r \<in> R" "Namespace r = ns" "LogicalKey r = k" using repr_pointerD [OF assms(1,4,5)] by blast
  then obtain w where "winner_of R w" "same_key w r"
    using winner_exists assms(3) unfolding wf_records_def by blast
  then have w: "winner_of R w" "Namespace w = ns" "LogicalKey w = k" using r by (simp_all add: same_key_def)
  then show thesis using that [OF w] scan_row_of_winner [OF assms(1-3) w(1), of v now] assms(5) by simp
qed

lemma ScanRange_rows:
  assumes "repr c R s" "codec_ok c" "wf_records c R" "ns_ok ns"
  shows "\<exists>rows. ScanRange c s ns st en n now = Inr (if 0 < n then take (nat n) rows else rows) \<and>
    sorted_wrt (<) (map sr_Key rows) \<and>
    set rows = {row_of w | w. winner_of R w \<and> Namespace w = ns \<and> in_range st en (LogicalKey w) \<and>
      \<not> Tombstone w \<and> \<not> expired_at now w}" (is "\<exists>rows. _ \<and> _ \<and> set rows = ?W")
proof -
  obtain lo hi where b: "scan_bounds ns st en = (lo, hi)" by fastforce
  have "mem_invar (st_local s)" using assms(1) by (simp add: repr_def)
  then obtain rs where rs: "MemStore_Scan (st_local s) CFKVMeta (Some lo) hi 0 = Inr rs"
      "range_rows (mem_view (st_local s) CFKVMeta) (Some lo) hi rs"
    using mem.scan_all by blast
  define f where "f = scan_row_of c s ns now"
  have mem: "x \<in> set rs \<longleftrightarrow> (\<exists>k. fst x = latestKey ns k \<and> in_range st en k \<and>
      mem_view (st_local s) CFKVMeta (latestKey ns k) = Some (snd x))" for x
    using rs(2) scan_bounds_range [OF b] by (cases x) (auto simp: range_rows_def)
  have row: "row \<in> ?W \<and> fst x = latestKey ns (sr_Key row)" if x: "x \<in> set rs" "f x = Some row" for x row
  proof -
    obtain k v where k: "x = (latestKey ns k, v)" "in_range st en k"
        "mem_view (st_local s) CFKVMeta (latestKey ns k) = Some v"
      using x(1) mem by (metis prod.collapse)
    obtain w where "winner_of R w" "Namespace w = ns" "LogicalKey w = k"
        "f x = (if Tombstone w \<or> expired_at now w then None else Some (row_of w))"
      using meta_row_winner [OF assms k(3), of now] k(1) unfolding f_def by metis
    then show ?thesis using x(2) k by (auto simp: row_of_def split: if_splits)
  qed
  have "row \<in> set (List.map_filter f rs)" if "row \<in> ?W" for row
  proof -
    obtain w where w: "row = row_of w" "winner_of R w" "Namespace w = ns" "in_range st en (LogicalKey w)"
        "\<not> Tombstone w" "\<not> expired_at now w" using \<open>row \<in> ?W\<close> by blast
    obtain v where v: "mem_view (st_local s) CFKVMeta (latestKey ns (LogicalKey w)) = Some v"
      using repr_winner_bytes [OF assms(1-3) w(2)] w(3) by auto
    then have "(latestKey ns (LogicalKey w), v) \<in> set rs" using mem w(4) by auto
    moreover have "f (latestKey ns (LogicalKey w), v) = Some row"
      using scan_row_of_winner [OF assms(1-3) w(2)] v w by (simp add: f_def)
    ultimately show ?thesis by (force simp: map_filter_def)
  qed
  then have "set (List.map_filter f rs) = ?W" using row by (fastforce simp: map_filter_def)
  moreover have "sorted_wrt (<) (map sr_Key (List.map_filter f rs))"
    by (rule map_filter_sorted) (use rs(2) row in \<open>auto simp: range_rows_def\<close>)
  moreover have "ScanRange c s ns st en n now =
      Inr (if 0 < n then take (nat n) (List.map_filter f rs) else List.map_filter f rs)"
    using rs(1) b scan_range_loop_filter [of n "[]" c s ns now rs] by (simp add: ScanRange_def f_def)
  ultimately show ?thesis by blast
qed

end
