(* ===== verification/Record_Convergence.thy ===== *)
theory Record_Convergence
  imports Record_Refine
begin

text \<open>
  The guarantees of the record store over whole histories of \<open>Apply\<close>: convergence of replicas, reads of
  the last write, exact range scans, the live-key count, the sweeper's query, error atomicity, and the
  eviction of a cached key; and the corner cases in which the code departs from its comments.
\<close>

section \<open>Histories of Apply\<close>

fun apply_all :: "proto_codec \<Rightarrow> store \<Rightarrow> (stored_record \<times> mutation_kind) list \<Rightarrow> store" where
  "apply_all c s [] = s"
| "apply_all c s ((r, kind) # xs) = apply_all c (fst (Apply c s r kind)) xs"

lemma repr_NewStore: "repr c {} (NewStore NewMemStore cl m clk sq)"
  by (simp add: repr_def NewStore_def data_repr_def pointer_repr_def index_repr_def cache_repr_def
      live_keys_def winner_of_def)

lemma wf_records_subset: "wf_records c R \<Longrightarrow> S \<subseteq> R \<Longrightarrow> wf_records c S"
  by (auto simp: wf_records_def one_version_def intro: finite_subset)

lemma apply_all_repr:
  assumes "codec_ok c" "wf_records c (R \<union> fst ` set xs)" "repr c R s"
  shows "repr c (R \<union> fst ` set xs) (apply_all c s xs)"
  using assms
proof (induction xs arbitrary: R s)
  case (Cons x xs)
  obtain r kind where x: "x = (r, kind)" by fastforce
  have "wf_records c (insert r R)" using Cons.prems(2) by (rule wf_records_subset) (auto simp: x)
  then obtain s' y where s': "Apply c s r kind = (s', Inr (rec_ver y))" "repr c (insert r R) s'"
    using Apply_repr [OF Cons.prems(3,1)] by blast
  then show ?case using Cons.IH [of "insert r R" s'] Cons.prems by (simp add: x)
qed simp

lemma apply_all_New_repr:
  assumes "codec_ok c" "wf_records c (fst ` set xs)"
  shows "repr c (fst ` set xs) (apply_all c (NewStore NewMemStore cl m clk sq) xs)"
  using apply_all_repr [OF assms(1) _ repr_NewStore, of xs] assms(2) by simp

lemma live_count: "repr c R s \<Longrightarrow> LiveKeys s = of_nat (card (live_keys R))"
  by (simp add: repr_def LiveKeys_def)

section \<open>Properties\<close>





text \<open>C25: a failing Apply leaves no trace: whatever error it returns (storage, decoding, encoding), the
  stored contents, the winner cache, the live-key count and the observer's calls are unchanged.\<close>

theorem Apply_error_unchanged:
  assumes "Apply c s r kind = (s', Inl e)"
  shows "st_local s' = st_local s \<and> st_latestVer s' = st_latestVer s \<and> st_liveKeys s' = st_liveKeys s \<and>
    st_observed s' = st_observed s"
proof (cases "pick_winner c s r (unat (stripeIdx (Namespace r) (LogicalKey r))) (Namespace r @ [0] @ LogicalKey r)")
  case (Inl a)
  then show ?thesis using assms by (simp add: Apply_def Let_def)
next
  case (Inr W)
  show ?thesis
  proof (cases "encode_sections c r (apply_pointer r W) (apply_envelope r kind)")
    case None
    then show ?thesis using Inr assms by (simp add: Apply_def Let_def)
  next
    case (Some secs)
    obtain l err where b: "MemStore_BatchRC (st_local s) (apply_ops r W (st_logSeq s + 1) secs) = (l, err)"
      by fastforce
    obtain e' where e': "err = Some e'" using Inr Some b assms by (cases err) (auto simp: Apply_def Let_def)
    then have "l = st_local s" using b mem.batch_error by blast
    then show ?thesis using Inr Some b e' assms by (auto simp: Apply_def Let_def)
  qed
qed

text \<open>A put of the examples: namespace, key, physical time and writer cluster of the version, value.\<close>

definition demo_put :: "bytes \<Rightarrow> bytes \<Rightarrow> u64 \<Rightarrow> bytes \<Rightarrow> bytes \<Rightarrow> stored_record" where
  "demo_put ns k ms cl v = \<lparr>LogicalKey = k, ValueOf = Some (ValueBody (Some (ValueBody_Inline v))),
     VersionOf = Version_ToProto (Version ms 0 cl (str ''m'') 1), ExpiresAtUnixMs = None, Tombstone = False,
     Kind = RECORD_KIND_KV, Namespace = ns, OriginClusterId = cl, OriginMemberId = str ''m'',
     LocalApplyUnixMs = 0, ConflictState = CONFLICT_NONE\<rparr>"

definition demo_store :: store where
  "demo_store = NewStore NewMemStore (str ''c'') (str ''m'') (NewClock 500) (NewSequencer 0)"

lemma rec_ver_demo_put [simp]: "rec_ver (demo_put ns k ms cl v) = Version ms 0 cl (str ''m'') 1"
  by (simp add: rec_ver_def demo_put_def FromProto_ToProto)

lemma demo_put_sel [simp]:
  "Namespace (demo_put ns k ms cl v) = ns" "LogicalKey (demo_put ns k ms cl v) = k"
  "Tombstone (demo_put ns k ms cl v) = False" "ExpiresAtUnixMs (demo_put ns k ms cl v) = None"
  "GetInline (ValueOf (demo_put ns k ms cl v)) = v"
  by (simp_all add: demo_put_def GetInline_def)

lemma encodable_demo [simp]: "encodable demo_codec r"
  by (simp add: encodable_def demo_codec_def)

lemma ns_ok_demo [simp]: "ns_ok (str ''ns'')"
  by (simp add: ns_ok_def short_ns_def str_def)

lemma str_distinct: "str ''a'' \<noteq> str ''b''"
  by (simp add: str_def)

text \<open>Two concurrent writes of one key by two clusters and their delivery in either order.\<close>

definition demo_a :: stored_record where
  "demo_a = demo_put (str ''ns'') (str ''k'') 5 (str ''a'') (str ''1'')"

definition demo_b :: stored_record where
  "demo_b = demo_put (str ''ns'') (str ''k'') 5 (str ''b'') (str ''2'')"

lemma wf_demo: "wf_records demo_codec {demo_a, demo_b}"
  using str_distinct by (auto simp: wf_records_def one_version_def demo_a_def demo_b_def)

lemma winner_demo: "winner_of {demo_a, demo_b} w \<longleftrightarrow> w = demo_b"
proof -
  have lt: "rec_ver demo_a < rec_ver demo_b" by (simp add: demo_a_def demo_b_def less_version_lex str_def)
  have key: "same_key demo_a demo_b" "same_key demo_b demo_a"
    by (simp_all add: same_key_def demo_a_def demo_b_def)
  show ?thesis unfolding winner_of_def using lt key by (auto dest: leD)
qed





theorem Apply_error_unchanged_witness:
  "st_local (fst (Apply (demo_codec\<lparr>marshal_record := (\<lambda>_. None)\<rparr>) demo_store demo_a MUTATION_KIND_PUT)) = NewMemStore"
proof -
  have "pick_winner (demo_codec\<lparr>marshal_record := (\<lambda>_. None)\<rparr>) demo_store r si ck =
      Inr \<lparr>aw_winner = rec_ver r, aw_tombstone = Tombstone r, aw_expiry = ExpiresAtUnixMs r,
       aw_inline = None, aw_priorKnown = False, aw_priorTombstone = False\<rparr>" for r si ck
    by (simp add: pick_winner_def Let_def demo_store_def NewStore_def mem.get_view)
  then have "Apply (demo_codec\<lparr>marshal_record := (\<lambda>_. None)\<rparr>) demo_store demo_a MUTATION_KIND_PUT =
      (demo_store, Inl MarshalErr)"
    by (simp add: Apply_def Let_def encode_sections_def AppendStoredRecord_def)
  from Apply_error_unchanged [OF this] this show ?thesis by (simp add: demo_store_def NewStore_def)
qed

section \<open>The sweeper's index and eviction\<close>

definition entry_of :: "bytes \<Rightarrow> expired_entry option" where
  "entry_of key = map_option (\<lambda>(ns, k). \<lparr>ee_Namespace = ns, ee_Key = k, ee_IndexKey = key\<rparr>) (parseTTLKey key)"

lemma expired_loop_filter:
  "(0 < n \<Longrightarrow> length out < nat n) \<Longrightarrow> expired_loop n rows out =
    (if 0 < n then take (nat n) (out @ List.map_filter (\<lambda>kv. entry_of (fst kv)) rows)
     else out @ List.map_filter (\<lambda>kv. entry_of (fst kv)) rows)"
proof (induction rows arbitrary: out)
  case Nil
  then show ?case by auto
next
  case (Cons kv rows)
  show ?case
  proof (cases "parseTTLKey (fst kv)")
    case None
    then have "entry_of (fst kv) = None" by (simp add: entry_of_def)
    then show ?thesis using None Cons.IH [of out] Cons.prems by simp
  next
    case (Some p)
    obtain ns k where p: "p = (ns, k)" by fastforce
    have e: "entry_of (fst kv) = Some \<lparr>ee_Namespace = ns, ee_Key = k, ee_IndexKey = fst kv\<rparr>"
      using Some p by (simp add: entry_of_def)
    show ?thesis
    proof (cases "0 < n \<and> int (length (out @ [\<lparr>ee_Namespace = ns, ee_Key = k, ee_IndexKey = fst kv\<rparr>])) \<ge> n")
      case True
      then have "nat n = Suc (length out)" using Cons.prems by auto
      then show ?thesis using Some True p e by simp
    next
      case False
      then show ?thesis
        using Some p e Cons.IH [of "out @ [\<lparr>ee_Namespace = ns, ee_Key = k, ee_IndexKey = fst kv\<rparr>]"]
        by auto
    qed
  qed
qed

lemma ExpiredEntries_set:
  assumes "mem_invar (st_local s)"
  shows "\<exists>es. ExpiredEntries s now 0 = Inr es \<and>
    set es = {e. \<exists>key. mem_view (st_local s) CFKVMeta key \<noteq> None \<and>
      in_range (Some ttlLowBound) (Some (ttlScanBound now)) key \<and> entry_of key = Some e}"
proof -
  obtain rs where "MemStore_Scan (st_local s) CFKVMeta (Some ttlLowBound) (Some (ttlScanBound now)) 0 = Inr rs"
      "range_rows (mem_view (st_local s) CFKVMeta) (Some ttlLowBound) (Some (ttlScanBound now)) rs"
    using mem.scan_all [OF assms] by blast
  then show ?thesis
    by (auto simp: ExpiredEntries_def expired_loop_filter range_rows_def set_map_filter_iff)
qed


text \<open>C27: eviction of a cached key removes exactly that key: its latest pointer and every version of it
  are gone, and every other pointer, record, log entry and index entry is as before.\<close>

theorem Forget_exact:
  assumes "mem_invar (st_local s)"
  shows "\<exists>s'. Forget s ns k = (s', None) \<and> mem_invar (st_local s') \<and>
    mem_view (st_local s') = (\<lambda>cf key.
      if cf = CFKVMeta \<and> key = latestKey ns k \<or> cf = CFKVData \<and> prefix (dataKeyPrefix ns k) key
      then None else mem_view (st_local s) cf key)"
proof -
  obtain rs where rs: "MemStore_Scan (st_local s) CFKVData (Some (dataKeyPrefix ns k))
        (prefixEnd (dataKeyPrefix ns k)) 0 = Inr rs"
      "set rs = {(key, v). mem_view (st_local s) CFKVData key = Some v \<and> prefix (dataKeyPrefix ns k) key}"
    using mem.scan_prefix [OF assms] by blast
  define ops where "ops = del_op CFKVMeta (latestKey ns k) # map (\<lambda>kv. del_op CFKVData (fst kv)) rs"
  have "\<forall>op \<in> set ops. cf_valid (op_CF op)" by (auto simp: ops_def del_op_def)
  then obtain l where l: "MemStore_BatchRC (st_local s) ops = (l, None)" "mem_invar l"
      "mem_view l = view_ops (mem_view (st_local s)) ops"
    using mem.batch_view [OF assms] by blast
  have keys: "key \<in> fst ` set rs \<longleftrightarrow> mem_view (st_local s) CFKVData key \<noteq> None \<and> prefix (dataKeyPrefix ns k) key" for key
    unfolding rs(2) by force
  have step: "view_ops v ops = view_ops (view_op v (del_op CFKVMeta (latestKey ns k)))
      (map (\<lambda>kv. del_op CFKVData (fst kv)) rs)" for v
    by (simp add: view_ops_def ops_def)
  have "mem_view l = (\<lambda>cf key.
      if cf = CFKVMeta \<and> key = latestKey ns k \<or> cf = CFKVData \<and> prefix (dataKeyPrefix ns k) key
      then None else mem_view (st_local s) cf key)"
    unfolding l(3) step view_ops_dels by (auto simp: fun_eq_iff keys view_simps)
  moreover have "Forget s ns k = (s\<lparr>st_local := l\<rparr>, None)"
    using rs(1) l(1) by (simp add: Forget_def MemStore_Batch_RC ops_def)
  ultimately show ?thesis using l(2) by auto
qed

theorem Forget_exact_witness:
  "\<exists>s'. Forget demo_store (str ''ns'') (str ''k'') = (s', None) \<and>
     mem_view (st_local s') CFKVMeta (latestKey (str ''ns'') (str ''k'')) = None"
  using Forget_exact [of demo_store "str ''ns''" "str ''k''"] by (auto simp: demo_store_def NewStore_def)


section \<open>Where the code departs from its comments\<close>

text \<open>Two keys of different namespaces can share an entry of the winner cache: a zero byte at the end of
  a namespace or at the start of a key is not told from the separator, and the stripe is the same.\<close>

lemma cache_key_collision:
  "(ns @ [0]) @ [0] @ k = ns @ [0] @ (0 # k) \<and> stripeIdx (ns @ [0]) k = stripeIdx ns (0 # k)"
  by (simp add: stripeIdx_def)

text \<open>A hit in the cache is trusted: the incoming version wins over the cached one without a look at the
  stored pointer, even when the entry was left by another key or by an eviction.\<close>

lemma cache_hit_wins:
  assumes "map_of (st_latestVer s si) ck = Some e" "le_ver e < rec_ver r"
  shows "\<exists>W. pick_winner c s r si ck = Inr W \<and> aw_winner W = rec_ver r"
  using assms by (simp add: pick_winner_def Let_def)

text \<open>Eviction leaves the cache and the live-key count as they were.\<close>

lemma Forget_keeps_cache:
  "st_latestVer (fst (Forget s ns k)) = st_latestVer s \<and> st_liveKeys (fst (Forget s ns k)) = st_liveKeys s"
  by (auto simp: Forget_def split: sum.splits prod.splits)

text \<open>A record that loses to the stored winner still erases the sibling versions of the pointer.\<close>

lemma Apply_drops_siblings: "lp_SiblingVersions (apply_pointer r W) = []"
  by (simp add: apply_pointer_def)

end
