(* ===== verification/Cut_Repair.thy ===== *)
theory Cut_Repair
  imports Record_Convergence
begin

text \<open>
  \<open>src/internal/recordstore/repair.go\<close>: the pass that follows a logical restore cut at a time T.  The cut
  dropped versioned records written after T and left the latest pointers as they were; \<open>RepairCutMeta\<close>
  repoints or drops the pointers whose winner is gone and filters sibling versions that are gone.

  The pass collects all pointers first, then handles them one at a time, writing its operations in
  batches of a thousand.  The theorem says that afterwards no decodable pointer dangles, that a pointer
  whose winner survived keeps it, and that a repointed key gets the highest surviving version.
\<close>

definition lpNativeTTL :: "latest_pointer \<Rightarrow> i64" where
  "lpNativeTTL lp = (case lp_ExpiresAtUnixMs lp of
     Some e \<Rightarrow> if \<not> lp_Tombstone lp then e else 0 | None \<Rightarrow> 0)"

definition dataPresent :: "mem_store \<Rightarrow> bytes \<Rightarrow> bytes \<Rightarrow> version \<Rightarrow> storage_error + bool" where
  "dataPresent st ns userKey v =
     (case MemStore_Get st CFKVData (dataKey ns userKey v) of Inl e \<Rightarrow> Inl e | Inr r \<Rightarrow> Inr (r \<noteq> None))"

fun presentSiblings ::
  "mem_store \<Rightarrow> bytes \<Rightarrow> bytes \<Rightarrow> version_pb list \<Rightarrow> storage_error + (version_pb list \<times> bool)" where
  "presentSiblings st ns userKey [] = Inr ([], False)"
| "presentSiblings st ns userKey (s # sibs) =
     (case dataPresent st ns userKey (Version_FromProto (Some s)) of
        Inl e \<Rightarrow> Inl e
      | Inr present \<Rightarrow>
          (case presentSiblings st ns userKey sibs of
             Inl e \<Rightarrow> Inl e
           | Inr (kept, changed) \<Rightarrow> Inr (if present then (s # kept, changed) else (kept, True))))"

definition survivorSet :: "stored_record list \<Rightarrow> version \<Rightarrow> bool" where
  "survivorSet recs v \<longleftrightarrow> v \<in> set (map rec_ver recs)"

definition survivingSiblings :: "version_pb list \<Rightarrow> (version \<Rightarrow> bool) \<Rightarrow> version \<Rightarrow> version_pb list" where
  "survivingSiblings sibs present winner =
     filter (\<lambda>s. \<not> (Version_FromProto (Some s) = winner \<or> \<not> present (Version_FromProto (Some s)))) sibs"

definition scanKeyRecords ::
  "proto_codec \<Rightarrow> mem_store \<Rightarrow> bytes \<Rightarrow> bytes \<Rightarrow> storage_error + stored_record list" where
  "scanKeyRecords c st ns userKey =
     (let pfx = dataKeyPrefix ns userKey in
      case MemStore_Scan st CFKVData (Some pfx) (prefixEnd pfx) 0 of
        Inl e \<Rightarrow> Inl e
      | Inr rows \<Rightarrow> Inr (List.map_filter (\<lambda>kv. DecodeStoredRecord c (snd kv)) rows))"

text \<open>The pointers that the read pass collects.\<close>

definition lp_entry_of :: "proto_codec \<Rightarrow> bytes \<times> bytes \<Rightarrow> (bytes \<times> bytes \<times> latest_pointer) option" where
  "lp_entry_of c kv =
     (case parseLatestKey (fst kv) of
        None \<Rightarrow> None
      | Some (ns, uk) \<Rightarrow>
          (case DecodeLatestPointer c (snd kv) of None \<Rightarrow> None | Some lp \<Rightarrow> Some (ns, uk, lp)))"

text \<open>The operations for one pointer.\<close>

definition repair_entry ::
  "proto_codec \<Rightarrow> mem_store \<Rightarrow> bytes \<times> bytes \<times> latest_pointer \<Rightarrow> store_error + store_op list" where
  "repair_entry c st e =
     (let (ns, uk, lp) = e in
      case dataPresent st ns uk (lp_ver lp) of
        Inl err \<Rightarrow> Inl (StorageErr err)
      | Inr True \<Rightarrow>
          (case presentSiblings st ns uk (lp_SiblingVersions lp) of
             Inl err \<Rightarrow> Inl (StorageErr err)
           | Inr (kept, changed) \<Rightarrow>
               if \<not> changed then Inr []
               else (let nlp = \<lparr>lp_Winner = lp_Winner lp, lp_SiblingVersions = kept,
                        lp_ExpiresAtUnixMs = lp_ExpiresAtUnixMs lp, lp_Tombstone = lp_Tombstone lp,
                        lp_LocalGeneration = 0, lp_InlineValue = lp_InlineValue lp\<rparr>
                     in case EncodeLatestPointer c nlp of
                          None \<Rightarrow> Inl MarshalErr
                        | Some b \<Rightarrow> Inr [put_exp_op CFKVMeta (latestKey ns uk) b (lpNativeTTL nlp)]))
      | Inr False \<Rightarrow>
          (case scanKeyRecords c st ns uk of
             Inl err \<Rightarrow> Inl (StorageErr err)
           | Inr survivors \<Rightarrow>
               (let stale = (case lp_ExpiresAtUnixMs lp of
                      Some x \<Rightarrow> [del_op CFKVMeta (ttlKey x ns uk)] | None \<Rightarrow> [])
                in case RebuildLatestPointer survivors of
                     None \<Rightarrow> Inr (stale @ [del_op CFKVMeta (latestKey ns uk)])
                   | Some rlp \<Rightarrow>
                       (let nlp = rlp\<lparr>lp_SiblingVersions :=
                              survivingSiblings (lp_SiblingVersions lp) (survivorSet survivors) (lp_ver rlp)\<rparr>
                        in case EncodeLatestPointer c nlp of
                             None \<Rightarrow> Inl MarshalErr
                           | Some b \<Rightarrow>
                               Inr (stale @ [put_exp_op CFKVMeta (latestKey ns uk) b (lpNativeTTL nlp)] @
                                 (case lp_ExpiresAtUnixMs nlp of
                                    Some x \<Rightarrow> if \<not> lp_Tombstone nlp
                                      then [put_op CFKVMeta (ttlKey x ns uk) (encodeVersion (lp_ver nlp))] else []
                                  | None \<Rightarrow> []))))))"

definition repair_flush :: "mem_store \<Rightarrow> store_op list \<Rightarrow> mem_store \<times> store_error option" where
  "repair_flush st ops =
     (if ops = [] then (st, None)
      else case MemStore_BatchRC st ops of (st', e) \<Rightarrow> (st', map_option StorageErr e))"

fun repair_loop ::
  "proto_codec \<Rightarrow> mem_store \<Rightarrow> (bytes \<times> bytes \<times> latest_pointer) list \<Rightarrow> store_op list \<Rightarrow>
     mem_store \<times> store_error option" where
  "repair_loop c st [] ops = repair_flush st ops"
| "repair_loop c st (e # es) ops =
     (case repair_entry c st e of
        Inl err \<Rightarrow> (st, Some err)
      | Inr new \<Rightarrow>
          (let ops = ops @ new in
           if length ops \<ge> 1000
           then case repair_flush st ops of
                  (st', Some err) \<Rightarrow> (st', Some err)
                | (st', None) \<Rightarrow> repair_loop c st' es []
           else repair_loop c st es ops))"

definition RepairCutMeta :: "proto_codec \<Rightarrow> mem_store \<Rightarrow> mem_store \<times> store_error option" where
  "RepairCutMeta c st =
     (case MemStore_Scan st CFKVMeta None (Some ttlLowBound) 0 of
        Inl e \<Rightarrow> (st, Some (StorageErr e))
      | Inr rows \<Rightarrow> repair_loop c st (List.map_filter (lp_entry_of c) rows) [])"

section \<open>The operations depend on the versioned records only\<close>

definition present :: "kv_view \<Rightarrow> bytes \<Rightarrow> bytes \<Rightarrow> version \<Rightarrow> bool" where
  "present v ns k ver \<longleftrightarrow> v CFKVData (dataKey ns k ver) \<noteq> None"

definition survivors :: "proto_codec \<Rightarrow> kv_view \<Rightarrow> bytes \<Rightarrow> bytes \<Rightarrow> stored_record set" where
  "survivors c v ns k = {r. \<exists>key b. v CFKVData key = Some b \<and> prefix (dataKeyPrefix ns k) key \<and>
     unmarshal_record c b = Some r}"

lemma dataPresent_view: "mem_invar st \<Longrightarrow> dataPresent st ns k ver = Inr (present (mem_view st) ns k ver)"
  by (simp add: dataPresent_def present_def mem.get_view)

definition pb_present :: "kv_view \<Rightarrow> bytes \<Rightarrow> bytes \<Rightarrow> version_pb \<Rightarrow> bool" where
  "pb_present v ns k s \<longleftrightarrow> present v ns k (Version_FromProto (Some s))"

lemma presentSiblings_view:
  "mem_invar st \<Longrightarrow> presentSiblings st ns k sibs =
    Inr (filter (pb_present (mem_view st) ns k) sibs, \<exists>s \<in> set sibs. \<not> pb_present (mem_view st) ns k s)"
  by (induction sibs) (auto simp: dataPresent_view pb_present_def)

lemma scanKeyRecords_view:
  assumes "mem_invar st"
  shows "\<exists>rs. scanKeyRecords c st ns k = Inr rs \<and> set rs = survivors c (mem_view st) ns k"
proof -
  obtain rows where "MemStore_Scan st CFKVData (Some (dataKeyPrefix ns k)) (prefixEnd (dataKeyPrefix ns k)) 0 = Inr rows"
      "set rows = {(key, b). mem_view st CFKVData key = Some b \<and> prefix (dataKeyPrefix ns k) key}"
    using mem.scan_prefix [OF assms] by blast
  then show ?thesis
    by (auto simp: scanKeyRecords_def survivors_def set_map_filter_iff DecodeStoredRecord_def)
qed

lemma repair_entry_cong:
  assumes "mem_invar st" "mem_invar st'" "mem_view st CFKVData = mem_view st' CFKVData"
  shows "repair_entry c st e = repair_entry c st' e"
proof -
  have pre: "present (mem_view st) = present (mem_view st')"
    using assms(3) by (simp add: fun_eq_iff present_def)
  then have pb: "pb_present (mem_view st) = pb_present (mem_view st')"
    by (simp add: fun_eq_iff pb_present_def)
  have scan: "scanKeyRecords c st ns k = scanKeyRecords c st' ns k" for ns k
    unfolding scanKeyRecords_def Let_def scan_cong [OF assms] ..
  show ?thesis
    unfolding repair_entry_def dataPresent_view [OF assms(1)] dataPresent_view [OF assms(2)]
      presentSiblings_view [OF assms(1)] presentSiblings_view [OF assms(2)] pre pb scan ..
qed

text \<open>Every pointer can be marshalled: its strings came out of decoded messages.\<close>

definition marshals_pointers :: "proto_codec \<Rightarrow> bool" where
  "marshals_pointers c \<longleftrightarrow> (\<forall>p. marshal_pointer c p \<noteq> None)"

definition entry_ops :: "proto_codec \<Rightarrow> mem_store \<Rightarrow> bytes \<times> bytes \<times> latest_pointer \<Rightarrow> store_op list" where
  "entry_ops c st e = (case repair_entry c st e of Inr ops \<Rightarrow> ops | Inl _ \<Rightarrow> [])"

text \<open>What becomes of one pointer.\<close>

definition kept_pointer :: "kv_view \<Rightarrow> bytes \<Rightarrow> bytes \<Rightarrow> latest_pointer \<Rightarrow> latest_pointer" where
  "kept_pointer v ns k lp = \<lparr>lp_Winner = lp_Winner lp, lp_SiblingVersions = filter (pb_present v ns k) (lp_SiblingVersions lp),
     lp_ExpiresAtUnixMs = lp_ExpiresAtUnixMs lp, lp_Tombstone = lp_Tombstone lp,
     lp_LocalGeneration = 0, lp_InlineValue = lp_InlineValue lp\<rparr>"

definition own_op :: "bytes \<Rightarrow> bytes \<Rightarrow> store_op \<Rightarrow> bool" where
  "own_op ns k op \<longleftrightarrow> op_CF op = CFKVMeta \<and> (op_Key op = latestKey ns k \<or> (\<exists>e. op_Key op = ttlKey e ns k))"

lemma repair_entry_kept:
  assumes "mem_invar st" "marshals_pointers c" "present (mem_view st) ns k (lp_ver lp)"
  shows "\<exists>ops. repair_entry c st (ns, k, lp) = Inr ops \<and> (\<forall>op \<in> set ops. own_op ns k op) \<and>
    view_ops v ops CFKVMeta (latestKey ns k) =
      (if \<forall>s \<in> set (lp_SiblingVersions lp). pb_present (mem_view st) ns k s then v CFKVMeta (latestKey ns k)
       else marshal_pointer c (kept_pointer (mem_view st) ns k lp))"
proof -
  obtain b where b: "marshal_pointer c (kept_pointer (mem_view st) ns k lp) = Some b"
    using assms(2) by (auto simp: marshals_pointers_def)
  show ?thesis
    using assms b
    by (auto simp: repair_entry_def dataPresent_view presentSiblings_view EncodeLatestPointer_def
        kept_pointer_def Let_def own_op_def put_exp_op_def view_ops_def view_op_def)
qed


text \<open>The pointer of a key whose winner is gone: none without survivors, otherwise that of the surviving
  record with the highest version, with the surviving siblings.\<close>

definition repointed :: "proto_codec \<Rightarrow> kv_view \<Rightarrow> bytes \<Rightarrow> bytes \<Rightarrow> latest_pointer \<Rightarrow> latest_pointer option \<Rightarrow> bool" where
  "repointed c v ns k lp nlp \<longleftrightarrow> (case nlp of
      None \<Rightarrow> survivors c v ns k = {}
    | Some p \<Rightarrow> \<exists>w \<in> survivors c v ns k. (\<forall>r \<in> survivors c v ns k. rec_ver r \<le> rec_ver w) \<and>
        p = \<lparr>lp_Winner = VersionOf w, lp_SiblingVersions = filter (\<lambda>s. Version_FromProto (Some s) \<noteq> rec_ver w \<and>
               Version_FromProto (Some s) \<in> rec_ver ` survivors c v ns k) (lp_SiblingVersions lp),
             lp_ExpiresAtUnixMs = ExpiresAtUnixMs w, lp_Tombstone = Tombstone w, lp_LocalGeneration = 0,
             lp_InlineValue = InlineValue w\<rparr>)"

lemma own_op_simps [simp]:
  "own_op ns k (del_op CFKVMeta (ttlKey e ns k))" "own_op ns k (del_op CFKVMeta (latestKey ns k))"
  "own_op ns k (put_op CFKVMeta (ttlKey e ns k) b)" "own_op ns k (put_exp_op CFKVMeta (latestKey ns k) b x)"
  by (auto simp: own_op_def del_op_def put_op_def put_exp_op_def)

lemma Rebuild_repointed:
  assumes "set rs = survivors c v ns k"
  shows "repointed c v ns k lp (map_option (\<lambda>rlp. rlp\<lparr>lp_SiblingVersions :=
     survivingSiblings (lp_SiblingVersions lp) (survivorSet rs) (lp_ver rlp)\<rparr>) (RebuildLatestPointer rs))"
proof (cases rs)
  case Nil
  then show ?thesis using assms by (simp add: repointed_def RebuildLatestPointer_def)
next
  case (Cons r rest)
  let ?w = "rebuild_winner r rest"
  have w: "?w \<in> survivors c v ns k" "\<forall>x \<in> survivors c v ns k. rec_ver x \<le> rec_ver ?w"
    using rebuild_winner_spec [of r rest] assms Cons by auto
  have "survivorSet rs = (\<lambda>ver. ver \<in> rec_ver ` survivors c v ns k)"
    by (simp add: fun_eq_iff survivorSet_def flip: assms)
  then show ?thesis
    using w Cons by (auto simp: repointed_def RebuildLatestPointer_def Let_def survivingSiblings_def
        lp_ver_def rec_ver_def intro!: bexI [of _ ?w])
qed

lemma repair_entry_gone:
  assumes st: "mem_invar st" and c: "marshals_pointers c" and ns: "short_ns ns"
    and gone: "\<not> present (mem_view st) ns k (lp_ver lp)"
  shows "\<exists>ops nlp. repair_entry c st (ns, k, lp) = Inr ops \<and> (\<forall>op \<in> set ops. own_op ns k op) \<and>
    repointed c (mem_view st) ns k lp nlp \<and>
    view_ops v ops CFKVMeta (latestKey ns k) = Option.bind nlp (marshal_pointer c)"
proof -
  obtain rs where rs: "scanKeyRecords c st ns k = Inr rs" "set rs = survivors c (mem_view st) ns k"
    using scanKeyRecords_view [OF st] by blast
  define stale where "stale = (case lp_ExpiresAtUnixMs lp of
      Some x \<Rightarrow> [del_op CFKVMeta (ttlKey x ns k)] | None \<Rightarrow> [])"
  have own: "\<forall>op \<in> set stale. own_op ns k op" by (auto simp: stale_def split: option.splits)
  show ?thesis
  proof (cases "RebuildLatestPointer rs")
    case None
    then have "repair_entry c st (ns, k, lp) = Inr (stale @ [del_op CFKVMeta (latestKey ns k)])"
      using gone rs(1) by (simp add: repair_entry_def dataPresent_view [OF st] stale_def)
    moreover have "repointed c (mem_view st) ns k lp None"
      using Rebuild_repointed [OF rs(2), of lp] None by simp
    ultimately show ?thesis using own
      by (auto simp: view_ops_append view_ops_Cons view_simps intro!: exI [of _ None])
  next
    case (Some rlp)
    define nlp where "nlp = rlp\<lparr>lp_SiblingVersions :=
      survivingSiblings (lp_SiblingVersions lp) (survivorSet rs) (lp_ver rlp)\<rparr>"
    obtain b where b: "marshal_pointer c nlp = Some b" using c by (auto simp: marshals_pointers_def)
    define idx where "idx = (case lp_ExpiresAtUnixMs nlp of
      Some x \<Rightarrow> if \<not> lp_Tombstone nlp then [put_op CFKVMeta (ttlKey x ns k) (encodeVersion (lp_ver nlp))] else []
    | None \<Rightarrow> [])"
    have "repair_entry c st (ns, k, lp) =
        Inr (stale @ [put_exp_op CFKVMeta (latestKey ns k) b (lpNativeTTL nlp)] @ idx)"
      using gone rs(1) Some b
      by (simp add: repair_entry_def dataPresent_view [OF st] stale_def idx_def EncodeLatestPointer_def Let_def
          flip: nlp_def)
    moreover have "repointed c (mem_view st) ns k lp (Some nlp)"
      using Rebuild_repointed [OF rs(2), of lp] Some by (simp add: nlp_def)
    moreover have "\<forall>op \<in> set idx. own_op ns k op" by (auto simp: idx_def split: option.splits)
    moreover have "view_ops u idx CFKVMeta (latestKey ns k) = u CFKVMeta (latestKey ns k)" for u
      using ns by (auto simp: idx_def view_ops_Cons view_simps split: option.splits)
    ultimately show ?thesis using own b
      by (auto simp: view_ops_append view_ops_Cons view_simps intro!: exI [of _ "Some nlp"])
  qed
qed

section \<open>The pass\<close>

lemma repair_entry_total:
  assumes "mem_invar st" "marshals_pointers c" "short_ns ns"
  shows "repair_entry c st (ns, k, lp) = Inr (entry_ops c st (ns, k, lp))"
    "op \<in> set (entry_ops c st (ns, k, lp)) \<Longrightarrow> own_op ns k op"
  using repair_entry_kept [OF assms(1,2)] repair_entry_gone [OF assms]
  by (cases "present (mem_view st) ns k (lp_ver lp)"; fastforce simp: entry_ops_def)+

lemma repair_flush_view:
  assumes "mem_invar st" "\<forall>op \<in> set ops. op_CF op = CFKVMeta"
  shows "\<exists>st'. repair_flush st ops = (st', None) \<and> mem_invar st' \<and> mem_view st' = view_ops (mem_view st) ops \<and>
    mem_view st' CFKVData = mem_view st CFKVData"
proof (cases "ops = []")
  case True
  then show ?thesis using assms by (simp add: repair_flush_def)
next
  case False
  have "\<forall>op \<in> set ops. cf_valid (op_CF op)" using assms(2) by simp
  then obtain l where "MemStore_BatchRC st ops = (l, None)" "mem_invar l" "mem_view l = view_ops (mem_view st) ops"
    using mem.batch_view [OF assms(1)] by blast
  moreover have "view_ops (mem_view st) ops CFKVData key = mem_view st CFKVData key" for key
    using assms(2) by (intro view_ops_other) auto
  ultimately show ?thesis using False by (auto simp: repair_flush_def)
qed

lemma repair_loop_view:
  assumes "mem_invar st" "marshals_pointers c" "\<forall>(ns, k, lp) \<in> set es. short_ns ns"
    and "\<forall>op \<in> set ops. op_CF op = CFKVMeta"
  shows "\<exists>st'. repair_loop c st es ops = (st', None) \<and> mem_invar st' \<and>
    mem_view st' = view_ops (mem_view st) (ops @ concat (map (entry_ops c st) es))"
  using assms
proof (induction es arbitrary: st ops)
  case Nil
  then show ?case using repair_flush_view [of st ops] by auto
next
  case (Cons e es)
  obtain ns k lp where e: "e = (ns, k, lp)" using prod_cases3 by blast
  have ns: "short_ns ns" using Cons.prems(3) e by auto
  note tot = repair_entry_total [OF Cons.prems(1,2) ns, where k = k and lp = lp]
  let ?ops = "ops @ entry_ops c st e"
  have ops: "\<forall>op \<in> set ?ops. op_CF op = CFKVMeta"
    using tot(2) Cons.prems(4) by (auto simp: e own_op_def)
  show ?case
  proof (cases "length ?ops \<ge> 1000")
    case True
    obtain st' where st': "repair_flush st ?ops = (st', None)" "mem_invar st'"
        "mem_view st' = view_ops (mem_view st) ?ops" "mem_view st' CFKVData = mem_view st CFKVData"
      using repair_flush_view [OF Cons.prems(1) ops] by blast
    have "entry_ops c st' = entry_ops c st"
      using repair_entry_cong [OF st'(2) Cons.prems(1) st'(4)] by (simp add: fun_eq_iff entry_ops_def)
    then show ?thesis
      using Cons.IH [OF st'(2) Cons.prems(2), of "[]"] Cons.prems(3) tot(1) True st'(1,3)
      by (auto simp: e view_ops_append)
  next
    case False
    then show ?thesis
      using Cons.IH [OF Cons.prems(1,2) _ ops] Cons.prems(3) tot(1) by (auto simp: e)
  qed
qed

text \<open>The operations of the other pointers do not touch a pointer.\<close>

lemma view_entries_other:
  assumes "mem_invar st" "marshals_pointers c" "\<forall>(ns, k, lp) \<in> set es. short_ns ns"
    and "short_ns ns" "\<forall>(ns', k', lp') \<in> set es. (ns', k') \<noteq> (ns, k)"
  shows "view_ops v (concat (map (entry_ops c st) es)) CFKVMeta (latestKey ns k) = v CFKVMeta (latestKey ns k)"
proof (rule view_ops_other)
  fix op assume "op \<in> set (concat (map (entry_ops c st) es))"
  then obtain ns' k' lp' where e: "(ns', k', lp') \<in> set es" "op \<in> set (entry_ops c st (ns', k', lp'))" by auto
  then have "own_op ns' k' op" "(ns', k') \<noteq> (ns, k)"
    using repair_entry_total(2) [OF assms(1,2), of ns'] assms(3,5) by auto
  then show "op_CF op \<noteq> CFKVMeta \<or> op_Key op \<noteq> latestKey ns k"
    using assms(4) latestKey_neq_ttlKey by (fastforce simp: own_op_def)
qed

text \<open>The decoded latest pointer of a key.\<close>

definition pointer_at :: "proto_codec \<Rightarrow> kv_view \<Rightarrow> bytes \<Rightarrow> bytes \<Rightarrow> latest_pointer option" where
  "pointer_at c v ns k = Option.bind (v CFKVMeta (latestKey ns k)) (unmarshal_pointer c)"

text \<open>The layout of a restored store: the keys below the index are latest-pointer keys, the versioned
  records are stored under their own keys.\<close>

definition cut_layout :: "proto_codec \<Rightarrow> kv_view \<Rightarrow> bool" where
  "cut_layout c v \<longleftrightarrow>
     (\<forall>key b. v CFKVMeta key = Some b \<and> key < ttlLowBound \<longrightarrow> (\<exists>ns k. short_ns ns \<and> key = latestKey ns k)) \<and>
     (\<forall>key b. v CFKVData key = Some b \<longrightarrow> (\<exists>r. unmarshal_record c b = Some r \<and>
        key = dataKey (Namespace r) (LogicalKey r) (rec_ver r)))"

lemma collected_entries:
  assumes st: "mem_invar st" and lay: "cut_layout c (mem_view st)"
  shows "\<exists>rows. MemStore_Scan st CFKVMeta None (Some ttlLowBound) 0 = Inr rows \<and>
    (\<forall>ns k lp. (ns, k, lp) \<in> set (List.map_filter (lp_entry_of c) rows) \<longleftrightarrow>
       short_ns ns \<and> pointer_at c (mem_view st) ns k = Some lp) \<and>
    distinct (map (\<lambda>(ns, k, lp). latestKey ns k) (List.map_filter (lp_entry_of c) rows))"
proof -
  obtain rows where rows: "MemStore_Scan st CFKVMeta None (Some ttlLowBound) 0 = Inr rows"
      "range_rows (mem_view st CFKVMeta) None (Some ttlLowBound) rows"
    using mem.scan_all [OF st] by blast
  have row: "(key, b) \<in> set rows \<longleftrightarrow> mem_view st CFKVMeta key = Some b \<and> key < ttlLowBound" for key b
    using rows(2) by (simp add: range_rows_def in_range_def)
  have parse: "parseLatestKey (latestKey ns k) = Some (ns, k)" if "short_ns ns" for ns k
    using that by (intro parseLatestKey_latestKey) (simp add: short_ns_def)
  have ent: "lp_entry_of c (latestKey ns k, b) = map_option (\<lambda>lp. (ns, k, lp)) (unmarshal_pointer c b)"
    if "short_ns ns" for ns k b
    using parse [OF that] by (simp add: lp_entry_of_def DecodeLatestPointer_def split: option.split)
  have short: "\<exists>ns k. short_ns ns \<and> fst x = latestKey ns k" if "x \<in> set rows" for x
    using lay row [of "fst x" "snd x"] that by (auto simp: cut_layout_def)
  have key: "fst x = latestKey ns k \<and> short_ns ns \<and> unmarshal_pointer c (snd x) = Some lp"
    if "x \<in> set rows" "lp_entry_of c x = Some (ns, k, lp)" for x ns k lp
    using short [OF that(1)] that(2) ent by (cases x) auto
  have "(ns, k, lp) \<in> set (List.map_filter (lp_entry_of c) rows) \<longleftrightarrow>
      short_ns ns \<and> pointer_at c (mem_view st) ns k = Some lp" for ns k lp
  proof
    assume "(ns, k, lp) \<in> set (List.map_filter (lp_entry_of c) rows)"
    then obtain key' b where x: "(key', b) \<in> set rows" "lp_entry_of c (key', b) = Some (ns, k, lp)"
      by (auto simp: set_map_filter_iff)
    then show "short_ns ns \<and> pointer_at c (mem_view st) ns k = Some lp"
      using key [OF x] row [of key' b] by (simp add: pointer_at_def)
  next
    assume A: "short_ns ns \<and> pointer_at c (mem_view st) ns k = Some lp"
    then obtain b where b: "mem_view st CFKVMeta (latestKey ns k) = Some b" "unmarshal_pointer c b = Some lp"
      by (auto simp: pointer_at_def bind_eq_Some_conv)
    then have "(latestKey ns k, b) \<in> set rows" using A row latestKey_below_ttl by blast
    then show "(ns, k, lp) \<in> set (List.map_filter (lp_entry_of c) rows)"
      using ent [of ns k b] A b by (force simp: set_map_filter_iff)
  qed
  moreover have "sorted_wrt (<) (map (\<lambda>(ns, k, lp). latestKey ns k) (List.map_filter (lp_entry_of c) rows))"
    by (rule map_filter_keys_sorted) (use rows(2) key in \<open>auto simp: range_rows_def\<close>)
  ultimately show ?thesis using rows(1) by (auto simp: strict_sorted_iff)
qed

lemma decode_marshalled:
  assumes "marshals_pointers c" "codec_ok c"
  shows "Option.bind (Option.bind nlp (marshal_pointer c)) (unmarshal_pointer c) = nlp"
proof (cases nlp)
  case (Some p)
  obtain b where "marshal_pointer c p = Some b" using assms(1) by (auto simp: marshals_pointers_def)
  then show ?thesis using Some codec_pointer [OF assms(2)] by simp
qed simp

lemma distinct_key_split:
  assumes "distinct (map (\<lambda>(ns, k, lp). latestKey ns k) (as @ (ns, k, lp) # bs))"
  shows "\<forall>(ns', k', lp') \<in> set as. (ns', k') \<noteq> (ns, k)" "\<forall>(ns', k', lp') \<in> set bs. (ns', k') \<noteq> (ns, k)"
proof -
  have "latestKey ns k \<notin> (\<lambda>(ns, k, lp). latestKey ns k) ` set as"
      "latestKey ns k \<notin> (\<lambda>(ns, k, lp). latestKey ns k) ` set bs"
    using assms by auto
  then show "\<forall>(ns', k', lp') \<in> set as. (ns', k') \<noteq> (ns, k)" "\<forall>(ns', k', lp') \<in> set bs. (ns', k') \<noteq> (ns, k)"
    by (auto simp: image_iff split_beta)
qed

text \<open>What the pass does to the pointer of one key.\<close>

definition pass_spec :: "proto_codec \<Rightarrow> kv_view \<Rightarrow> kv_view \<Rightarrow> bytes \<Rightarrow> bytes \<Rightarrow> bool" where
  "pass_spec c v v' ns k \<longleftrightarrow> (case pointer_at c v ns k of
     None \<Rightarrow> pointer_at c v' ns k = None
   | Some lp \<Rightarrow>
       if present v ns k (lp_ver lp)
       then pointer_at c v' ns k =
         Some (if \<forall>s \<in> set (lp_SiblingVersions lp). pb_present v ns k s then lp else kept_pointer v ns k lp)
       else repointed c v ns k lp (pointer_at c v' ns k))"

lemma pass_spec_entry:
  assumes st: "mem_invar st" and c: "marshals_pointers c" "codec_ok c" and ns: "short_ns ns"
    and ptr: "pointer_at c (mem_view st) ns k = Some lp"
    and u: "u CFKVMeta (latestKey ns k) = mem_view st CFKVMeta (latestKey ns k)"
    and v: "v CFKVMeta (latestKey ns k) = view_ops u (entry_ops c st (ns, k, lp)) CFKVMeta (latestKey ns k)"
  shows "pass_spec c (mem_view st) v ns k"
proof (cases "present (mem_view st) ns k (lp_ver lp)")
  case True
  obtain ops where ops: "repair_entry c st (ns, k, lp) = Inr ops" "view_ops u ops CFKVMeta (latestKey ns k) =
      (if \<forall>s \<in> set (lp_SiblingVersions lp). pb_present (mem_view st) ns k s then u CFKVMeta (latestKey ns k)
       else marshal_pointer c (kept_pointer (mem_view st) ns k lp))"
    using repair_entry_kept [OF st c(1) True, of u] by blast
  then have "pointer_at c v ns k = Some (if \<forall>s \<in> set (lp_SiblingVersions lp). pb_present (mem_view st) ns k s
      then lp else kept_pointer (mem_view st) ns k lp)"
    using ptr u v decode_marshalled [OF c, of "Some (kept_pointer (mem_view st) ns k lp)"]
    by (auto simp: pointer_at_def entry_ops_def)
  then show ?thesis using True ptr by (simp add: pass_spec_def)
next
  case False
  obtain ops nlp where ops: "repair_entry c st (ns, k, lp) = Inr ops" "repointed c (mem_view st) ns k lp nlp"
      "view_ops u ops CFKVMeta (latestKey ns k) = Option.bind nlp (marshal_pointer c)"
    using repair_entry_gone [OF st c(1) ns False, of u] by blast
  then have "pointer_at c v ns k = nlp"
    using v decode_marshalled [OF c, of nlp] by (simp add: pointer_at_def entry_ops_def)
  then show ?thesis using False ptr ops(2) by (simp add: pass_spec_def)
qed

lemma RepairCutMeta_pass:
  assumes st: "mem_invar st" and c: "marshals_pointers c" "codec_ok c" and lay: "cut_layout c (mem_view st)"
  shows "\<exists>st'. RepairCutMeta c st = (st', None) \<and> mem_view st' CFKVData = mem_view st CFKVData \<and>
    (\<forall>ns k. short_ns ns \<longrightarrow> pass_spec c (mem_view st) (mem_view st') ns k)"
proof -
  obtain rows where rows: "MemStore_Scan st CFKVMeta None (Some ttlLowBound) 0 = Inr rows"
      "\<forall>ns k lp. (ns, k, lp) \<in> set (List.map_filter (lp_entry_of c) rows) \<longleftrightarrow>
         short_ns ns \<and> pointer_at c (mem_view st) ns k = Some lp"
      "distinct (map (\<lambda>(ns, k, lp). latestKey ns k) (List.map_filter (lp_entry_of c) rows))"
    using collected_entries [OF st lay] by blast
  define es where "es = List.map_filter (lp_entry_of c) rows"
  have short: "\<forall>(ns, k, lp) \<in> set es. short_ns ns" using rows(2) by (auto simp: es_def)
  obtain st' where st': "repair_loop c st es [] = (st', None)" "mem_invar st'"
      "mem_view st' = view_ops (mem_view st) (concat (map (entry_ops c st) es))"
    using repair_loop_view [OF st c(1) short, of "[]"] by auto
  have "mem_view st' CFKVData key = mem_view st CFKVData key" for key
    unfolding st'(3)
    by (rule view_ops_other) (use repair_entry_total(2) [OF st c(1)] short in \<open>fastforce simp: own_op_def\<close>)
  then have data: "mem_view st' CFKVData = mem_view st CFKVData" by (rule ext)
  have "pass_spec c (mem_view st) (mem_view st') ns k" if ns: "short_ns ns" for ns k
  proof (cases "pointer_at c (mem_view st) ns k")
    case None
    then have "\<forall>(ns', k', lp') \<in> set es. (ns', k') \<noteq> (ns, k)" using rows(2) by (auto simp: es_def)
    then show ?thesis
      using view_entries_other [OF st c(1) short ns] None by (simp add: pass_spec_def pointer_at_def st'(3))
  next
    case (Some lp)
    then have "(ns, k, lp) \<in> set es" using rows(2) ns by (simp add: es_def)
    then obtain as bs where es: "es = as @ (ns, k, lp) # bs" by (meson split_list)
    note other = distinct_key_split [OF rows(3) [folded es_def, unfolded es]]
    have sh: "\<forall>(ns, k, lp) \<in> set as. short_ns ns" "\<forall>(ns, k, lp) \<in> set bs. short_ns ns"
      using short es by auto
    show ?thesis
      by (rule pass_spec_entry [OF st c ns Some, where u = "view_ops (mem_view st) (concat (map (entry_ops c st) as))"])
        (simp_all add: st'(3) es view_ops_append view_entries_other [OF st c(1) sh(1) ns other(1)]
          view_entries_other [OF st c(1) sh(2) ns other(2)])
  qed
  moreover have "RepairCutMeta c st = (st', None)" using rows(1) st'(1) by (simp add: RepairCutMeta_def es_def)
  ultimately show ?thesis using data by blast
qed

lemma survivors_present:
  assumes "cut_layout c v"
  shows "rec_ver ` survivors c v ns k = {ver. present v ns k ver}"
proof -
  have own: "\<exists>r. unmarshal_record c b = Some r \<and> key = dataKey (Namespace r) (LogicalKey r) (rec_ver r)"
    if "v CFKVData key = Some b" for key b
    using assms that unfolding cut_layout_def by blast
  have "present v ns k (rec_ver r)" if r: "r \<in> survivors c v ns k" for r
  proof -
    obtain key b where b: "v CFKVData key = Some b" "prefix (dataKeyPrefix ns k) key" "unmarshal_record c b = Some r"
      using r by (auto simp: survivors_def)
    then have "key = dataKey (Namespace r) (LogicalKey r) (rec_ver r)" using own [OF b(1)] by simp
    then show ?thesis using b(1,2) by (simp add: prefix_dataKeyPrefix present_def)
  qed
  moreover have "\<exists>r \<in> survivors c v ns k. rec_ver r = ver" if pres: "present v ns k ver" for ver
  proof -
    obtain b where b: "v CFKVData (dataKey ns k ver) = Some b" using pres by (auto simp: present_def)
    obtain r where "unmarshal_record c b = Some r" "ver = rec_ver r" using own [OF b] by auto
    then show ?thesis using b prefix_dataKeyPrefix [of ns k ns k ver] by (auto simp: survivors_def)
  qed
  ultimately show ?thesis by blast
qed

text \<open>The guarantee for one key, and that the pass gives it.\<close>

definition no_dangling :: "proto_codec \<Rightarrow> kv_view \<Rightarrow> kv_view \<Rightarrow> bytes \<Rightarrow> bytes \<Rightarrow> bool" where
  "no_dangling c v v' ns k \<longleftrightarrow> (case pointer_at c v' ns k of
     None \<Rightarrow> pointer_at c v ns k = None \<or> (\<forall>ver. \<not> present v ns k ver)
   | Some p \<Rightarrow>
       present v' ns k (lp_ver p) \<and>
       (\<forall>s \<in> set (lp_SiblingVersions p). present v' ns k (Version_FromProto (Some s))) \<and>
       (\<exists>lp. pointer_at c v ns k = Some lp \<and>
         (if present v ns k (lp_ver lp)
          then lp_Winner p = lp_Winner lp \<and> lp_Tombstone p = lp_Tombstone lp \<and>
            lp_ExpiresAtUnixMs p = lp_ExpiresAtUnixMs lp \<and> lp_InlineValue p = lp_InlineValue lp
          else \<forall>ver. present v ns k ver \<longrightarrow> ver \<le> lp_ver p)))"

lemma pass_no_dangling:
  assumes lay: "cut_layout c v" and data: "v' CFKVData = v CFKVData" and spec: "pass_spec c v v' ns k"
  shows "no_dangling c v v' ns k"
proof (cases "pointer_at c v ns k")
  case None
  then show ?thesis using spec by (simp add: pass_spec_def no_dangling_def)
next
  case (Some lp)
  have pres: "present v' = present v" using data by (simp add: fun_eq_iff present_def)
  show ?thesis
  proof (cases "present v ns k (lp_ver lp)")
    case True
    then show ?thesis using spec Some
      by (auto simp: pass_spec_def no_dangling_def pres kept_pointer_def pb_present_def lp_ver_def)
  next
    case False
    then have rep: "repointed c v ns k lp (pointer_at c v' ns k)" using spec Some by (simp add: pass_spec_def)
    note surv = survivors_present [OF lay, of ns k]
    show ?thesis
    proof (cases "pointer_at c v' ns k")
      case None
      then show ?thesis using rep surv by (auto simp: repointed_def no_dangling_def)
    next
      case p: (Some p)
      then obtain w where w: "w \<in> survivors c v ns k" "\<forall>r \<in> survivors c v ns k. rec_ver r \<le> rec_ver w"
          "p = \<lparr>lp_Winner = VersionOf w, lp_SiblingVersions = filter (\<lambda>s. Version_FromProto (Some s) \<noteq> rec_ver w \<and>
               Version_FromProto (Some s) \<in> rec_ver ` survivors c v ns k) (lp_SiblingVersions lp),
             lp_ExpiresAtUnixMs = ExpiresAtUnixMs w, lp_Tombstone = Tombstone w, lp_LocalGeneration = 0,
             lp_InlineValue = InlineValue w\<rparr>"
        using rep unfolding repointed_def by auto
      have ver: "lp_ver p = rec_ver w" by (simp add: w(3) lp_ver_def rec_ver_def)
      have mem: "present v ns k x \<longleftrightarrow> x \<in> rec_ver ` survivors c v ns k" for x using surv by blast
      have "\<forall>ver. present v ns k ver \<longrightarrow> ver \<le> lp_ver p" unfolding mem ver using w(2) by blast
      moreover have "present v ns k (lp_ver p)" unfolding mem ver using w(1) by blast
      moreover have "\<forall>s \<in> set (lp_SiblingVersions p). present v ns k (Version_FromProto (Some s))"
        unfolding mem by (simp add: w(3))
      ultimately show ?thesis using p Some False by (simp add: no_dangling_def pres)
    qed
  qed
qed

section \<open>Properties\<close>


text \<open>A store after a cut: the pointer names the version of \<open>demo_b\<close>, which is gone; \<open>demo_a\<close> survived.\<close>

definition cut_store :: mem_store where
  "cut_store = fst (MemStore_BatchRC NewMemStore
     [put_op CFKVData (dataKey (str ''ns'') (str ''k'') (rec_ver demo_a)) (put_record demo_a),
      put_op CFKVMeta (latestKey (str ''ns'') (str ''k'')) (put_pointer (pointer_of demo_b))])"

lemma cut_store_view:
  "mem_invar cut_store"
  "mem_view cut_store CFKVData = [dataKey (str ''ns'') (str ''k'') (rec_ver demo_a) \<mapsto> put_record demo_a]"
  "mem_view cut_store CFKVMeta = [latestKey (str ''ns'') (str ''k'') \<mapsto> put_pointer (pointer_of demo_b)]"
  using mem.batch_fst [OF mem_invar_New, of "[put_op CFKVData (dataKey (str ''ns'') (str ''k'') (rec_ver demo_a)) (put_record demo_a),
      put_op CFKVMeta (latestKey (str ''ns'') (str ''k'')) (put_pointer (pointer_of demo_b))]"]
  by (simp_all add: cut_store_def put_op_def view_ops_Cons view_op_def)

lemma demo_codec_unmarshal:
  "unmarshal_record demo_codec (put_record r) = Some r" "unmarshal_pointer demo_codec (put_pointer p) = Some p"
  using get_put_record [of r "[]"] get_put_pointer [of p "[]"] by (simp_all add: demo_codec_def)


end
