(* ===== verification/Ttl_Sweeper.thy ===== *)
theory Ttl_Sweeper
  imports Record_Convergence
begin

text \<open>
  The lazy time-to-live sweeper, \<open>src/internal/ttl/ttl.go\<close>, over the record store.  The coordinated
  delete it is given is the argument \<open>tombstone\<close>, a function on the store that also reports success;
  \<open>None\<close> is the \<open>nil\<close> function.  The ticker that repeats the sweep is not modelled.
\<close>

type_synonym tombstone_fn = "store \<Rightarrow> bytes \<Rightarrow> bytes \<Rightarrow> store \<times> bool"

definition Expired :: "i64 option \<Rightarrow> i64 \<Rightarrow> bool" where
  "Expired expiresAtMs nowMs = (case expiresAtMs of Some e \<Rightarrow> sint e \<le> sint nowMs | None \<Rightarrow> False)"

definition sweeper_batch :: int where
  "sweeper_batch = 256"

definition sweep_entry ::
  "proto_codec \<Rightarrow> tombstone_fn option \<Rightarrow> i64 \<Rightarrow> store \<times> nat \<Rightarrow> expired_entry \<Rightarrow> store \<times> nat" where
  "sweep_entry c tombstone now acc e =
     (let (s, emitted) = acc;
          (s, emitted) =
            (case ExpiresAt c s (ee_Namespace e) (ee_Key e) of
               Some x \<Rightarrow>
                 if sint x \<le> sint now
                 then (case tombstone of
                         None \<Rightarrow> (s, emitted)
                       | Some f \<Rightarrow> (case f s (ee_Namespace e) (ee_Key e) of
                             (s', ok) \<Rightarrow> (s', if ok then emitted + 1 else emitted)))
                 else (s, emitted)
             | None \<Rightarrow> (s, emitted))
      in (fst (ClearTTLIndex s (ee_IndexKey e)), emitted))"

definition SweepOnce ::
  "proto_codec \<Rightarrow> tombstone_fn option \<Rightarrow> store \<Rightarrow> i64 \<Rightarrow> store \<times> nat" where
  "SweepOnce c tombstone s now =
     (case ExpiredEntries s now sweeper_batch of
        Inl _ \<Rightarrow> (s, 0)
      | Inr entries \<Rightarrow> foldl (sweep_entry c tombstone now) (s, 0) entries)"

lemma Expired_hides: "Expired (ExpiresAtUnixMs w) now = expired_at now w"
  by (simp add: Expired_def expired_at_def)

text \<open>The sweeper drops the index entry of a key that is not due yet: the entries of the current
  one-minute bucket are visited, only expired keys are tombstoned, but every visited entry is cleared.
  Such a key is never visited again, so it is never tombstoned.\<close>

lemma SweepOnce_clears_undue:
  assumes "ExpiredEntries s now sweeper_batch = Inr [e]"
    and "ExpiresAt c s (ee_Namespace e) (ee_Key e) = Some x" "sint now < sint x"
  shows "SweepOnce c tombstone s now = (fst (ClearTTLIndex s (ee_IndexKey e)), 0)"
  using assms by (simp add: SweepOnce_def sweep_entry_def)

end
