(* ===== verification/Conflict.thy ===== *)
theory Conflict
  imports Records "HOL-Library.Multiset"
begin

text \<open>
  Conflict resolution, \<open>src/internal/conflict\<close>: the \<open>Resolver\<close> interface (the locale \<open>resolver\<close>), the
  two resolvers of v1, last-write-wins (hlc_lww.go) and keep-siblings (keep_siblings.go), and the
  policy registry (resolver.go, deferred.go).

  A Go map iterates in an unspecified order; the map of keep-siblings is an association list here,
  and \<open>KeepSiblings_iteration_order\<close> shows that the resolver's answer does not depend on that order.
\<close>

section \<open>Results\<close>

datatype result_kind = KindWinner | KindTombstone | KindSiblings | KindReject

record resolve_result =
  res_Kind :: result_kind
  res_Record :: "stored_record option"
  res_Siblings :: "stored_record list"
  res_Reason :: bytes

definition reject :: resolve_result where
  "reject = \<lparr>res_Kind = KindReject, res_Record = None, res_Siblings = [],
     res_Reason = str ''no records to resolve''\<rparr>"

definition single :: "stored_record \<Rightarrow> resolve_result" where
  "single r = \<lparr>res_Kind = (if Tombstone r then KindTombstone else KindWinner),
     res_Record = Some r, res_Siblings = [], res_Reason = []\<rparr>"

section \<open>Last write wins\<close>

fun lww_loop :: "stored_record option list \<Rightarrow> stored_record option \<Rightarrow> stored_record option" where
  "lww_loop [] winner = winner"
| "lww_loop (e # es) winner = lww_loop es
     (case e of None \<Rightarrow> winner
      | Some r \<Rightarrow> (case winner of None \<Rightarrow> Some r
          | Some w \<Rightarrow> if Version_Compare (rec_ver r) (rec_ver w) > 0 then Some r else Some w))"

definition HLCLastWriteWins_Resolve ::
  "stored_record option list \<Rightarrow> stored_record option \<Rightarrow> resolve_result" where
  "HLCLastWriteWins_Resolve existing incoming =
     (case lww_loop existing incoming of
        None \<Rightarrow> reject
      | Some winner \<Rightarrow>
          if Tombstone winner
          then \<lparr>res_Kind = KindTombstone, res_Record = Some winner, res_Siblings = [], res_Reason = []\<rparr>
          else \<lparr>res_Kind = KindWinner, res_Record = Some winner, res_Siblings = [], res_Reason = []\<rparr>)"

section \<open>Keep siblings\<close>

definition writer_key :: "version \<Rightarrow> bytes" where
  "writer_key v = WriterClusterID v @ [0] @ WriterMemberID v"

definition consider_record ::
  "(bytes \<times> stored_record) list \<Rightarrow> stored_record option \<Rightarrow> (bytes \<times> stored_record) list" where
  "consider_record byWriter r =
     (case r of None \<Rightarrow> byWriter
      | Some r \<Rightarrow>
          (let v = rec_ver r; w = writer_key v in
           case map_of byWriter w of
             None \<Rightarrow> AList.update w r byWriter
           | Some cur \<Rightarrow>
               if Version_Compare v (rec_ver cur) > 0 then AList.update w r byWriter else byWriter))"

definition KeepSiblings_Resolve ::
  "stored_record option list \<Rightarrow> stored_record option \<Rightarrow> resolve_result" where
  "KeepSiblings_Resolve existing incoming =
     (let byWriter = consider_record (foldl consider_record [] existing) incoming;
          sibs = sort_key rec_ver (map snd byWriter)
      in if byWriter = [] then reject
         else case sibs of
           [s] \<Rightarrow> if Tombstone s
             then \<lparr>res_Kind = KindTombstone, res_Record = Some s, res_Siblings = [], res_Reason = []\<rparr>
             else \<lparr>res_Kind = KindWinner, res_Record = Some s, res_Siblings = [], res_Reason = []\<rparr>
         | _ \<Rightarrow> \<lparr>res_Kind = KindSiblings, res_Record = None, res_Siblings = sibs, res_Reason = []\<rparr>)"

section \<open>Registry\<close>

type_synonym resolver_fn = "stored_record option list \<Rightarrow> stored_record option \<Rightarrow> resolve_result"

record registry =
  resolvers :: "bytes \<rightharpoonup> resolver_fn"
  fallback :: resolver_fn

definition PolicyHLCLastWriteWins :: bytes where
  "PolicyHLCLastWriteWins = str ''hlc-last-write-wins''"

definition PolicyKeepSiblings :: bytes where
  "PolicyKeepSiblings = str ''keep-siblings''"

definition NewRegistry :: registry where
  "NewRegistry = \<lparr>resolvers = [PolicyHLCLastWriteWins \<mapsto> HLCLastWriteWins_Resolve,
       PolicyKeepSiblings \<mapsto> KeepSiblings_Resolve],
     fallback = HLCLastWriteWins_Resolve\<rparr>"

definition Registry_Register :: "registry \<Rightarrow> bytes \<Rightarrow> resolver_fn \<Rightarrow> registry" where
  "Registry_Register r policy f = r\<lparr>resolvers := (resolvers r)(policy \<mapsto> f)\<rparr>"

definition Registry_Resolver :: "registry \<Rightarrow> bytes \<Rightarrow> resolver_fn" where
  "Registry_Resolver r policy =
     (case resolvers r policy of Some f \<Rightarrow> f | None \<Rightarrow> fallback r)"

definition DeferredPolicies :: "bytes list" where
  "DeferredPolicies = [str ''crdt-g-counter'', str ''crdt-pn-counter'', str ''crdt-or-set'',
     str ''crdt-lww-register'', str ''application'']"

section \<open>The resolver interface\<close>

text \<open>The candidates of a resolution: the non-nil existing records and the incoming one.\<close>

definition candidates :: "stored_record option list \<Rightarrow> stored_record option \<Rightarrow> stored_record set" where
  "candidates existing incoming = {r. Some r \<in> set existing \<or> incoming = Some r}"

text \<open>The contract of \<open>Resolver\<close>: the answer depends only on the set of candidates (not on their
  order, on repetitions or on which of them arrives last), as long as one version names one record;
  whatever it selects is a candidate; and some candidate is always selected.\<close>

locale resolver =
  fixes resolve :: "stored_record option list \<Rightarrow> stored_record option \<Rightarrow> resolve_result"
  assumes order_free: "\<lbrakk>candidates ex inc = candidates ex' inc';
      inj_on rec_ver (candidates ex inc)\<rbrakk> \<Longrightarrow> resolve ex inc = resolve ex' inc'"
    and selects: "res_Record (resolve ex inc) = Some r \<or> r \<in> set (res_Siblings (resolve ex inc)) \<Longrightarrow>
      r \<in> candidates ex inc"
    and rejects_iff: "res_Kind (resolve ex inc) = KindReject \<longleftrightarrow> candidates ex inc = {}"
begin

lemma resolve_swap:
  assumes "inj_on rec_ver {a, b}"
  shows "resolve [Some a] (Some b) = resolve [Some b] (Some a)"
  by (rule order_free) (use assms in \<open>auto simp: candidates_def insert_commute
      intro: inj_on_subset\<close>)

lemma resolve_replay:
  assumes "inj_on rec_ver (candidates ex inc)" "Some r \<in> set ex"
  shows "resolve ex inc = resolve (ex @ [Some r]) inc"
  by (rule order_free) (use assms in \<open>auto simp: candidates_def\<close>)

lemma resolve_perm:
  assumes "inj_on rec_ver (candidates ex inc)" "mset (inc # ex) = mset (inc' # ex')"
  shows "resolve ex inc = resolve ex' inc'"
proof (rule order_free)
  have "set (inc # ex) = set (inc' # ex')" using assms(2) by (rule mset_eq_setD)
  then have "Some r \<in> set (inc # ex) \<longleftrightarrow> Some r \<in> set (inc' # ex')" for r by simp
  then show "candidates ex inc = candidates ex' inc'"
    by (auto simp: candidates_def eq_commute [of _ "Some _"])
qed (rule assms(1))

end

section \<open>The resolvers implement the interface\<close>

subsection \<open>Last write wins\<close>

lemma candidates_None [simp]: "candidates (None # es) w = candidates es w"
  by (auto simp: candidates_def)

lemma candidates_Some: "candidates es (Some r) = insert r (candidates es None)"
  by (auto simp: candidates_def)

lemma candidates_Cons_Some: "candidates (Some r # es) w = insert r (candidates es w)"
  by (auto simp: candidates_def)

lemma finite_candidates [simp]: "finite (candidates es w)"
proof -
  have "candidates es w = (\<Union>x \<in> insert w (set es). set_option x)"
    by (auto simp: candidates_def)
  then show ?thesis by simp
qed

lemma lww_loop_spec:
  "(case lww_loop es w of None \<Rightarrow> candidates es w = {}
    | Some r \<Rightarrow> r \<in> candidates es w \<and> (\<forall>r' \<in> candidates es w. rec_ver r' \<le> rec_ver r))"
proof (induction es arbitrary: w)
  case Nil
  then show ?case by (cases w) (auto simp: candidates_def)
next
  case (Cons e es)
  show ?case
  proof (cases e)
    case None
    then show ?thesis using Cons.IH [of w] by (auto split: option.splits)
  next
    case (Some r)
    then show ?thesis using Cons.IH [of "Some r"] Cons.IH [of w]
      by (cases w) (auto simp: candidates_Cons_Some candidates_Some split: option.splits if_splits)
  qed
qed

lemma lww_loop_unique:
  assumes "inj_on rec_ver (candidates es w)" "r \<in> candidates es w"
    "\<forall>r' \<in> candidates es w. rec_ver r' \<le> rec_ver r"
  shows "lww_loop es w = Some r"
  using lww_loop_spec [of es w] assms
  by (auto split: option.splits dest: inj_onD intro: order_antisym)

lemma lww_loop_order_free:
  assumes eq: "candidates ex inc = candidates ex' inc'" and inj: "inj_on rec_ver (candidates ex inc)"
  shows "lww_loop ex inc = lww_loop ex' inc'"
proof (cases "lww_loop ex' inc'")
  case None
  then show ?thesis using lww_loop_spec [of ex' inc'] lww_loop_spec [of ex inc] eq
    by (auto split: option.splits)
next
  case (Some r)
  then show ?thesis using lww_loop_spec [of ex' inc'] lww_loop_unique [OF inj] eq by auto
qed

interpretation lww: resolver HLCLastWriteWins_Resolve
proof unfold_locales
  show "HLCLastWriteWins_Resolve ex inc = HLCLastWriteWins_Resolve ex' inc'"
    if "candidates ex inc = candidates ex' inc'" "inj_on rec_ver (candidates ex inc)"
    for ex inc ex' inc'
    unfolding HLCLastWriteWins_Resolve_def lww_loop_order_free [OF that] ..
  show "r \<in> candidates ex inc"
    if "res_Record (HLCLastWriteWins_Resolve ex inc) = Some r \<or>
        r \<in> set (res_Siblings (HLCLastWriteWins_Resolve ex inc))" for ex inc r
    using that lww_loop_spec [of ex inc]
    by (auto simp: HLCLastWriteWins_Resolve_def reject_def split: option.splits if_splits)
  show "res_Kind (HLCLastWriteWins_Resolve ex inc) = KindReject \<longleftrightarrow> candidates ex inc = {}" for ex inc
    using lww_loop_spec [of ex inc]
    by (auto simp: HLCLastWriteWins_Resolve_def reject_def split: option.splits)
qed

subsection \<open>Keep siblings\<close>

text \<open>What the writer map holds after a set of records was considered: for every writer the
  record with its highest version.\<close>

definition writer_heads :: "stored_record set \<Rightarrow> stored_record set" where
  "writer_heads C = {r \<in> C. \<forall>r' \<in> C. writer_key (rec_ver r') = writer_key (rec_ver r) \<longrightarrow>
     rec_ver r' \<le> rec_ver r}"

definition writer_best :: "stored_record set \<Rightarrow> bytes \<Rightarrow> stored_record option \<Rightarrow> bool" where
  "writer_best C w b = (case b of
        None \<Rightarrow> \<forall>c \<in> C. writer_key (rec_ver c) \<noteq> w
      | Some r \<Rightarrow> r \<in> C \<and> writer_key (rec_ver r) = w \<and>
          (\<forall>c \<in> C. writer_key (rec_ver c) = w \<longrightarrow> rec_ver c \<le> rec_ver r))"

definition by_writer_inv :: "stored_record set \<Rightarrow> (bytes \<times> stored_record) list \<Rightarrow> bool" where
  "by_writer_inv C m \<longleftrightarrow> distinct (map fst m) \<and> (\<forall>w. writer_best C w (map_of m w))"

lemma by_writer_inv_empty: "by_writer_inv {} []"
  by (simp add: by_writer_inv_def writer_best_def)

lemma writer_best_insert_other:
  "\<lbrakk>writer_best C w b; w \<noteq> writer_key (rec_ver s)\<rbrakk> \<Longrightarrow> writer_best (insert s C) w b"
  by (auto simp: writer_best_def split: option.splits)

lemma writer_best_insert_same:
  assumes "writer_best C (writer_key (rec_ver s)) b"
  shows "writer_best (insert s C) (writer_key (rec_ver s))
    (case b of None \<Rightarrow> Some s | Some c \<Rightarrow> if rec_ver s > rec_ver c then Some s else Some c)"
  using assms by (auto simp: writer_best_def split: option.splits)

lemma consider_record_map_of:
  "map_of (consider_record m (Some s)) = (map_of m)(writer_key (rec_ver s) :=
     (case map_of m (writer_key (rec_ver s)) of None \<Rightarrow> Some s
      | Some c \<Rightarrow> if rec_ver s > rec_ver c then Some s else Some c))"
  by (auto simp: consider_record_def Let_def update_conv split: option.splits)

lemma by_writer_consider_record:
  assumes "by_writer_inv C m"
  shows "by_writer_inv (C \<union> set_option r) (consider_record m r)"
proof (cases r)
  case None
  then show ?thesis using assms by (simp add: consider_record_def)
next
  case (Some s)
  have "distinct (map fst (consider_record m r))"
    using assms by (auto simp: by_writer_inv_def consider_record_def Let_def distinct_update
        split: option.splits)
  moreover have "writer_best (insert s C) w (map_of (consider_record m r) w)" for w
    using assms writer_best_insert_other [of C w "map_of m w" s]
      writer_best_insert_same [of C s "map_of m (writer_key (rec_ver s))"]
    unfolding by_writer_inv_def Some consider_record_map_of by simp
  ultimately show ?thesis using Some by (simp add: by_writer_inv_def)
qed

lemma by_writer_inv_foldl:
  assumes "by_writer_inv C m"
  shows "by_writer_inv (C \<union> (\<Union>x \<in> set rs. set_option x)) (foldl consider_record m rs)"
  using assms
proof (induction rs arbitrary: C m)
  case (Cons r rs)
  then show ?case using Cons.IH [OF by_writer_consider_record [OF Cons.prems, of r]]
    by (simp add: Un_assoc)
qed simp

lemma by_writer_inv_candidates:
  "by_writer_inv (candidates ex inc) (consider_record (foldl consider_record [] ex) inc)"
proof -
  have "candidates ex inc = (\<Union>x \<in> set ex. set_option x) \<union> set_option inc"
    by (auto simp: candidates_def)
  then show ?thesis
    using by_writer_consider_record [OF by_writer_inv_foldl [OF by_writer_inv_empty]] by simp
qed

lemma by_writer_inv_snd:
  assumes "by_writer_inv C m" "inj_on rec_ver C"
  shows "snd ` set m = writer_heads C"
proof -
  have best: "writer_best C w (map_of m w)" for w using assms(1) by (simp add: by_writer_inv_def)
  have "r \<in> snd ` set m \<longleftrightarrow> (\<exists>w. map_of m w = Some r)" for r
    using assms(1) by (force simp: by_writer_inv_def)
  moreover have "r \<in> writer_heads C" if "map_of m w = Some r" for r w
    using best [of w] that by (auto simp: writer_best_def writer_heads_def)
  moreover have "map_of m (writer_key (rec_ver r)) = Some r" if "r \<in> writer_heads C" for r
    using best [of "writer_key (rec_ver r)"] that inj_onD [OF assms(2)]
    by (fastforce simp: writer_best_def writer_heads_def split: option.splits intro: order_antisym)
  ultimately show ?thesis by blast
qed

text \<open>Two heads never carry the same version, so sorting by version is unambiguous.\<close>

lemma by_writer_inv_inj:
  assumes "by_writer_inv C m"
  shows "inj_on rec_ver (snd ` set m)" "distinct (map snd m)"
proof -
  have key: "w = writer_key (rec_ver r)" if "(w, r) \<in> set m" for w r
  proof -
    have "writer_best C w (Some r)"
      using assms that by (metis by_writer_inv_def map_of_is_SomeI)
    then show ?thesis by (simp add: writer_best_def)
  qed
  have fst: "inj_on fst (set m)" "distinct m"
    using assms by (auto simp: by_writer_inv_def distinct_map)
  show "inj_on rec_ver (snd ` set m)"
  proof (rule inj_onI)
    fix r s assume "r \<in> snd ` set m" "s \<in> snd ` set m" and eq: "rec_ver r = rec_ver s"
    then obtain v w where m: "(v, r) \<in> set m" "(w, s) \<in> set m" by auto
    then have "v = w" using key eq by metis
    then show "r = s" using m fst inj_onD [OF fst(1) _ m] by simp
  qed
  have "inj_on snd (set m)"
    by (rule inj_onI) (metis key prod.collapse)
  then show "distinct (map snd m)" using fst by (simp add: distinct_map)
qed

text \<open>The order in which the writer map is iterated does not matter.\<close>

lemma KeepSiblings_iteration_order:
  assumes "m = consider_record (foldl consider_record [] ex) inc" "mset sibs = mset (map snd m)"
  shows "sort_key rec_ver sibs = sort_key rec_ver (map snd m)"
proof (rule sort_key_inj_key_eq)
  have "set sibs = snd ` set m" using mset_eq_setD [OF assms(2)] by simp
  then show "inj_on rec_ver (set sibs)"
    using by_writer_inv_inj(1) [OF by_writer_inv_candidates] assms(1) by simp
qed (use assms(2) in simp_all)

lemma KeepSiblings_sibs_order_free:
  assumes eq: "candidates ex inc = candidates ex' inc'" and inj: "inj_on rec_ver (candidates ex inc)"
  defines "m \<equiv> consider_record (foldl consider_record [] ex) inc"
    and "m' \<equiv> consider_record (foldl consider_record [] ex') inc'"
  shows "sort_key rec_ver (map snd m) = sort_key rec_ver (map snd m')"
proof -
  have inv: "by_writer_inv (candidates ex inc) m" "by_writer_inv (candidates ex inc) m'"
    unfolding m_def m'_def
    using by_writer_inv_candidates [of ex inc] by_writer_inv_candidates [of ex' inc'] eq by simp_all
  have "set (map snd m) = set (map snd m')"
    using by_writer_inv_snd [OF inv(1) inj] by_writer_inv_snd [OF inv(2) inj] by simp
  then have "mset (map snd m') = mset (map snd m)"
    using by_writer_inv_inj(2) [OF inv(1)] by_writer_inv_inj(2) [OF inv(2)]
    by (metis set_eq_iff_mset_eq_distinct)
  then show ?thesis using KeepSiblings_iteration_order m_def by metis
qed

lemma KeepSiblings_alt:
  "KeepSiblings_Resolve ex inc =
     (case sort_key rec_ver (map snd (consider_record (foldl consider_record [] ex) inc)) of
        [] \<Rightarrow> reject
      | [s] \<Rightarrow> single s
      | sibs \<Rightarrow> \<lparr>res_Kind = KindSiblings, res_Record = None, res_Siblings = sibs, res_Reason = []\<rparr>)"
  (is "_ = (case ?sibs of [] \<Rightarrow> _ | _ \<Rightarrow> _)")
proof (cases "consider_record (foldl consider_record [] ex) inc = []")
  case True
  then show ?thesis by (simp add: KeepSiblings_Resolve_def Let_def)
next
  case False
  then have "?sibs \<noteq> []" by (metis length_0_conv length_map length_sort)
  then show ?thesis using False
    by (auto simp: KeepSiblings_Resolve_def single_def Let_def split: list.splits)
qed

text \<open>The records a resolution selects.\<close>

definition selected :: "resolve_result \<Rightarrow> stored_record list" where
  "selected res = (case res_Record res of Some r \<Rightarrow> [r] | None \<Rightarrow> res_Siblings res)"

lemma selected_KeepSiblings:
  "selected (KeepSiblings_Resolve ex inc) =
    sort_key rec_ver (map snd (consider_record (foldl consider_record [] ex) inc))"
  by (auto simp: KeepSiblings_alt selected_def single_def reject_def split: list.splits)

lemma KeepSiblings_empty_iff:
  "consider_record (foldl consider_record [] ex) inc = [] \<longleftrightarrow> candidates ex inc = {}"
proof
  assume "consider_record (foldl consider_record [] ex) inc = []"
  then show "candidates ex inc = {}"
    using by_writer_inv_candidates [of ex inc] by (auto simp: by_writer_inv_def writer_best_def)
next
  assume "candidates ex inc = {}"
  then have "writer_best {} w (map_of (consider_record (foldl consider_record [] ex) inc) w)" for w
    using by_writer_inv_candidates [of ex inc] by (simp add: by_writer_inv_def)
  then have "map_of (consider_record (foldl consider_record [] ex) inc) w = None" for w
    by (metis (no_types, lifting) empty_iff option.case_eq_if option.exhaust_sel writer_best_def)
  then have "map_of (consider_record (foldl consider_record [] ex) inc) = Map.empty" by (intro ext)
  then show "consider_record (foldl consider_record [] ex) inc = []" by simp
qed

lemma KeepSiblings_heads:
  assumes "inj_on rec_ver (candidates ex inc)"
  shows "set (selected (KeepSiblings_Resolve ex inc)) = writer_heads (candidates ex inc)"
  using by_writer_inv_snd [OF by_writer_inv_candidates assms] by (simp add: selected_KeepSiblings)

interpretation siblings: resolver KeepSiblings_Resolve
proof unfold_locales
  show "KeepSiblings_Resolve ex inc = KeepSiblings_Resolve ex' inc'"
    if "candidates ex inc = candidates ex' inc'" "inj_on rec_ver (candidates ex inc)"
    for ex inc ex' inc'
    unfolding KeepSiblings_alt KeepSiblings_sibs_order_free [OF that] ..
  show "r \<in> candidates ex inc"
    if "res_Record (KeepSiblings_Resolve ex inc) = Some r \<or>
        r \<in> set (res_Siblings (KeepSiblings_Resolve ex inc))" for ex inc r
  proof -
    have "r \<in> set (selected (KeepSiblings_Resolve ex inc))"
      using that by (auto simp: KeepSiblings_alt selected_def single_def reject_def split: list.splits)
    then obtain w where "(w, r) \<in> set (consider_record (foldl consider_record [] ex) inc)"
      by (auto simp: selected_KeepSiblings)
    then have "writer_best (candidates ex inc) w (Some r)"
      using by_writer_inv_candidates [of ex inc] by (metis by_writer_inv_def map_of_is_SomeI)
    then show ?thesis by (simp add: writer_best_def)
  qed
  show "res_Kind (KeepSiblings_Resolve ex inc) = KindReject \<longleftrightarrow> candidates ex inc = {}" for ex inc
  proof -
    have "res_Kind (KeepSiblings_Resolve ex inc) = KindReject \<longleftrightarrow>
      sort_key rec_ver (map snd (consider_record (foldl consider_record [] ex) inc)) = []"
      by (auto simp: KeepSiblings_alt reject_def single_def split: list.splits)
    then show ?thesis by (simp flip: KeepSiblings_empty_iff) (metis length_0_conv length_map length_sort)
  qed
qed

section \<open>Properties\<close>

lemma Registry_Resolver_cases:
  "Registry_Resolver NewRegistry p = HLCLastWriteWins_Resolve \<or>
   Registry_Resolver NewRegistry p = KeepSiblings_Resolve"
  by (simp add: Registry_Resolver_def NewRegistry_def)

text \<open>C16: whatever policy a namespace names, the resolver that the registry of v1 answers with is
  deterministic in the sense its interface asks for: the same records, in any order, with any
  repetition and with any of them taken as the incoming one, give the same result, provided that one
  version names one record.\<close>

theorem Registry_Resolver_order_free:
  assumes "candidates ex inc = candidates ex' inc'" "inj_on rec_ver (candidates ex inc)"
  shows "Registry_Resolver NewRegistry policy ex inc = Registry_Resolver NewRegistry policy ex' inc'"
  using Registry_Resolver_cases [of policy] lww.order_free [OF assms] siblings.order_free [OF assms]
  by auto

text \<open>Records for the examples: written at a millisecond by the member of a cluster.\<close>

definition ex_rec :: "nat \<Rightarrow> char list \<Rightarrow> stored_record" where
  "ex_rec ms c = \<lparr>LogicalKey = str ''k'', ValueOf = None,
     VersionOf = Version_ToProto (Version (of_nat ms) 0 (str c) (str ''m'') 1),
     ExpiresAtUnixMs = None, Tombstone = False, Kind = RECORD_KIND_KV, Namespace = str ''ns'',
     OriginClusterId = str c, OriginMemberId = str ''m'', LocalApplyUnixMs = 0,
     ConflictState = CONFLICT_NONE\<rparr>"

lemma rec_ver_ex_rec [simp]: "rec_ver (ex_rec ms c) = Version (of_nat ms) 0 (str c) (str ''m'') 1"
  by (simp add: rec_ver_def ex_rec_def FromProto_ToProto)

theorem Registry_Resolver_order_free_witness:
  "Registry_Resolver NewRegistry (str ''keep-siblings'') [Some (ex_rec 5 ''a''), None] (Some (ex_rec 7 ''b'')) =
   Registry_Resolver NewRegistry (str ''keep-siblings'')
     [Some (ex_rec 7 ''b''), Some (ex_rec 7 ''b'')] (Some (ex_rec 5 ''a''))"
  by (rule Registry_Resolver_order_free) (auto simp: candidates_def inj_on_def)

text \<open>C17: last write wins selects a candidate with the highest version, reports a tombstone exactly
  when that record is one, and rejects only when there is nothing to resolve.\<close>

theorem HLCLastWriteWins_Resolve_spec:
  "(candidates ex inc = {} \<and> HLCLastWriteWins_Resolve ex inc = reject) \<or>
   (\<exists>r. r \<in> candidates ex inc \<and> rec_ver r = Max (rec_ver ` candidates ex inc) \<and>
        HLCLastWriteWins_Resolve ex inc = single r)"
proof (cases "lww_loop ex inc")
  case None
  then show ?thesis using lww_loop_spec [of ex inc] by (simp add: HLCLastWriteWins_Resolve_def)
next
  case (Some r)
  then have r: "r \<in> candidates ex inc" "\<forall>r' \<in> candidates ex inc. rec_ver r' \<le> rec_ver r"
    using lww_loop_spec [of ex inc] by auto
  then have "Max (rec_ver ` candidates ex inc) = rec_ver r" by (intro Max_eqI) auto
  moreover have "HLCLastWriteWins_Resolve ex inc = single r"
    using Some by (simp add: HLCLastWriteWins_Resolve_def single_def)
  ultimately show ?thesis using r by metis
qed



end
