(* ===== verification/Global_Applier.thy ===== *)
theory Global_Applier
  imports Conflict Record_Convergence
begin

text \<open>
  The inbound side of global replication, \<open>src/internal/replication/global/applier.go\<close>: a mutation from
  another cluster is deduplicated by its identity, resolved against the local winner by the policy of
  its namespace, and written through the record store.  Raw vectors (\<open>src/internal/vector/global.go\<close>)
  take the branch to the vector sink.  The sink and the apply hook are modelled by the list of the calls
  they received.  Deliveries are modelled one after the other.

  The theorem is convergence under the default policy: whatever the order and the repetitions in which
  the mutations arrive, a key ends at the delivered record with the highest version.
\<close>

record global_mutation_id =
  gm_ClusterId :: bytes
  gm_MemberId :: bytes
  gm_WriterSequence :: u64

record global_mutation =
  gm_Id :: global_mutation_id
  gm_Namespace :: bytes
  gm_Key :: bytes
  gm_Record :: "stored_record option"
  gm_Partition :: u32

record applier =
  ap_store :: store
  ap_registry :: registry
  ap_policyFor :: "bytes \<Rightarrow> bytes"
  ap_applied :: "bytes list"
  ap_vectorSink :: "stored_record option list option"
  ap_onApply :: "(bytes \<times> bytes \<times> stored_record option) list option"

definition vecNSPrefix :: bytes where
  "vecNSPrefix = [0] @ str ''vec'' @ [0]"

definition IsMutationNamespace :: "bytes \<Rightarrow> bool" where
  "IsMutationNamespace ns \<longleftrightarrow> prefix vecNSPrefix ns"

definition NewApplier :: "store \<Rightarrow> registry option \<Rightarrow> (bytes \<Rightarrow> bytes) option \<Rightarrow> applier" where
  "NewApplier s reg policyFor =
     \<lparr>ap_store = s, ap_registry = (case reg of Some r \<Rightarrow> r | None \<Rightarrow> NewRegistry),
      ap_policyFor = (case policyFor of Some f \<Rightarrow> f | None \<Rightarrow> (\<lambda>_. PolicyHLCLastWriteWins)),
      ap_applied = [], ap_vectorSink = None, ap_onApply = None\<rparr>"

definition SetOnApply :: "applier \<Rightarrow> applier" where
  "SetOnApply a = a\<lparr>ap_onApply := Some []\<rparr>"

definition SetVectorSink :: "applier \<Rightarrow> applier" where
  "SetVectorSink a = a\<lparr>ap_vectorSink := Some []\<rparr>"

definition mutationKey :: "global_mutation_id \<Rightarrow> bytes" where
  "mutationKey i = gm_ClusterId i @ [0] @ gm_MemberId i @ [0] @ FormatUint (unat (gm_WriterSequence i))"

definition Applied :: "applier \<Rightarrow> global_mutation_id \<Rightarrow> bool" where
  "Applied a i \<longleftrightarrow> mutationKey i \<in> set (ap_applied a)"

text \<open>The write of a resolution: the new store and whether it failed.\<close>

definition apply_resolution ::
  "proto_codec \<Rightarrow> store \<Rightarrow> bytes \<Rightarrow> bytes \<Rightarrow> resolve_result \<Rightarrow> store \<times> store_error option" where
  "apply_resolution c s ns key res =
     (case res_Kind res of
        KindWinner \<Rightarrow>
          (case res_Record res of
             None \<Rightarrow> (s, None)
           | Some r \<Rightarrow> (case Apply c s r MUTATION_KIND_PUT of
               (s', Inl e) \<Rightarrow> (s', Some e) | (s', Inr _) \<Rightarrow> (s', None)))
      | KindTombstone \<Rightarrow>
          (case res_Record res of
             None \<Rightarrow> (s, None)
           | Some r \<Rightarrow> (case Apply c s r MUTATION_KIND_DELETE of
               (s', Inl e) \<Rightarrow> (s', Some e) | (s', Inr _) \<Rightarrow> (s', None)))
      | KindSiblings \<Rightarrow> ApplySiblings c s ns key (res_Siblings res)
      | KindReject \<Rightarrow> (s, None))"

text \<open>\<open>vector.Unwrap\<close> is protobuf decoding: the argument \<open>unwraps\<close> says whether it succeeds.\<close>

definition Applier_Apply ::
  "proto_codec \<Rightarrow> (stored_record option \<Rightarrow> bool) \<Rightarrow> applier \<Rightarrow> global_mutation \<Rightarrow> applier \<times> (store_error + bool)" where
  "Applier_Apply c unwraps a m =
     (let i = mutationKey (gm_Id m) in
      if i \<in> set (ap_applied a) then (a, Inr False)
      else (let ns = gm_Namespace m; key = gm_Key m; incoming = gm_Record m in
        if IsMutationNamespace ns
        then (let a = (case ap_vectorSink a of
                  Some calls \<Rightarrow> if unwraps incoming then a\<lparr>ap_vectorSink := Some (calls @ [incoming])\<rparr> else a
                | None \<Rightarrow> a)
              in (a\<lparr>ap_applied := i # ap_applied a\<rparr>, Inr True))
        else (let existing = (case GetRecord c (ap_store a) ns key of Inr (Some r) \<Rightarrow> [Some r] | _ \<Rightarrow> []);
                  res = Registry_Resolver (ap_registry a) (ap_policyFor a ns) existing incoming
              in case apply_resolution c (ap_store a) ns key res of
                   (s, Some e) \<Rightarrow> (a\<lparr>ap_store := s\<rparr>, Inl e)
                 | (s, None) \<Rightarrow>
                     (let a = a\<lparr>ap_store := s, ap_applied := i # ap_applied a\<rparr>
                      in (case ap_onApply a of
                            Some calls \<Rightarrow>
                              if res_Kind res \<noteq> KindReject
                              then a\<lparr>ap_onApply := Some (calls @ [(ns, key, res_Record res)])\<rparr> else a
                          | None \<Rightarrow> a, Inr True)))))"

section \<open>Delivery under last-write-wins\<close>

fun deliver :: "proto_codec \<Rightarrow> (stored_record option \<Rightarrow> bool) \<Rightarrow> applier \<Rightarrow> global_mutation list \<Rightarrow> applier" where
  "deliver c unwraps a [] = a"
| "deliver c unwraps a (m # ms) = deliver c unwraps (fst (Applier_Apply c unwraps a m)) ms"

text \<open>A record mutation: it carries a record of its own key, outside the vector namespaces.\<close>

definition record_mutation :: "global_mutation \<Rightarrow> bool" where
  "record_mutation m \<longleftrightarrow> \<not> IsMutationNamespace (gm_Namespace m) \<and>
     (\<exists>r. gm_Record m = Some r \<and> Namespace r = gm_Namespace m \<and> LogicalKey r = gm_Key m)"

definition records_of :: "global_mutation set \<Rightarrow> stored_record set" where
  "records_of M = {r. \<exists>m \<in> M. gm_Record m = Some r}"

text \<open>One identity names one mutation.\<close>

definition ids_ok :: "global_mutation set \<Rightarrow> bool" where
  "ids_ok M \<longleftrightarrow> (\<forall>m \<in> M. \<forall>m' \<in> M. mutationKey (gm_Id m) = mutationKey (gm_Id m') \<longrightarrow> gm_Record m = gm_Record m')"

text \<open>The store holds some of the delivered records, among them a winner of every delivered key.\<close>

definition holds_winners :: "proto_codec \<Rightarrow> stored_record set \<Rightarrow> store \<Rightarrow> bool" where
  "holds_winners c D s \<longleftrightarrow> (\<exists>R. repr c R s \<and> R \<subseteq> D \<and> (\<forall>d \<in> D. \<exists>r \<in> R. same_key r d \<and> rec_ver d \<le> rec_ver r))"

definition delivered :: "proto_codec \<Rightarrow> global_mutation set \<Rightarrow> applier \<Rightarrow> bool" where
  "delivered c M a \<longleftrightarrow> ap_registry a = NewRegistry \<and> ap_policyFor a = (\<lambda>_. PolicyHLCLastWriteWins) \<and>
     set (ap_applied a) = (mutationKey \<circ> gm_Id) ` M \<and> holds_winners c (records_of M) (ap_store a)"

lemma lww_resolver [simp]: "Registry_Resolver NewRegistry PolicyHLCLastWriteWins = HLCLastWriteWins_Resolve"
  by (simp add: Registry_Resolver_def NewRegistry_def PolicyHLCLastWriteWins_def PolicyKeepSiblings_def str_def)

lemma covered_winner:
  assumes "R \<subseteq> D" "\<forall>d \<in> D. \<exists>r \<in> R. same_key r d \<and> rec_ver d \<le> rec_ver r" "winner_of R w"
  shows "winner_of D w"
  unfolding winner_of_def
proof (intro conjI ballI impI)
  show "w \<in> D" using assms by (auto simp: winner_of_def)
  fix d assume "d \<in> D" "same_key d w"
  then obtain r where "r \<in> R" "same_key r d" "rec_ver d \<le> rec_ver r" using assms(2) by blast
  then show "rec_ver d \<le> rec_ver w"
    using assms(3) \<open>same_key d w\<close> by (meson order_trans same_key_trans winner_of_def)
qed

text \<open>The local winner that an inbound record is resolved against.\<close>

lemma existing_winner:
  assumes "repr c R s" "codec_ok c" "wf_records c R" "ns_ok (Namespace r)"
  shows "GetRecord c s (Namespace r) (LogicalKey r) = Inr None \<and> (\<forall>x \<in> R. \<not> same_key x r) \<or>
    (\<exists>w. winner_of R w \<and> same_key w r \<and> GetRecord c s (Namespace r) (LogicalKey r) = Inr (Some w))"
proof (cases "\<exists>x \<in> R. same_key x r")
  case True
  then obtain w where w: "winner_of R w" "same_key w r"
    using winner_exists [of R] assms(3) unfolding wf_records_def by (meson same_key_trans)
  then show ?thesis using GetRecord_winner [OF assms(1-3) w(1)] by (auto simp: same_key_def)
next
  case False
  then show ?thesis using GetRecord_absent(1) [OF assms(1,4)] by (auto simp: same_key_def)
qed

text \<open>The resolution keeps one of the local winner and the inbound record, the one with the higher version.\<close>

lemma lww_resolution:
  assumes "existing = [] \<or> existing = [Some w]"
  shows "\<exists>x. HLCLastWriteWins_Resolve existing (Some r) = single x \<and> (x = r \<or> existing = [Some x]) \<and>
    rec_ver r \<le> rec_ver x"
proof -
  have r: "r \<in> candidates existing (Some r)" by (simp add: candidates_def)
  then obtain x where x: "lww_loop existing (Some r) = Some x" "x \<in> candidates existing (Some r)"
      "\<forall>y \<in> candidates existing (Some r). rec_ver y \<le> rec_ver x"
    using lww_loop_spec [of existing "Some r"] by (cases "lww_loop existing (Some r)") auto
  have "HLCLastWriteWins_Resolve existing (Some r) = single x"
    using x(1) by (simp add: HLCLastWriteWins_Resolve_def single_def)
  moreover have "x = r \<or> existing = [Some x]" using x(2) assms by (auto simp: candidates_def)
  ultimately show ?thesis using x(3) r by blast
qed

lemma apply_resolution_single:
  "apply_resolution c s ns k (single x) =
    (case Apply c s x (if Tombstone x then MUTATION_KIND_DELETE else MUTATION_KIND_PUT) of
       (s', Inl e) \<Rightarrow> (s', Some e) | (s', Inr _) \<Rightarrow> (s', None))"
  by (simp add: apply_resolution_def single_def)

lemma holds_winners_step:
  assumes c: "codec_ok c" and wf: "wf_records c (insert r D)" and s: "holds_winners c D s"
    and ex: "existing = (case GetRecord c s (Namespace r) (LogicalKey r) of Inr (Some w) \<Rightarrow> [Some w] | _ \<Rightarrow> [])"
  shows "\<exists>s'. apply_resolution c s (Namespace r) (LogicalKey r) (HLCLastWriteWins_Resolve existing (Some r)) = (s', None) \<and>
    holds_winners c (insert r D) s' \<and> res_Kind (HLCLastWriteWins_Resolve existing (Some r)) \<noteq> KindReject"
proof -
  obtain R where R: "repr c R s" "R \<subseteq> D" "\<forall>d \<in> D. \<exists>r \<in> R. same_key r d \<and> rec_ver d \<le> rec_ver r"
    using s by (auto simp: holds_winners_def)
  have wfR: "wf_records c R" "wf_records c (insert r R)" using wf R(2) by (auto intro: wf_records_subset)
  have ns: "ns_ok (Namespace r)" using wf by (simp add: wf_records_def)
  have exs: "existing = [] \<or> (\<exists>w. winner_of R w \<and> same_key w r \<and> existing = [Some w])"
    using existing_winner [OF R(1) c wfR(1) ns] ex by auto
  then obtain x where x: "HLCLastWriteWins_Resolve existing (Some r) = single x"
      "x = r \<or> existing = [Some x]" "rec_ver r \<le> rec_ver x"
    using lww_resolution [of existing _ r] by blast
  have xR: "x = r \<or> winner_of R x \<and> same_key x r" using exs x(2) by auto
  then have "insert x R \<subseteq> insert r D" using R(2) by (auto simp: winner_of_def)
  then have "wf_records c (insert x R)" using wf by (rule wf_records_subset [rotated])
  then obtain s' y where s': "Apply c s x (if Tombstone x then MUTATION_KIND_DELETE else MUTATION_KIND_PUT) = (s', Inr (rec_ver y))"
      "repr c (insert x R) s'"
    using Apply_repr [OF R(1) c] by blast
  have "holds_winners c (insert r D) s'"
    unfolding holds_winners_def
  proof (intro exI conjI ballI)
    show "repr c (insert x R) s'" by (rule s'(2))
    show "insert x R \<subseteq> insert r D" by fact
    fix d assume "d \<in> insert r D"
    then show "\<exists>y \<in> insert x R. same_key y d \<and> rec_ver d \<le> rec_ver y"
      using R(3) x(3) xR same_key_refl by auto
  qed
  then show ?thesis using s'(1) x(1) by (simp add: apply_resolution_single) (simp add: single_def)
qed

lemma delivered_step:
  assumes c: "codec_ok c" and wf: "wf_records c (records_of (insert m M))" and ids: "ids_ok (insert m M)"
    and m: "record_mutation m" and a: "delivered c M a"
  shows "delivered c (insert m M) (fst (Applier_Apply c unwraps a m))"
proof -
  obtain r where r: "gm_Record m = Some r" "gm_Namespace m = Namespace r" "gm_Key m = LogicalKey r"
      "\<not> IsMutationNamespace (Namespace r)"
    using m by (auto simp: record_mutation_def)
  have recs: "records_of (insert m M) = insert r (records_of M)" using r(1) by (auto simp: records_of_def)
  show ?thesis
  proof (cases "mutationKey (gm_Id m) \<in> set (ap_applied a)")
    case True
    then have "mutationKey (gm_Id m) \<in> (mutationKey \<circ> gm_Id) ` M" using a by (simp add: delivered_def)
    then obtain m' where m': "m' \<in> M" "mutationKey (gm_Id m) = mutationKey (gm_Id m')" by auto
    then have "gm_Record m' = gm_Record m" using ids unfolding ids_ok_def by (metis insertI1 insertI2)
    then have "r \<in> records_of M" using m'(1) r(1) unfolding records_of_def by auto
    then have "records_of (insert m M) = records_of M" unfolding recs by (rule insert_absorb)
    moreover have "(mutationKey \<circ> gm_Id) ` insert m M = (mutationKey \<circ> gm_Id) ` M" using m' by auto
    ultimately show ?thesis using a True by (simp add: Applier_Apply_def delivered_def)
  next
    case False
    define existing where
      "existing = (case GetRecord c (ap_store a) (Namespace r) (LogicalKey r) of Inr (Some w) \<Rightarrow> [Some w] | _ \<Rightarrow> [])"
    have "holds_winners c (records_of M) (ap_store a)" using a by (simp add: delivered_def)
    then obtain s' where s': "apply_resolution c (ap_store a) (Namespace r) (LogicalKey r)
          (HLCLastWriteWins_Resolve existing (Some r)) = (s', None)"
        "holds_winners c (insert r (records_of M)) s'"
      using holds_winners_step [OF c _ _ existing_def] wf recs by metis
    then have "fst (Applier_Apply c unwraps a m) \<in>
        {b. ap_store b = s' \<and> ap_applied b = mutationKey (gm_Id m) # ap_applied a \<and>
            ap_registry b = ap_registry a \<and> ap_policyFor b = ap_policyFor a}"
      using a False r
      by (auto simp: Applier_Apply_def Let_def delivered_def existing_def [symmetric] split: option.split)
    then show ?thesis using a s'(2) by (auto simp: delivered_def recs)
  qed
qed

lemma delivered_all:
  assumes "codec_ok c" "wf_records c (records_of (M \<union> set ms))" "ids_ok (M \<union> set ms)"
    and "\<forall>m \<in> set ms. record_mutation m" "delivered c M a"
  shows "delivered c (M \<union> set ms) (deliver c unwraps a ms)"
  using assms
proof (induction ms arbitrary: M a)
  case (Cons m ms)
  have "wf_records c (records_of (insert m M))"
    using Cons.prems(2) by (rule wf_records_subset) (auto simp: records_of_def)
  moreover have "ids_ok (insert m M)" using Cons.prems(3) by (auto simp: ids_ok_def)
  ultimately have "delivered c (insert m M) (fst (Applier_Apply c unwraps a m))"
    using Cons.prems delivered_step by auto
  then show ?case using Cons.IH [of "insert m M"] Cons.prems by simp
qed simp

lemma delivered_New:
  "delivered c {} (NewApplier (NewStore NewMemStore cl mb clk sq) None None)"
  using repr_NewStore by (auto simp: delivered_def NewApplier_def holds_winners_def records_of_def)

lemma holds_winners_GetRecord:
  assumes "holds_winners c D s" "codec_ok c" "wf_records c D" "ns_ok ns"
  shows "GetRecord c s ns k = Inr None \<and> (\<nexists>r. r \<in> D \<and> Namespace r = ns \<and> LogicalKey r = k) \<or>
    (\<exists>w. winner_of D w \<and> Namespace w = ns \<and> LogicalKey w = k \<and> GetRecord c s ns k = Inr (Some w))"
proof -
  obtain R where R: "repr c R s" "R \<subseteq> D" "\<forall>d \<in> D. \<exists>r \<in> R. same_key r d \<and> rec_ver d \<le> rec_ver r"
    using assms(1) by (auto simp: holds_winners_def)
  have wfR: "wf_records c R" using assms(3) R(2) by (rule wf_records_subset)
  show ?thesis
  proof (cases "\<exists>r \<in> R. Namespace r = ns \<and> LogicalKey r = k")
    case True
    then obtain r where r: "r \<in> R" "Namespace r = ns" "LogicalKey r = k" by blast
    then obtain w where w: "winner_of R w" "same_key w r" using winner_exists wfR unfolding wf_records_def by blast
    then show ?thesis
      using GetRecord_winner [OF R(1) assms(2) wfR w(1)] covered_winner [OF R(2,3) w(1)] r
      by (auto simp: same_key_def)
  next
    case False
    then have "\<nexists>r. r \<in> D \<and> Namespace r = ns \<and> LogicalKey r = k" using R(3) by (force simp: same_key_def)
    then show ?thesis using GetRecord_absent(1) [OF R(1) assms(4) False] by blast
  qed
qed

section \<open>Properties\<close>


text \<open>C9: a replayed mutation is a no-op: once a mutation was applied, delivering it again reports that
  nothing new was applied and changes neither the store nor any hook.\<close>

theorem Applier_Apply_replay:
  assumes "Applier_Apply c unwraps a m = (a', Inr b)"
  shows "Applied a' (gm_Id m) \<and> Applier_Apply c unwraps a' m = (a', Inr False)"
proof -
  have "mutationKey (gm_Id m) \<in> set (ap_applied a')"
    using assms by (auto simp: Applier_Apply_def Let_def split: if_splits prod.splits option.splits)
  then show ?thesis by (simp add: Applied_def Applier_Apply_def)
qed

text \<open>The two concurrent writes of the examples as mutations of their clusters.\<close>

definition demo_mutation :: "stored_record \<Rightarrow> global_mutation" where
  "demo_mutation r = \<lparr>gm_Id = \<lparr>gm_ClusterId = OriginClusterId r, gm_MemberId = OriginMemberId r, gm_WriterSequence = 1\<rparr>,
     gm_Namespace = Namespace r, gm_Key = LogicalKey r, gm_Record = Some r, gm_Partition = 0\<rparr>"

lemma demo_mutations:
  "records_of {demo_mutation demo_a, demo_mutation demo_b} = {demo_a, demo_b}"
  "ids_ok {demo_mutation demo_a, demo_mutation demo_b}"
  "record_mutation (demo_mutation demo_a)" "record_mutation (demo_mutation demo_b)"
proof -
  have "\<not> IsMutationNamespace (str ''ns'')" by (simp add: IsMutationNamespace_def vecNSPrefix_def str_def)
  then show "record_mutation (demo_mutation demo_a)" "record_mutation (demo_mutation demo_b)"
    by (simp_all add: record_mutation_def demo_mutation_def demo_a_def demo_b_def)
  have "mutationKey (gm_Id (demo_mutation demo_a)) \<noteq> mutationKey (gm_Id (demo_mutation demo_b))"
    by (simp add: mutationKey_def demo_mutation_def demo_a_def demo_b_def demo_put_def str_def)
  then show "ids_ok {demo_mutation demo_a, demo_mutation demo_b}" by (auto simp: ids_ok_def)
qed (auto simp: records_of_def demo_mutation_def)


theorem Applier_Apply_replay_witness:
  "\<exists>a. Applier_Apply demo_codec (\<lambda>_. True) (NewApplier demo_store None None)
       ((demo_mutation demo_a)\<lparr>gm_Namespace := vecNSPrefix\<rparr>) = (a, Inr True) \<and>
     Applier_Apply demo_codec (\<lambda>_. True) a ((demo_mutation demo_a)\<lparr>gm_Namespace := vecNSPrefix\<rparr>) = (a, Inr False)"
proof -
  let ?m = "(demo_mutation demo_a)\<lparr>gm_Namespace := vecNSPrefix\<rparr>"
  obtain a where a: "Applier_Apply demo_codec (\<lambda>_. True) (NewApplier demo_store None None) ?m = (a, Inr True)"
    by (simp add: Applier_Apply_def NewApplier_def IsMutationNamespace_def Let_def)
  then show ?thesis using Applier_Apply_replay [OF a] by blast
qed

end
