(* ===== verification/Coll_Command.thy ===== *)
theory Coll_Command
  imports Local_Store
begin

text \<open>
  The log commands of the collections tier, \<open>src/internal/collections/command.go\<close>, and the codecs
  that share its chunk framing: the coalesced batch and its result (proposer.go), the migration and
  freeze commands (migrate.go, freeze.go), the stream framing of snapshots, and the order-preserving
  encoding of a sorted-set score.

  \<open>math.Float64bits\<close> is the bit pattern of a float64; a float64 is that pattern, a 64-bit word.  Its
  numeric value, scaled to an integer, is \<open>float_scaled\<close>.  The pooled encode buffers of the code hold
  the same bytes as \<open>appendCommand\<close> yields.  The decoder's scratch slice only saves an allocation.
\<close>

section \<open>Errors\<close>

text \<open>
  The error values of the package.  \<open>errPanic\<close> is a run-time panic (an index out of range), which
  \<open>applyEntrySafe\<close> recovers from; \<open>fatalErr\<close> and \<open>corruptEntry\<close> are the wrappers of sm_fatal.go.
\<close>

datatype coll_error =
    errShortCommand | errUnknownOp | errShortPool | errShortLease | errShortTomb | errMissingPool
  | errCorruptCard | errCorruptApplied | errUnknownMetaOp | errEOF | errUnexpectedEOF
  | errSnapshotStopped | errPanic | errStorage storage_error
  | fatalErr coll_error | corruptEntry u64 coll_error

section \<open>Opcodes and types\<close>

type_synonym opKind = byte
type_synonym collType = byte

definition opSAdd :: opKind where "opSAdd = 1"
definition opSRem :: opKind where "opSRem = 2"
definition opHSet :: opKind where "opHSet = 3"
definition opHDel :: opKind where "opHDel = 4"
definition opZAdd :: opKind where "opZAdd = 5"
definition opZRem :: opKind where "opZRem = 6"
definition opExpire :: opKind where "opExpire = 7"
definition opIngest :: opKind where "opIngest = 8"
definition opPurge :: opKind where "opPurge = 9"
definition opFreeze :: opKind where "opFreeze = 10"
definition opUnfreeze :: opKind where "opUnfreeze = 11"
definition opHIncrBy :: opKind where "opHIncrBy = 12"
definition opHIncrByFloat :: opKind where "opHIncrByFloat = 13"
definition opRemove :: opKind where "opRemove = 14"
definition opBatch :: opKind where "opBatch = 15"
definition opBudInit :: opKind where "opBudInit = 16"
definition opBudGrant :: opKind where "opBudGrant = 17"
definition opBudReport :: opKind where "opBudReport = 18"
definition opBudReturn :: opKind where "opBudReturn = 19"
definition opBudExpire :: opKind where "opBudExpire = 20"
definition opBudTombGC :: opKind where "opBudTombGC = 21"
definition opBudReconcile :: opKind where "opBudReconcile = 22"

lemmas op_defs = opSAdd_def opSRem_def opHSet_def opHDel_def opZAdd_def opZRem_def opExpire_def
  opIngest_def opPurge_def opFreeze_def opUnfreeze_def opHIncrBy_def opHIncrByFloat_def opRemove_def
  opBatch_def opBudInit_def opBudGrant_def opBudReport_def opBudReturn_def opBudExpire_def
  opBudTombGC_def opBudReconcile_def

definition typeSet :: collType where "typeSet = 1"
definition typeHash :: collType where "typeHash = 2"
definition typeZSet :: collType where "typeZSet = 3"
definition typeBudget :: collType where "typeBudget = 4"

lemmas type_defs = typeSet_def typeHash_def typeZSet_def typeBudget_def

definition collType_String :: "collType \<Rightarrow> bytes" where
  "collType_String t = (if t = typeSet then str ''set'' else if t = typeHash then str ''hash''
     else if t = typeZSet then str ''zset'' else str ''unknown'')"

definition typeForOp :: "opKind \<Rightarrow> collType" where
  "typeForOp op =
     (if op \<in> {opSAdd, opSRem} then typeSet
      else if op \<in> {opHSet, opHDel, opHIncrBy, opHIncrByFloat} then typeHash
      else if op \<in> {opZAdd, opZRem} then typeZSet
      else if op \<in> {opBudInit, opBudGrant, opBudReport, opBudReturn, opBudExpire, opBudTombGC,
                    opBudReconcile} then typeBudget
      else 0)"

definition mutates :: "opKind \<Rightarrow> bool" where
  "mutates op \<longleftrightarrow> typeForOp op \<noteq> 0 \<or> op = opExpire \<or> op = opRemove"

section \<open>Commands\<close>

type_synonym float64 = "64 word"

record item =
  item_Key :: bytes
  item_Val :: bytes
  item_Score :: float64
  item_ExpiryMs :: i64

record coll_command =
  cmd_Op :: opKind
  cmd_NS :: bytes
  cmd_Coll :: bytes
  cmd_Idem :: bytes
  cmd_Items :: "item list"

record propose_result =
  pr_Value :: u64
  pr_Data :: bytes

definition u32_len :: "'a list \<Rightarrow> u32" where
  "u32_len xs = of_nat (length xs)"

definition appendChunk :: "bytes \<Rightarrow> bytes \<Rightarrow> bytes" where
  "appendChunk dst b = dst @ PutUint32 (u32_len b) @ b"

definition takeChunk :: "bytes \<Rightarrow> coll_error + bytes \<times> bytes" where
  "takeChunk b =
     (if length b < 4 then Inl errShortCommand
      else let n = Uint32 (take 4 b); b = drop 4 b in
        if u32_len b < n then Inl errShortCommand
        else Inr (take (unat n) b, drop (unat n) b))"

fun append_items :: "bytes \<Rightarrow> item list \<Rightarrow> bytes" where
  "append_items dst [] = dst"
| "append_items dst (it # its) =
     append_items (appendChunk (appendChunk dst (item_Key it)) (item_Val it)
       @ PutUint64 (item_Score it) @ PutUint64 (item_ExpiryMs it)) its"

definition appendCommand :: "bytes \<Rightarrow> coll_command \<Rightarrow> bytes" where
  "appendCommand dst c =
     (let dst = dst @ [cmd_Op c];
          dst = appendChunk dst (cmd_NS c);
          dst = appendChunk dst (cmd_Coll c);
          dst = appendChunk dst (cmd_Idem c);
          dst = dst @ PutUint32 (u32_len (cmd_Items c))
      in append_items dst (cmd_Items c))"

definition encodeCommand :: "coll_command \<Rightarrow> bytes" where
  "encodeCommand c = appendCommand [] c"

fun take_items :: "nat \<Rightarrow> bytes \<Rightarrow> coll_error + item list" where
  "take_items 0 rest = Inr []"
| "take_items (Suc n) rest =
     (case takeChunk rest of Inl e \<Rightarrow> Inl e | Inr (k, rest) \<Rightarrow>
      (case takeChunk rest of Inl e \<Rightarrow> Inl e | Inr (v, rest) \<Rightarrow>
        if length rest < 16 then Inl errShortCommand
        else
          let it = \<lparr>item_Key = k, item_Val = v, item_Score = Uint64 (take 8 rest),
                    item_ExpiryMs = Uint64 (take 8 (drop 8 rest))\<rparr>
          in (case take_items n (drop 16 rest) of Inl e \<Rightarrow> Inl e | Inr its \<Rightarrow> Inr (it # its))))"

definition decodeCommandInto :: "bytes \<Rightarrow> coll_error + coll_command" where
  "decodeCommandInto b =
     (case b of [] \<Rightarrow> Inl errShortCommand
      | op # rest \<Rightarrow>
        if typeForOp op = 0 \<and> op \<noteq> opExpire \<and> op \<noteq> opRemove then Inl errUnknownOp
        else
         (case takeChunk rest of Inl e \<Rightarrow> Inl e | Inr (ns, rest) \<Rightarrow>
         (case takeChunk rest of Inl e \<Rightarrow> Inl e | Inr (coll, rest) \<Rightarrow>
         (case takeChunk rest of Inl e \<Rightarrow> Inl e | Inr (idem, rest) \<Rightarrow>
           if length rest < 4 then Inl errShortCommand
           else
             (case take_items (unat (Uint32 (take 4 rest))) (drop 4 rest) of
                Inl e \<Rightarrow> Inl e
              | Inr its \<Rightarrow> Inr \<lparr>cmd_Op = op, cmd_NS = ns, cmd_Coll = coll, cmd_Idem = idem,
                               cmd_Items = its\<rparr>)))))"

definition decodeCommand :: "bytes \<Rightarrow> coll_error + coll_command" where
  "decodeCommand b = decodeCommandInto b"

section \<open>Batches and their results\<close>

definition encodeBatchInto :: "bytes \<Rightarrow> bytes list \<Rightarrow> bytes" where
  "encodeBatchInto dst cmds = foldl appendChunk (dst @ [opBatch] @ PutUint32 (u32_len cmds)) cmds"

fun take_chunks :: "nat \<Rightarrow> bytes \<Rightarrow> coll_error + bytes list" where
  "take_chunks 0 rest = Inr []"
| "take_chunks (Suc n) rest =
     (case takeChunk rest of Inl e \<Rightarrow> Inl e | Inr (c, rest) \<Rightarrow>
      (case take_chunks n rest of Inl e \<Rightarrow> Inl e | Inr cs \<Rightarrow> Inr (c # cs)))"

definition decodeBatch :: "bytes \<Rightarrow> coll_error + bytes list" where
  "decodeBatch b =
     (case b of [] \<Rightarrow> Inl errShortCommand
      | op # rest \<Rightarrow>
        if op \<noteq> opBatch then Inl errShortCommand
        else if length rest < 4 then Inl errShortCommand
        else take_chunks (unat (Uint32 (take 4 rest))) (drop 4 rest))"

definition encodeBatchResult :: "bytes \<Rightarrow> propose_result list \<Rightarrow> bytes" where
  "encodeBatchResult dst results =
     foldl (\<lambda>dst r. appendChunk (dst @ PutUint64 (pr_Value r)) (pr_Data r))
       (dst @ PutUint32 (u32_len results)) results"

fun take_results :: "nat \<Rightarrow> bytes \<Rightarrow> coll_error + propose_result list" where
  "take_results 0 rest = Inr []"
| "take_results (Suc n) rest =
     (if length rest < 8 then Inl errShortCommand
      else
       (case takeChunk (drop 8 rest) of Inl e \<Rightarrow> Inl e | Inr (data, r2) \<Rightarrow>
        (case take_results n r2 of Inl e \<Rightarrow> Inl e
         | Inr rs \<Rightarrow> Inr (\<lparr>pr_Value = Uint64 (take 8 rest), pr_Data = data\<rparr> # rs))))"

definition decodeBatchResult :: "bytes \<Rightarrow> int \<Rightarrow> coll_error + propose_result list" where
  "decodeBatchResult b want =
     (if length b < 4 then Inl errShortCommand
      else let n = unat (Uint32 (take 4 b)) in
        if int n \<noteq> want then Inl errShortCommand
        else take_results n (drop 4 b))"

section \<open>Migration and freeze commands\<close>

record rawKV =
  kv_Suffix :: bytes
  kv_Value :: bytes

definition encodeIngest :: "rawKV list \<Rightarrow> bytes" where
  "encodeIngest kvs =
     foldl (\<lambda>buf kv. appendChunk (appendChunk buf (kv_Suffix kv)) (kv_Value kv))
       ([opIngest] @ PutUint32 (u32_len kvs)) kvs"

fun take_kvs :: "nat \<Rightarrow> bytes \<Rightarrow> coll_error + rawKV list" where
  "take_kvs 0 rest = Inr []"
| "take_kvs (Suc n) rest =
     (case takeChunk rest of Inl e \<Rightarrow> Inl e | Inr (sfx, rest) \<Rightarrow>
      (case takeChunk rest of Inl e \<Rightarrow> Inl e | Inr (val, rest) \<Rightarrow>
       (case take_kvs n rest of Inl e \<Rightarrow> Inl e
        | Inr kvs \<Rightarrow> Inr (\<lparr>kv_Suffix = sfx, kv_Value = val\<rparr> # kvs))))"

definition decodeIngest :: "bytes \<Rightarrow> coll_error + rawKV list" where
  "decodeIngest b =
     (if length b < 5 then Inl errShortCommand
      else take_kvs (unat (Uint32 (take 4 (drop 1 b)))) (drop 5 b))"

definition encodePurge :: "bytes \<Rightarrow> bytes \<Rightarrow> bytes" where
  "encodePurge start stop = appendChunk (appendChunk [opPurge] start) stop"

definition decodePurge :: "bytes \<Rightarrow> coll_error + bytes \<times> bytes" where
  "decodePurge b =
     (if length b < 1 then Inl errShortCommand
      else
       (case takeChunk (drop 1 b) of Inl e \<Rightarrow> Inl e | Inr (start, rest) \<Rightarrow>
        (case takeChunk rest of Inl e \<Rightarrow> Inl e | Inr (stop, _) \<Rightarrow> Inr (start, stop))))"

definition encodeFreeze :: "bytes \<Rightarrow> bytes \<Rightarrow> bytes" where
  "encodeFreeze start stop = appendChunk (appendChunk [opFreeze] start) stop"

definition encodeUnfreeze :: "bytes \<Rightarrow> bytes \<Rightarrow> bytes" where
  "encodeUnfreeze start stop = appendChunk (appendChunk [opUnfreeze] start) stop"

section \<open>Stream framing\<close>

text \<open>A writer is the bytes written so far and a reader the bytes still to come.\<close>

definition writeChunk :: "bytes \<Rightarrow> bytes \<Rightarrow> bytes" where
  "writeChunk w b = (w @ PutUint32 (u32_len b)) @ b"

definition readChunk :: "bytes \<Rightarrow> coll_error + bytes \<times> bytes" where
  "readChunk r =
     (if length r = 0 then Inl errEOF
      else if length r < 4 then Inl errUnexpectedEOF
      else let n = unat (Uint32 (take 4 r)); r = drop 4 r in
        if length r < n then Inl errUnexpectedEOF
        else Inr (take n r, drop n r))"

section \<open>Scores\<close>

definition sign_bit :: "64 word" where
  "sign_bit = push_bit 63 1"

definition sortableScore :: "float64 \<Rightarrow> bytes" where
  "sortableScore f = (let bits = f in
     PutUint64 (if and bits sign_bit \<noteq> 0 then not bits else or bits sign_bit))"

definition unsortableScore :: "bytes \<Rightarrow> float64" where
  "unsortableScore b = (let bits = Uint64 b in
     if and bits sign_bit \<noteq> 0 then and bits (not sign_bit) else not bits)"

definition bitsOf :: "float64 \<Rightarrow> bytes" where
  "bitsOf f = PutUint64 f"

definition float64FromBits :: "bytes \<Rightarrow> float64" where
  "float64FromBits b = Uint64 b"

section \<open>Round trips of the codecs\<close>

lemma unat_u32_len [simp, wire_simps]: "length xs < 2 ^ 32 \<Longrightarrow> unat (u32_len xs) = length xs"
  by (simp add: u32_len_def unat_of_nat take_bit_nat_eq_self)

lemma unat_u32_len_le: "unat (u32_len xs) \<le> length xs"
  by (simp add: u32_len_def unat_of_nat take_bit_nat_less_eq_self)

lemma Uint32_take [simp, wire_simps]: "Uint32 (take 4 (PutUint32 w @ rest)) = w"
  by simp

text \<open>\<open>chunk b\<close> is the frame that \<open>appendChunk\<close> appends.\<close>

definition chunk :: "bytes \<Rightarrow> bytes" where
  "chunk b = PutUint32 (u32_len b) @ b"

lemma appendChunk_chunk [wire_simps]: "appendChunk dst b = dst @ chunk b"
  by (simp add: appendChunk_def chunk_def)

lemma length_chunk [simp]: "length (chunk b) = 4 + length b"
  by (simp add: chunk_def)

lemma takeChunk_chunk [simp, wire_simps]:
  assumes "length b < 2 ^ 32" "length b + length rest < 2 ^ 32"
  shows "takeChunk (chunk b @ rest) = Inr (b, rest)"
  using assms by (simp add: takeChunk_def chunk_def word_less_nat_alt not_less)

lemma PutUint64_Uint64: "length b = 8 \<Longrightarrow> PutUint64 (Uint64 b) = b"
  using unbe_less [of b] be_unbe [of b 8]
  by (simp add: PutUint64_def Uint64_def unat_of_nat take_bit_nat_eq_self)

lemma PutUint32_Uint32: "length b = 4 \<Longrightarrow> PutUint32 (Uint32 b) = b"
  using unbe_less [of b] be_unbe [of b 4]
  by (simp add: PutUint32_def Uint32_def unat_of_nat take_bit_nat_eq_self)

lemma take_chunk_ok:
  assumes "takeChunk b = Inr (v, rest)"
  shows "b = chunk v @ rest" "length v < 2 ^ 32"
proof -
  from assms have l: "4 \<le> length b" by (auto simp: takeChunk_def split: if_splits)
  define n where "n = Uint32 (take 4 b)"
  from assms l have n: "n \<le> u32_len (drop 4 b)" and v: "v = take (unat n) (drop 4 b)"
    and r: "rest = drop (unat n) (drop 4 b)"
    by (auto simp: takeChunk_def n_def Let_def split: if_splits)
  have len: "length v = unat n"
    using n unat_u32_len_le [of "drop 4 b"] by (simp add: v word_le_nat_alt)
  then show "length v < 2 ^ 32" using unsigned_less [of n] by simp
  have "u32_len v = n" by (simp add: u32_len_def len)
  moreover have "PutUint32 n = take 4 b"
    using l by (simp add: n_def PutUint32_Uint32)
  moreover have "b = take 4 b @ take (unat n) (drop 4 b) @ drop (unat n) (drop 4 b)"
    by (simp only: append_take_drop_id)
  ultimately show "b = chunk v @ rest" using v r by (simp only: chunk_def append_assoc)
qed

fun items_bytes :: "item list \<Rightarrow> bytes" where
  "items_bytes [] = []"
| "items_bytes (it # its) = chunk (item_Key it) @ chunk (item_Val it) @
     PutUint64 (item_Score it) @ PutUint64 (item_ExpiryMs it) @ items_bytes its"

lemma append_items_bytes: "append_items dst its = dst @ items_bytes its"
  by (induction its arbitrary: dst) (simp_all add: appendChunk_chunk)

lemma length_items_bytes: "length its \<le> length (items_bytes its)"
  by (induction its) auto

lemma take_items_bytes:
  "length (items_bytes its @ rest) < 2 ^ 32 \<Longrightarrow> take_items (length its) (items_bytes its @ rest) = Inr its"
  by (induction its) simp_all

lemma encodeCommand_bytes:
  "encodeCommand c = cmd_Op c # chunk (cmd_NS c) @ chunk (cmd_Coll c) @ chunk (cmd_Idem c) @
     PutUint32 (u32_len (cmd_Items c)) @ items_bytes (cmd_Items c)"
  by (simp add: encodeCommand_def appendCommand_def Let_def append_items_bytes appendChunk_chunk)

text \<open>C12: A command of at most 4 GiB whose opcode the decoder knows survives encoding and decoding.\<close>

theorem decodeCommand_encodeCommand:
  assumes "length (encodeCommand c) < 2 ^ 32" and "mutates (cmd_Op c)"
  shows "decodeCommand (encodeCommand c) = Inr c"
proof -
  let ?n = "u32_len (cmd_Items c)"
  have l: "length (items_bytes (cmd_Items c)) < 2 ^ 32" using assms(1) by (simp add: encodeCommand_bytes)
  with length_items_bytes [of "cmd_Items c"] have "unat ?n = length (cmd_Items c)" by simp
  then show ?thesis
    using assms l take_items_bytes [of "cmd_Items c" "[]"]
    by (simp add: encodeCommand_bytes decodeCommand_def decodeCommandInto_def mutates_def)
qed

theorem decodeCommand_encodeCommand_witness:
  "let c = \<lparr>cmd_Op = opZAdd, cmd_NS = str ''ns'', cmd_Coll = str ''c'', cmd_Idem = [],
      cmd_Items = [\<lparr>item_Key = str ''m'', item_Val = [], item_Score = 1, item_ExpiryMs = 7\<rparr>]\<rparr>
   in decodeCommand (encodeCommand c) = Inr c"
  unfolding Let_def
  by (rule decodeCommand_encodeCommand)
    (simp_all add: encodeCommand_bytes mutates_def typeForOp_def op_defs type_defs str_def)

text \<open>A decoded command comes from its encoding, followed by bytes the decoder ignores.\<close>

lemma take_items_ok:
  "take_items n b = Inr its \<Longrightarrow> length its = n \<and> (\<exists>rest. b = items_bytes its @ rest) \<and>
     (\<forall>it \<in> set its. length (item_Key it) < 2 ^ 32 \<and> length (item_Val it) < 2 ^ 32)"
proof (induction n b arbitrary: its rule: take_items.induct)
  case (1 rest)
  then show ?case by simp
next
  case (2 n b)
  then obtain k r1 v r2 its' where *: "takeChunk b = Inr (k, r1)" "takeChunk r1 = Inr (v, r2)"
    "16 \<le> length r2" "take_items n (drop 16 r2) = Inr its'"
    "its = \<lparr>item_Key = k, item_Val = v, item_Score = Uint64 (take 8 r2),
            item_ExpiryMs = Uint64 (take 8 (drop 8 r2))\<rparr> # its'"
    by (auto simp: Let_def split: sum.splits if_splits)
  have IH: "length its' = n" "\<exists>rest. drop 16 r2 = items_bytes its' @ rest"
    "\<forall>it \<in> set its'. length (item_Key it) < 2 ^ 32 \<and> length (item_Val it) < 2 ^ 32"
    using 2 * by (auto simp: Let_def)
  then obtain rest where rest: "drop 16 r2 = items_bytes its' @ rest" by blast
  have p: "PutUint64 (Uint64 (take 8 xs)) = take 8 xs" if "8 \<le> length xs" for xs
    using that by (simp add: PutUint64_Uint64)
  have "r2 = take 8 r2 @ take 8 (drop 8 r2) @ drop 16 r2"
    by (metis append_take_drop_id drop_drop numeral_Bit0)
  then show ?case
    using * IH rest p [of r2] p [of "drop 8 r2"] take_chunk_ok [OF *(1)] take_chunk_ok [OF *(2)]
    by (auto simp: p intro!: exI [of _ rest])
qed

lemma decodeCommand_ok:
  assumes "decodeCommand b = Inr c"
  shows "mutates (cmd_Op c)" "\<exists>rest. b = encodeCommand c @ rest"
    "length (cmd_NS c) < 2 ^ 32" "length (cmd_Coll c) < 2 ^ 32" "length (cmd_Idem c) < 2 ^ 32"
    "\<forall>it \<in> set (cmd_Items c). length (item_Key it) < 2 ^ 32 \<and> length (item_Val it) < 2 ^ 32"
proof -
  obtain op r0 ns r1 coll r2 idem r3 its where *: "b = op # r0" "mutates op"
    "takeChunk r0 = Inr (ns, r1)" "takeChunk r1 = Inr (coll, r2)" "takeChunk r2 = Inr (idem, r3)"
    "4 \<le> length r3" "take_items (unat (Uint32 (take 4 r3))) (drop 4 r3) = Inr its"
    "c = \<lparr>cmd_Op = op, cmd_NS = ns, cmd_Coll = coll, cmd_Idem = idem, cmd_Items = its\<rparr>"
    using assms
    by (auto simp: decodeCommand_def decodeCommandInto_def mutates_def not_less
        split: list.splits sum.splits if_splits)
  note chunks = take_chunk_ok [OF *(3)] take_chunk_ok [OF *(4)] take_chunk_ok [OF *(5)]
  note items = take_items_ok [OF *(7)]
  then obtain rest where rest: "drop 4 r3 = items_bytes its @ rest" by blast
  have "u32_len its = Uint32 (take 4 r3)" using items by (simp add: u32_len_def)
  then have "PutUint32 (u32_len its) = take 4 r3" using *(6) by (simp add: PutUint32_Uint32)
  then have "r3 = PutUint32 (u32_len its) @ items_bytes its @ rest"
    using rest by (metis append_take_drop_id)
  then show "\<exists>rest. b = encodeCommand c @ rest"
    using * chunks by (intro exI [of _ rest]) (simp add: encodeCommand_bytes)
  show "mutates (cmd_Op c)" "length (cmd_NS c) < 2 ^ 32" "length (cmd_Coll c) < 2 ^ 32"
    "length (cmd_Idem c) < 2 ^ 32"
    "\<forall>it \<in> set (cmd_Items c). length (item_Key it) < 2 ^ 32 \<and> length (item_Val it) < 2 ^ 32"
    using * chunks items by simp_all
qed

section \<open>Round trips of batches and results\<close>

lemma foldl_append: "foldl (\<lambda>dst x. dst @ f x) dst xs = dst @ concat (map f xs)"
  by (induction xs arbitrary: dst) simp_all

lemma take_chunks_concat:
  "length (concat (map chunk cs) @ rest) < 2 ^ 32 \<Longrightarrow>
     take_chunks (length cs) (concat (map chunk cs) @ rest) = Inr cs"
  by (induction cs) simp_all

lemma length_concat_chunk: "length cs \<le> length (concat (map chunk cs))"
  by (induction cs) auto

text \<open>C29: A coalesced batch of at most 4 GiB decodes to the commands it was built from.\<close>

theorem decodeBatch_encodeBatch:
  assumes "length (encodeBatchInto [] cmds) < 2 ^ 32"
  shows "decodeBatch (encodeBatchInto [] cmds) = Inr cmds"
proof -
  have e: "encodeBatchInto [] cmds = opBatch # PutUint32 (u32_len cmds) @ concat (map chunk cmds)"
    using foldl_append [of chunk "opBatch # PutUint32 (u32_len cmds)" cmds]
    by (simp add: encodeBatchInto_def fun_eq_iff appendChunk_chunk [abs_def])
  from assms have l: "length (concat (map chunk cmds)) < 2 ^ 32" by (simp add: e)
  with length_concat_chunk [of cmds] have "unat (u32_len cmds) = length cmds" by simp
  then show ?thesis using l take_chunks_concat [of cmds "[]"] by (simp add: e decodeBatch_def)
qed

theorem decodeBatch_encodeBatch_witness:
  "decodeBatch (encodeBatchInto [] [str ''ab'', []]) = Inr [str ''ab'', []]"
  by (rule decodeBatch_encodeBatch) (simp add: encodeBatchInto_def appendChunk_chunk str_def)

definition result_bytes :: "propose_result \<Rightarrow> bytes" where
  "result_bytes r = PutUint64 (pr_Value r) @ chunk (pr_Data r)"

lemma take_results_concat:
  "length (concat (map result_bytes rs) @ rest) < 2 ^ 32 \<Longrightarrow>
     take_results (length rs) (concat (map result_bytes rs) @ rest) = Inr rs"
  by (induction rs) (simp_all add: result_bytes_def)

lemma length_concat_result: "length rs \<le> length (concat (map result_bytes rs))"
  by (induction rs) (auto simp: result_bytes_def)

lemma encodeBatchResult_bytes:
  "encodeBatchResult [] rs = PutUint32 (u32_len rs) @ concat (map result_bytes rs)"
proof -
  have "(\<lambda>dst r. appendChunk (dst @ PutUint64 (pr_Value r)) (pr_Data r)) = (\<lambda>dst r. dst @ result_bytes r)"
    by (simp add: fun_eq_iff appendChunk_chunk result_bytes_def)
  then show ?thesis by (simp add: encodeBatchResult_def foldl_append)
qed

lemma decodeBatchResult_encodeBatchResult:
  assumes "length (encodeBatchResult [] rs) < 2 ^ 32"
  shows "decodeBatchResult (encodeBatchResult [] rs) (int (length rs)) = Inr rs"
proof -
  from assms have l: "length (concat (map result_bytes rs)) < 2 ^ 32" by (simp add: encodeBatchResult_bytes)
  with length_concat_result [of rs] have "unat (u32_len rs) = length rs" by simp
  then show ?thesis using l take_results_concat [of rs "[]"]
    by (simp add: encodeBatchResult_bytes decodeBatchResult_def)
qed

definition kv_bytes :: "rawKV \<Rightarrow> bytes" where
  "kv_bytes kv = chunk (kv_Suffix kv) @ chunk (kv_Value kv)"

lemma encodeIngest_bytes:
  "encodeIngest kvs = opIngest # PutUint32 (u32_len kvs) @ concat (map kv_bytes kvs)"
proof -
  have "(\<lambda>buf kv. appendChunk (appendChunk buf (kv_Suffix kv)) (kv_Value kv)) = (\<lambda>buf kv. buf @ kv_bytes kv)"
    by (simp add: fun_eq_iff appendChunk_chunk kv_bytes_def)
  then show ?thesis by (simp add: encodeIngest_def foldl_append)
qed

lemma take_kvs_concat:
  "length (concat (map kv_bytes kvs) @ rest) < 2 ^ 32 \<Longrightarrow>
     take_kvs (length kvs) (concat (map kv_bytes kvs) @ rest) = Inr kvs"
  by (induction kvs) (simp_all add: kv_bytes_def)

lemma length_concat_kv: "length kvs \<le> length (concat (map kv_bytes kvs))"
  by (induction kvs) (auto simp: kv_bytes_def)

lemma decodeIngest_encodeIngest:
  assumes "length (encodeIngest kvs) < 2 ^ 32"
  shows "decodeIngest (encodeIngest kvs) = Inr kvs"
proof -
  from assms have l: "length (concat (map kv_bytes kvs)) < 2 ^ 32" by (simp add: encodeIngest_bytes)
  with length_concat_kv [of kvs] have "unat (u32_len kvs) = length kvs" by simp
  then show ?thesis using l take_kvs_concat [of kvs "[]"]
    by (simp add: encodeIngest_bytes decodeIngest_def drop_Suc)
qed

lemma decodePurge_chunks:
  "length start + length stop + 8 < 2 ^ 32 \<Longrightarrow>
     decodePurge (op # chunk start @ chunk stop) = Inr (start, stop)"
  using takeChunk_chunk [of stop "[]"] by (simp add: decodePurge_def)

lemma readChunk_chunk [wire_simps]:
  "length b < 2 ^ 32 \<Longrightarrow> readChunk (chunk b @ rest) = Inr (b, rest)"
  by (simp add: readChunk_def chunk_def Let_def)

section \<open>The score encoding\<close>

definition float_mag :: "nat \<Rightarrow> int" where
  "float_mag n = (let m = n mod 2 ^ 52; e = n div 2 ^ 52 in
     if e = 0 then int m else (2 ^ 52 + int m) * 2 ^ (e - 1))"

definition float_neg :: "float64 \<Rightarrow> bool" where
  "float_neg f \<longleftrightarrow> 2 ^ 63 \<le> unat f"

definition float_scaled :: "float64 \<Rightarrow> int" where
  "float_scaled f = (let mag = float_mag (unat f mod 2 ^ 63) in if float_neg f then - mag else mag)"

lemma float_mag_Suc: "float_mag n < float_mag (Suc n)"
proof (cases "Suc n mod 2 ^ 52 = 0")
  case True
  then have d: "Suc n div 2 ^ 52 = Suc (n div 2 ^ 52)" "n mod 2 ^ 52 = 2 ^ 52 - 1"
    by (simp_all add: div_Suc mod_Suc split: if_splits)
  show ?thesis
  proof (cases "n div 2 ^ 52 = 0")
    case True
    then show ?thesis using d \<open>Suc n mod 2 ^ 52 = 0\<close> unfolding float_mag_def Let_def by simp
  next
    case False
    then obtain e where "n div 2 ^ 52 = Suc e" using not0_implies_Suc by blast
    then show ?thesis using d \<open>Suc n mod 2 ^ 52 = 0\<close> unfolding float_mag_def Let_def d by simp
  qed
next
  case False
  then have d: "Suc n div 2 ^ 52 = n div 2 ^ 52" "Suc n mod 2 ^ 52 = Suc (n mod 2 ^ 52)"
    by (simp_all add: div_Suc mod_Suc split: if_splits)
  show ?thesis unfolding float_mag_def Let_def d by simp
qed

lemma float_mag_less_iff: "float_mag m < float_mag n \<longleftrightarrow> m < n"
  using float_mag_Suc strict_mono_Suc_iff strict_mono_less by blast

lemma float_mag_0: "float_mag 0 = 0" by (simp add: float_mag_def)

lemma float_mag_nonneg: "0 \<le> float_mag n" by (simp add: float_mag_def Let_def)

lemma unat_f64: "unat (f :: float64) < 2 ^ 64"
  using unsigned_less [of f] by simp

lemma unat_minus_1_f64: "unat (- 1 :: float64) = 2 ^ 64 - 1"
  by (simp add: unsigned_minus_1_eq_mask mask_eq_exp_minus_1)

lemma bit_63: "bit (f :: 64 word) 63 \<longleftrightarrow> float_neg f"
proof -
  have "unat f < 2 ^ 64" using unsigned_less [of f] by simp
  then have "unat f div 2 ^ 63 < 2" by (simp add: less_mult_imp_div_less)
  then have "odd (unat f div 2 ^ 63) \<longleftrightarrow> 2 ^ 63 \<le> unat f"
    by (cases "2 ^ 63 \<le> unat f") (auto simp: numeral_2_eq_2 less_Suc_eq le_div_geq)
  moreover have "bit f 63 \<longleftrightarrow> bit (unat f) 63" by (simp add: bit_unsigned_iff)
  ultimately show ?thesis by (simp add: bit_iff_odd float_neg_def)
qed

lemma bit_sign_bit: "bit sign_bit n \<longleftrightarrow> n = 63"
  unfolding sign_bit_def bit_push_bit_iff by (auto simp: bit_1_iff)

lemma unat_split_sign:
  obtains a where "unat f = (if float_neg f then 2 ^ 63 + a else a)" "a < 2 ^ 63" "a = unat f mod 2 ^ 63"
proof (rule that [of "unat f mod 2 ^ 63"])
  show "unat f = (if float_neg f then 2 ^ 63 + unat f mod 2 ^ 63 else unat f mod 2 ^ 63)"
    using unat_f64 [of f] by (simp add: float_neg_def le_mod_geq)
  show "unat f mod 2 ^ 63 < 2 ^ 63" by (rule mod_less_divisor) simp
qed (rule refl)

lemma sign_bit_and: "and f sign_bit \<noteq> 0 \<longleftrightarrow> float_neg f"
  by (simp add: bit_63 [symmetric] sign_bit_def bit_iff_and_push_bit_not_eq_0)

lemma unat_sortable:
  "unat (if and f sign_bit \<noteq> 0 then not f else or f sign_bit) =
     (if float_neg f then 2 ^ 64 - 1 - unat f else 2 ^ 63 + unat f)"
proof (cases "float_neg f")
  case True
  have "not f = - 1 - f" by (simp only: not_eq_complement minus_diff_commute [of f])
  then have "unat (not f) = 2 ^ 64 - 1 - unat f"
    using unat_sub [of f "- 1"] by (simp add: unat_minus_1_f64)
  then show ?thesis using True sign_bit_and [of f] by simp
next
  case False
  then have "and f sign_bit = 0" using sign_bit_and [of f] by simp
  then have "or f sign_bit = f + sign_bit" using disjunctive_add_eq_or by metis
  moreover have "unat (f + sign_bit) = unat f + 2 ^ 63"
    using False by (subst unat_add_lem [THEN iffD1]) (simp_all add: sign_bit_def float_neg_def)
  ultimately show ?thesis using False \<open>and f sign_bit = 0\<close> by simp
qed

lemma unsortableScore_sortableScore: "unsortableScore (sortableScore f) = f"
proof -
  let ?s = "if and f sign_bit \<noteq> 0 then not f else or f sign_bit"
  have "float_neg ?s \<longleftrightarrow> \<not> float_neg f"
    using unat_sortable [of f] unat_f64 [of f] by (auto simp: float_neg_def)
  moreover have "and (or f sign_bit) (not sign_bit) = f" if "\<not> float_neg f"
    by (rule bit_word_eqI) (use that in \<open>auto simp: bit_and_iff bit_or_iff bit_not_iff bit_sign_bit bit_63 [symmetric]\<close>)
  ultimately show ?thesis
    using sign_bit_and [of f] sign_bit_and [of ?s]
    by (auto simp: unsortableScore_def sortableScore_def)
qed

lemma sortableScore_code [code]:
  "sortableScore f = PutUint64 (if f < 9223372036854775808 then f + 9223372036854775808 else - 1 - f)"
proof -
  have neg: "float_neg f \<longleftrightarrow> \<not> f < 9223372036854775808"
    by (simp add: float_neg_def word_less_nat_alt not_less)
  have sb: "sign_bit = 9223372036854775808" by (simp add: sign_bit_def)
  have "not f = - 1 - f" by (simp only: not_eq_complement minus_diff_commute [of f])
  moreover have "or f sign_bit = f + 9223372036854775808" if "and f sign_bit = 0"
    using that disjunctive_add_eq_or [of f sign_bit] sb by simp
  ultimately show ?thesis using sign_bit_and [of f] neg by (simp add: sortableScore_def Let_def)
qed
lemma sortableScore_less:
  "sortableScore f < sortableScore g \<longleftrightarrow>
    float_scaled f < float_scaled g \<or> float_scaled f = float_scaled g \<and> float_neg f \<and> \<not> float_neg g"
proof -
  obtain a where a: "unat f = (if float_neg f then 2 ^ 63 + a else a)" "a < 2 ^ 63" "a = unat f mod 2 ^ 63"
    by (rule unat_split_sign)
  obtain b where b: "unat g = (if float_neg g then 2 ^ 63 + b else b)" "b < 2 ^ 63" "b = unat g mod 2 ^ 63"
    by (rule unat_split_sign)
  have lhs: "sortableScore f < sortableScore g \<longleftrightarrow>
      (if float_neg f then 2 ^ 64 - 1 - unat f else 2 ^ 63 + unat f)
        < (if float_neg g then 2 ^ 64 - 1 - unat g else 2 ^ 63 + unat g)"
    unfolding sortableScore_def Let_def by (simp only: PutUint64_less_iff word_less_nat_alt unat_sortable)
  have rhs: "float_scaled f = (if float_neg f then - float_mag a else float_mag a)"
    "float_scaled g = (if float_neg g then - float_mag b else float_mag b)"
    by (simp_all only: float_scaled_def Let_def a(3) [symmetric] b(3) [symmetric])
  show ?thesis
    unfolding lhs rhs a(1) b(1)
    using a(2) b(2) float_mag_nonneg [of a] float_mag_nonneg [of b] float_mag_less_iff [of a b]
      float_mag_less_iff [of b a]
    by (cases "float_neg f"; cases "float_neg g") (simp_all, linarith+)
qed

text \<open>C30: The byte order of encoded scores is the numeric order of the scores, infinities included; of two
  equal numbers only the zeros have different encodings, negative zero first.
\<close>

theorem sortableScore_order:
  "sortableScore f < sortableScore g \<longleftrightarrow>
    float_scaled f < float_scaled g \<or> float_scaled f = float_scaled g \<and> float_neg f \<and> \<not> float_neg g"
  by (rule sortableScore_less)

end
