(* ===== verification/Coll_State.thy ===== *)
theory Coll_State
  imports Coll_Command
begin

text \<open>
  The on-disk state machine of a collections shard, first half: its key layout and snapshots
  (\<open>src/internal/collections/base_sm.go\<close>, statemachine.go), the context of one \<open>Update\<close> with its
  overlays, roll-back and error classes (statemachine.go, sm_fatal.go), element expiry (ttl.go), the
  idempotency ring (dedup.go) and the counters (hincr.go).

  An operation on the context takes it as last argument and returns an error or a value together with
  the context as the code leaves it, also on an error.  The store is fixed during an \<open>Update\<close>: writes
  are collected in \<open>u_ops\<close>.  A Go map that is only looked up is a partial function; \<open>cardDelta\<close>, which
  the code ranges over, is an association list.  A \<open>nil\<close> value of \<open>vals\<close> or \<open>zscore\<close> is \<open>None\<close>.

  Addition of two float64 and their conversion from and to decimal strings are the argument
  \<open>float_lib\<close> of \<open>applyHIncrFloat\<close>.
\<close>

section \<open>The shared scaffolding\<close>

record base_sm =
  sm_store :: mem_store
  sm_shardID :: u64
  sm_prefix :: bytes

definition subMeta :: byte where "subMeta = 0x00"
definition subData :: byte where "subData = 0x01"
definition subTTL :: byte where "subTTL = 0x02"
definition subDedup :: byte where "subDedup = 0x03"
definition subDedupRing :: byte where "subDedupRing = 0x04"
definition subBudExp :: byte where "subBudExp = 0x05"
definition subBudTombGC :: byte where "subBudTombGC = 0x06"

lemmas sub_defs = subMeta_def subData_def subTTL_def subDedup_def subDedupRing_def subBudExp_def
  subBudTombGC_def

definition newBaseSM :: "mem_store \<Rightarrow> u64 \<Rightarrow> base_sm" where
  "newBaseSM store shardID = \<lparr>sm_store = store, sm_shardID = shardID, sm_prefix = PutUint64 shardID\<rparr>"

definition newShardSM :: "mem_store \<Rightarrow> u64 \<Rightarrow> base_sm" where
  "newShardSM store shardID = newBaseSM store shardID"

definition appliedKey :: "base_sm \<Rightarrow> bytes" where
  "appliedKey b = sm_prefix b @ [subMeta] @ str ''applied''"

definition Open :: "base_sm \<Rightarrow> coll_error + u64" where
  "Open b =
     (case MemStore_Get (sm_store b) CFReplData (appliedKey b) of
        Inl e \<Rightarrow> Inl (errStorage e)
      | Inr None \<Rightarrow> Inr 0
      | Inr (Some v) \<Rightarrow> if length v \<noteq> 8 then Inl errCorruptApplied else Inr (Uint64 v))"

definition Sync :: "base_sm \<Rightarrow> base_sm \<times> storage_error option" where
  "Sync b = (case MemStore_Flush (sm_store b) CFReplData of (s, e) \<Rightarrow> (b\<lparr>sm_store := s\<rparr>, e))"

section \<open>Fatal and skippable errors\<close>

definition fatal :: "coll_error \<Rightarrow> coll_error" where
  "fatal e = fatalErr e"

fun isFatal :: "coll_error \<Rightarrow> bool" where
  "isFatal (fatalErr _) = True"
| "isFatal (corruptEntry _ e) = isFatal e"
| "isFatal _ = False"

definition getData :: "base_sm \<Rightarrow> bytes \<Rightarrow> coll_error + bytes option" where
  "getData b key =
     (case MemStore_Get (sm_store b) CFReplData key of
        Inl e \<Rightarrow> Inl (fatal (errStorage e))
      | Inr v \<Rightarrow> Inr v)"

section \<open>Snapshots of a shard\<close>

record snap_state =
  ss_snap :: "column_family \<Rightarrow> (bytes \<times> bytes) list"
  ss_applied :: u64

definition PrepareSnapshot :: "base_sm \<Rightarrow> coll_error + snap_state" where
  "PrepareSnapshot b =
     (case MemStore_Snapshot (sm_store b) of
        Inl e \<Rightarrow> Inl (errStorage e)
      | Inr snap \<Rightarrow>
        (case memSnapshot_Get snap CFReplData (appliedKey b) of
           Inl e \<Rightarrow> Inl (errStorage e)
         | Inr (Some v) \<Rightarrow> Inr \<lparr>ss_snap = snap, ss_applied = (if length v = 8 then Uint64 v else 0)\<rparr>
         | Inr None \<Rightarrow> Inr \<lparr>ss_snap = snap, ss_applied = 0\<rparr>))"

text \<open>
  The stop channel of \<open>SaveSnapshot\<close> and \<open>RecoverFromSnapshot\<close> is the number of rows after which it is
  closed, if it is closed at all.
\<close>

fun save_rows :: "bytes \<Rightarrow> nat option \<Rightarrow> rows \<Rightarrow> bytes \<Rightarrow> coll_error + bytes" where
  "save_rows pfx stopc [] w = Inr w"
| "save_rows pfx stopc ((k, v) # rs) w =
     (case stopc of
        Some 0 \<Rightarrow> Inl errSnapshotStopped
      | _ \<Rightarrow>
        let w = writeChunk w (drop (length pfx) k);
            w = writeChunk w v
        in save_rows pfx (map_option (\<lambda>n. n - 1) stopc) rs w)"

definition SaveSnapshot :: "base_sm \<Rightarrow> snap_state \<Rightarrow> nat option \<Rightarrow> coll_error + bytes" where
  "SaveSnapshot b st stopc =
     (let w = writeChunk [] (PutUint64 (ss_applied st)) in
      case memSnapshot_Scan (ss_snap st) CFReplData (Some (sm_prefix b)) (prefixEnd (sm_prefix b)) 0 of
        Inl e \<Rightarrow> Inl (errStorage e)
      | Inr rs \<Rightarrow> save_rows (sm_prefix b) stopc rs w)"

definition flush_ops :: "mem_store \<Rightarrow> store_op list \<Rightarrow> mem_store \<times> storage_error option" where
  "flush_ops s ops = (if ops = [] then (s, None) else MemStore_BatchRC s ops)"

fun clear_keys :: "mem_store \<Rightarrow> store_op list \<Rightarrow> bytes list \<Rightarrow> mem_store \<times> storage_error option" where
  "clear_keys s ops [] = flush_ops s ops"
| "clear_keys s ops (k # ks) =
     (let ops = ops @ [del_op CFReplData k] in
      if length ops \<ge> 1024 then
        (case flush_ops s ops of (s, Some e) \<Rightarrow> (s, Some e) | (s, None) \<Rightarrow> clear_keys s [] ks)
      else clear_keys s ops ks)"

definition clearPrefix :: "base_sm \<Rightarrow> mem_store \<times> storage_error option" where
  "clearPrefix b =
     (case MemStore_Scan (sm_store b) CFReplData (Some (sm_prefix b)) (prefixEnd (sm_prefix b)) 0 of
        Inl e \<Rightarrow> (sm_store b, Some e)
      | Inr rs \<Rightarrow> clear_keys (sm_store b) [] (map fst rs))"

lemma readChunk_shorter: "readChunk r = Inr (v, r') \<Longrightarrow> length r' < length r"
  by (auto simp: readChunk_def Let_def split: if_splits)

function install_rows ::
  "base_sm \<Rightarrow> nat option \<Rightarrow> store_op list \<Rightarrow> bytes \<Rightarrow> bytes \<Rightarrow> base_sm \<times> coll_error option" where
  "install_rows b stopc ops idx r =
     (let store_err = (\<lambda>(s, e). (b\<lparr>sm_store := s\<rparr>, map_option errStorage e)) in
      case stopc of
        Some 0 \<Rightarrow> (b, Some errSnapshotStopped)
      | _ \<Rightarrow>
        (case readChunk r of
           Inl e \<Rightarrow>
             if e = errEOF then
               store_err (flush_ops (sm_store b) (ops @ [put_op CFReplData (appliedKey b) idx]))
             else (b, Some e)
         | Inr (sfx, r') \<Rightarrow>
           (case readChunk r' of
              Inl e \<Rightarrow> (b, Some e)
            | Inr (val, r'') \<Rightarrow>
              let ops = ops @ [put_op CFReplData (sm_prefix b @ sfx) val];
                  stopc = map_option (\<lambda>n. n - 1) stopc
              in if length ops \<ge> 1024 then
                   (case flush_ops (sm_store b) ops of
                      (s, Some e) \<Rightarrow> (b\<lparr>sm_store := s\<rparr>, Some (errStorage e))
                    | (s, None) \<Rightarrow> install_rows (b\<lparr>sm_store := s\<rparr>) stopc [] idx r'')
                 else install_rows b stopc ops idx r'')))"
  by pat_completeness auto

termination
  by (relation "measure (\<lambda>(b, stopc, ops, idx, r). length r)")
    (auto dest!: readChunk_shorter)

declare install_rows.simps [simp del]

definition RecoverFromSnapshot :: "base_sm \<Rightarrow> bytes \<Rightarrow> nat option \<Rightarrow> base_sm \<times> coll_error option" where
  "RecoverFromSnapshot b r stopc =
     (case readChunk r of
        Inl e \<Rightarrow> (b, Some e)
      | Inr (idxBytes, r) \<Rightarrow>
        (case clearPrefix b of
           (s, Some e) \<Rightarrow> (b\<lparr>sm_store := s\<rparr>, Some (errStorage e))
         | (s, None) \<Rightarrow> install_rows (b\<lparr>sm_store := s\<rparr>) stopc [] idxBytes r))"

section \<open>The layout of a shard's keys\<close>

definition scopeCard :: byte where "scopeCard = 0x00"
definition scopeElem :: byte where "scopeElem = 0x01"
definition scopeZPtr :: byte where "scopeZPtr = 0x02"
definition scopeType :: byte where "scopeType = 0x03"
definition scopeTTLPtr :: byte where "scopeTTLPtr = 0x04"
definition scopeBudPool :: byte where "scopeBudPool = 0x05"
definition scopeBudLease :: byte where "scopeBudLease = 0x06"
definition scopeBudTomb :: byte where "scopeBudTomb = 0x07"

lemmas scope_defs = scopeCard_def scopeElem_def scopeZPtr_def scopeType_def scopeTTLPtr_def
  scopeBudPool_def scopeBudLease_def scopeBudTomb_def

definition dataSpace :: "base_sm \<Rightarrow> bytes" where
  "dataSpace s = sm_prefix s @ [subData]"

definition collScope :: "base_sm \<Rightarrow> bytes \<Rightarrow> bytes \<Rightarrow> bytes" where
  "collScope s ns coll = appendChunk (appendChunk (dataSpace s) ns) coll"

definition cardKey :: "base_sm \<Rightarrow> bytes \<Rightarrow> bytes \<Rightarrow> bytes" where
  "cardKey s ns coll = collScope s ns coll @ [scopeCard]"

definition typeKey :: "base_sm \<Rightarrow> bytes \<Rightarrow> bytes \<Rightarrow> bytes" where
  "typeKey s ns coll = collScope s ns coll @ [scopeType]"

definition elemPrefix :: "base_sm \<Rightarrow> bytes \<Rightarrow> bytes \<Rightarrow> bytes" where
  "elemPrefix s ns coll = collScope s ns coll @ [scopeElem]"

definition elemKey :: "base_sm \<Rightarrow> bytes \<Rightarrow> bytes \<Rightarrow> bytes \<Rightarrow> bytes" where
  "elemKey s ns coll member = elemPrefix s ns coll @ member"

definition zscoreKey :: "base_sm \<Rightarrow> bytes \<Rightarrow> bytes \<Rightarrow> float64 \<Rightarrow> bytes \<Rightarrow> bytes" where
  "zscoreKey s ns coll score member = (elemPrefix s ns coll @ sortableScore score) @ member"

definition zptrKey :: "base_sm \<Rightarrow> bytes \<Rightarrow> bytes \<Rightarrow> bytes \<Rightarrow> bytes" where
  "zptrKey s ns coll member = (collScope s ns coll @ [scopeZPtr]) @ member"

definition ttlSpace :: "base_sm \<Rightarrow> bytes" where
  "ttlSpace s = sm_prefix s @ [subTTL]"

definition ttlIndexKey :: "base_sm \<Rightarrow> u64 \<Rightarrow> bytes \<Rightarrow> bytes \<Rightarrow> bytes \<Rightarrow> bytes" where
  "ttlIndexKey s expiry ns coll member =
     appendChunk (appendChunk (ttlSpace s @ PutUint64 expiry) ns) coll @ member"

definition ttlPtrKey :: "base_sm \<Rightarrow> bytes \<Rightarrow> bytes \<Rightarrow> bytes \<Rightarrow> bytes" where
  "ttlPtrKey s ns coll member = (collScope s ns coll @ [scopeTTLPtr]) @ member"

definition dedupSeqKey :: "base_sm \<Rightarrow> bytes" where
  "dedupSeqKey b = sm_prefix b @ [subMeta] @ str ''dedupseq''"

definition dedupKey :: "base_sm \<Rightarrow> bytes \<Rightarrow> bytes" where
  "dedupKey s key = sm_prefix s @ [subDedup] @ key"

definition dedupRingKey :: "base_sm \<Rightarrow> u64 \<Rightarrow> bytes" where
  "dedupRingKey s slot = sm_prefix s @ [subDedupRing] @ PutUint64 slot"

definition dedupRingSize :: u64 where "dedupRingSize = 4096"

definition frozenTag :: byte where "frozenTag = 0x01"

definition frozenSpace :: "base_sm \<Rightarrow> bytes" where
  "frozenSpace b = (sm_prefix b @ [subMeta]) @ [frozenTag]"

definition frozenKey :: "base_sm \<Rightarrow> bytes \<Rightarrow> bytes" where
  "frozenKey b start = frozenSpace b @ start"

section \<open>The context of an update\<close>

definition wrongType :: bytes where "wrongType = str ''WRONGTYPE''"
definition frozenMark :: bytes where "frozenMark = str ''FROZEN''"
definition notNumber :: bytes where "notNumber = str ''NOTNUM''"

record update_ctx =
  u_s :: base_sm
  u_ops :: "store_op list"
  u_exists :: "bytes \<Rightarrow> bool option"
  u_zscore :: "bytes \<Rightarrow> float64 option option"
  u_cardDelta :: "(bytes \<times> i64) list"
  u_htype :: "bytes \<Rightarrow> collType option"
  u_vals :: "bytes \<Rightarrow> bytes option option"
  u_dedupSeq :: u64
  u_inBatchDedup :: "bytes \<Rightarrow> propose_result option"

type_synonym 'a upd = "(coll_error + 'a) \<times> update_ctx"

text \<open>Sequencing: \<open>on_ok\<close> runs the rest after a call that succeeded, \<open>on_read\<close> after a read.\<close>

definition on_ok :: "'a upd \<Rightarrow> ('a \<Rightarrow> update_ctx \<Rightarrow> 'b upd) \<Rightarrow> 'b upd" where
  "on_ok r f = (case r of (Inl e, u) \<Rightarrow> (Inl e, u) | (Inr a, u) \<Rightarrow> f a u)"

definition on_read :: "coll_error + 'a \<Rightarrow> update_ctx \<Rightarrow> ('a \<Rightarrow> 'b upd) \<Rightarrow> 'b upd" where
  "on_read r u f = (case r of Inl e \<Rightarrow> (Inl e, u) | Inr a \<Rightarrow> f a)"

definition emit_put :: "bytes \<Rightarrow> bytes \<Rightarrow> update_ctx \<Rightarrow> update_ctx" where
  "emit_put k v u = u\<lparr>u_ops := u_ops u @ [put_op CFReplData k v]\<rparr>"

definition emit_del :: "bytes \<Rightarrow> update_ctx \<Rightarrow> update_ctx" where
  "emit_del k u = u\<lparr>u_ops := u_ops u @ [del_op CFReplData k]\<rparr>"

definition set_exists :: "bytes \<Rightarrow> bool \<Rightarrow> update_ctx \<Rightarrow> update_ctx" where
  "set_exists k v u = u\<lparr>u_exists := (u_exists u)(k \<mapsto> v)\<rparr>"

definition set_zscore :: "bytes \<Rightarrow> float64 option \<Rightarrow> update_ctx \<Rightarrow> update_ctx" where
  "set_zscore k v u = u\<lparr>u_zscore := (u_zscore u)(k \<mapsto> v)\<rparr>"

definition set_vals :: "bytes \<Rightarrow> bytes option \<Rightarrow> update_ctx \<Rightarrow> update_ctx" where
  "set_vals k v u = u\<lparr>u_vals := (u_vals u)(k \<mapsto> v)\<rparr>"

definition card_delta :: "update_ctx \<Rightarrow> bytes \<Rightarrow> i64" where
  "card_delta u ck = (case map_of (u_cardDelta u) ck of None \<Rightarrow> 0 | Some d \<Rightarrow> d)"

definition add_card :: "bytes \<Rightarrow> i64 \<Rightarrow> update_ctx \<Rightarrow> update_ctx" where
  "add_card ck d u = u\<lparr>u_cardDelta := AList.update ck (card_delta u ck + d) (u_cardDelta u)\<rparr>"

definition elemExists :: "bytes \<Rightarrow> update_ctx \<Rightarrow> coll_error + bool" where
  "elemExists k u =
     (case u_exists u k of
        Some v \<Rightarrow> Inr v
      | None \<Rightarrow> (case getData (u_s u) k of Inl e \<Rightarrow> Inl e | Inr v \<Rightarrow> Inr (v \<noteq> None)))"

definition zScore :: "bytes \<Rightarrow> bytes \<Rightarrow> bytes \<Rightarrow> update_ctx \<Rightarrow> coll_error + float64 option" where
  "zScore ns coll member u =
     (let pk = zptrKey (u_s u) ns coll member in
      case u_zscore u pk of
        Some v \<Rightarrow> Inr v
      | None \<Rightarrow>
        (case getData (u_s u) pk of
           Inl e \<Rightarrow> Inl e
         | Inr None \<Rightarrow> Inr None
         | Inr (Some raw) \<Rightarrow> if length raw < 8 then Inl errPanic else Inr (Some (float64FromBits raw))))"

definition typeOf :: "bytes \<Rightarrow> bytes \<Rightarrow> update_ctx \<Rightarrow> collType upd" where
  "typeOf ns coll u =
     (let cs = collScope (u_s u) ns coll in
      case u_htype u cs of
        Some t \<Rightarrow> (Inr t, u)
      | None \<Rightarrow>
        (case getData (u_s u) (typeKey (u_s u) ns coll) of
           Inl e \<Rightarrow> (Inl e, u)
         | Inr (Some (t # _)) \<Rightarrow> (Inr t, u\<lparr>u_htype := (u_htype u)(cs \<mapsto> t)\<rparr>)
         | Inr _ \<Rightarrow> (Inr 0, u)))"

definition ensureType :: "bytes \<Rightarrow> bytes \<Rightarrow> collType \<Rightarrow> update_ctx \<Rightarrow> bool upd" where
  "ensureType ns coll want u =
     (let cs = collScope (u_s u) ns coll in
      case u_htype u cs of
        Some t \<Rightarrow> (Inr (t = want), u)
      | None \<Rightarrow>
        (case getData (u_s u) (typeKey (u_s u) ns coll) of
           Inl e \<Rightarrow> (Inl e, u)
         | Inr (Some (t # _)) \<Rightarrow> (Inr (t = want), u\<lparr>u_htype := (u_htype u)(cs \<mapsto> t)\<rparr>)
         | Inr _ \<Rightarrow>
           let u = emit_put (typeKey (u_s u) ns coll) [want] u
           in (Inr True, u\<lparr>u_htype := (u_htype u)(cs \<mapsto> want)\<rparr>)))"

text \<open>
  Roll-back of one entry.  The code keeps the number of operations and clones of the maps, so that
  \<open>restore\<close> truncates the operations and reinstates the maps.
\<close>

record update_snapshot =
  snap_opsLen :: nat
  snap_dedupSeq :: u64
  snap_exists :: "bytes \<Rightarrow> bool option"
  snap_zscore :: "bytes \<Rightarrow> float64 option option"
  snap_cardDelta :: "(bytes \<times> i64) list"
  snap_htype :: "bytes \<Rightarrow> collType option"
  snap_vals :: "bytes \<Rightarrow> bytes option option"
  snap_inBatchDedup :: "bytes \<Rightarrow> propose_result option"

definition ctx_snapshot :: "update_ctx \<Rightarrow> update_snapshot" where
  "ctx_snapshot u = \<lparr>snap_opsLen = length (u_ops u), snap_dedupSeq = u_dedupSeq u,
     snap_exists = u_exists u, snap_zscore = u_zscore u, snap_cardDelta = u_cardDelta u,
     snap_htype = u_htype u, snap_vals = u_vals u, snap_inBatchDedup = u_inBatchDedup u\<rparr>"

definition ctx_restore :: "update_snapshot \<Rightarrow> update_ctx \<Rightarrow> update_ctx" where
  "ctx_restore s u =
     u\<lparr>u_ops := (if length (u_ops u) > snap_opsLen s then take (snap_opsLen s) (u_ops u) else u_ops u),
       u_dedupSeq := snap_dedupSeq s, u_exists := snap_exists s, u_zscore := snap_zscore s,
       u_cardDelta := snap_cardDelta s, u_htype := snap_htype s, u_vals := snap_vals s,
       u_inBatchDedup := snap_inBatchDedup s\<rparr>"

section \<open>Element expiry\<close>

definition ttlExpiryOf :: "base_sm \<Rightarrow> bytes \<Rightarrow> bytes \<Rightarrow> bytes \<Rightarrow> coll_error + u64 option" where
  "ttlExpiryOf s ns coll member =
     (case getData s (ttlPtrKey s ns coll member) of
        Inl e \<Rightarrow> Inl e
      | Inr None \<Rightarrow> Inr None
      | Inr (Some v) \<Rightarrow> if length v < 8 then Inl errPanic else Inr (Some (Uint64 v)))"

definition setTTL :: "bytes \<Rightarrow> bytes \<Rightarrow> bytes \<Rightarrow> u64 \<Rightarrow> update_ctx \<Rightarrow> unit upd" where
  "setTTL ns coll member expiry u =
     on_read (ttlExpiryOf (u_s u) ns coll member) u (\<lambda>old.
       let u = (case old of None \<Rightarrow> u | Some old \<Rightarrow> emit_del (ttlIndexKey (u_s u) old ns coll member) u);
           u = emit_put (ttlIndexKey (u_s u) expiry ns coll member) [] u;
           u = emit_put (ttlPtrKey (u_s u) ns coll member) (PutUint64 expiry) u
       in (Inr (), u))"

definition clearTTL :: "bytes \<Rightarrow> bytes \<Rightarrow> bytes \<Rightarrow> update_ctx \<Rightarrow> unit upd" where
  "clearTTL ns coll member u =
     on_read (ttlExpiryOf (u_s u) ns coll member) u (\<lambda>old.
       case old of
         None \<Rightarrow> (Inr (), u)
       | Some old \<Rightarrow>
         (Inr (), emit_del (ttlPtrKey (u_s u) ns coll member)
                    (emit_del (ttlIndexKey (u_s u) old ns coll member) u)))"

section \<open>Idempotency ring\<close>

definition readDedupSeq :: "base_sm \<Rightarrow> coll_error + u64" where
  "readDedupSeq b =
     (case getData b (dedupSeqKey b) of
        Inl e \<Rightarrow> Inl e
      | Inr None \<Rightarrow> Inr 0
      | Inr (Some v) \<Rightarrow> if length v \<noteq> 8 then Inr 0 else Inr (Uint64 v))"

definition dedupGet :: "base_sm \<Rightarrow> bytes \<Rightarrow> coll_error + (u64 \<times> bytes) option" where
  "dedupGet s key =
     (case getData s (dedupKey s key) of
        Inl e \<Rightarrow> Inl e
      | Inr None \<Rightarrow> Inr None
      | Inr (Some v) \<Rightarrow> if length v < 8 then Inr None else Inr (Some (Uint64 (take 8 v), drop 8 v)))"

definition dedupRecord :: "bytes \<Rightarrow> u64 \<Rightarrow> bytes \<Rightarrow> update_ctx \<Rightarrow> unit upd" where
  "dedupRecord key value data u =
     (let s = u_s u; slot = u_dedupSeq u mod dedupRingSize in
      on_read (getData s (dedupRingKey s slot)) u (\<lambda>oldKey.
        let u = (case oldKey of
                   Some old \<Rightarrow> if length old > 0 then emit_del (dedupKey s old) u else u
                 | None \<Rightarrow> u);
            u = emit_put (dedupRingKey s slot) key u;
            u = emit_put (dedupKey s key) (PutUint64 value @ data) u
        in (Inr (), u\<lparr>u_dedupSeq := u_dedupSeq u + 1\<rparr>)))"

section \<open>Counters\<close>

definition digit_val :: "byte \<Rightarrow> nat option" where
  "digit_val b = (if 48 \<le> b \<and> b \<le> 57 then Some (unat b - 48) else None)"

fun parse_digits :: "nat \<Rightarrow> bytes \<Rightarrow> nat option" where
  "parse_digits n [] = Some n"
| "parse_digits n (b # bs) =
     (case digit_val b of None \<Rightarrow> None | Some d \<Rightarrow> parse_digits (10 * n + d) bs)"

text \<open>\<open>strconv.ParseInt(s, 10, 64)\<close>; \<open>None\<close> is a syntax or range error.\<close>

definition ParseInt :: "bytes \<Rightarrow> i64 option" where
  "ParseInt s =
     (let neg = (s \<noteq> [] \<and> hd s = 45);
          ds = (if s \<noteq> [] \<and> (hd s = 43 \<or> hd s = 45) then tl s else s)
      in if ds = [] then None
         else case parse_digits 0 ds of
           None \<Rightarrow> None
         | Some un \<Rightarrow>
             if \<not> neg \<and> un \<ge> 2 ^ 63 then None
             else if neg \<and> un > 2 ^ 63 then None
             else Some (if neg then - of_nat un else of_nat un))"

fun format_nat :: "nat \<Rightarrow> bytes" where
  "format_nat n = (if n < 10 then [of_nat (48 + n)] else format_nat (n div 10) @ [of_nat (48 + n mod 10)])"

text \<open>\<open>strconv.FormatInt(v, 10)\<close>.\<close>

definition FormatInt :: "i64 \<Rightarrow> bytes" where
  "FormatInt v = (if sint v < 0 then 45 # format_nat (nat (- sint v)) else format_nat (nat (sint v)))"

record float_lib =
  fl_add :: "float64 \<Rightarrow> float64 \<Rightarrow> float64"
  fl_ParseFloat :: "bytes \<Rightarrow> float64 option"
  fl_FormatFloat :: "float64 \<Rightarrow> bytes"

definition fieldVal :: "bytes \<Rightarrow> update_ctx \<Rightarrow> coll_error + bytes option" where
  "fieldVal ek u = (case u_vals u ek of Some v \<Rightarrow> Inr v | None \<Rightarrow> getData (u_s u) ek)"

definition setFieldVal :: "bytes \<Rightarrow> bytes \<Rightarrow> update_ctx \<Rightarrow> update_ctx" where
  "setFieldVal ek val u = emit_put ek val (set_vals ek (Some val) u)"

definition touchField :: "coll_command \<Rightarrow> bytes \<Rightarrow> bool \<Rightarrow> update_ctx \<Rightarrow> i64 \<times> update_ctx" where
  "touchField c ek existed u =
     (let u = set_exists ek True u in
      if existed then (0, u)
      else (1, add_card (cardKey (u_s u) (cmd_NS c) (cmd_Coll c)) 1 u))"

definition applyHIncrInt :: "coll_command \<Rightarrow> item \<Rightarrow> update_ctx \<Rightarrow> (i64 \<times> bytes) upd" where
  "applyHIncrInt c it u =
     (if length (item_Val it) < 8 then (Inl errShortCommand, u)
      else
        let ek = elemKey (u_s u) (cmd_NS c) (cmd_Coll c) (item_Key it) in
        on_read (fieldVal ek u) u (\<lambda>cur.
          case (case cur of None \<Rightarrow> Some 0 | Some v \<Rightarrow> ParseInt v) of
            None \<Rightarrow> (Inr (0, notNumber), u)
          | Some base \<Rightarrow>
            let nv = base + Uint64 (item_Val it);
                u = setFieldVal ek (FormatInt nv) u
            in case touchField c ek (cur \<noteq> None) u of
                 (changed, u) \<Rightarrow> (Inr (changed, PutUint64 nv), u)))"

definition applyHIncrFloat :: "float_lib \<Rightarrow> coll_command \<Rightarrow> item \<Rightarrow> update_ctx \<Rightarrow> (i64 \<times> bytes) upd" where
  "applyHIncrFloat fl c it u =
     (let ek = elemKey (u_s u) (cmd_NS c) (cmd_Coll c) (item_Key it) in
      on_read (fieldVal ek u) u (\<lambda>cur.
        case (case cur of None \<Rightarrow> Some 0 | Some v \<Rightarrow> fl_ParseFloat fl v) of
          None \<Rightarrow> (Inr (0, notNumber), u)
        | Some base \<Rightarrow>
          let nv = fl_add fl base (item_Score it);
              u = setFieldVal ek (fl_FormatFloat fl nv) u
          in case touchField c ek (cur \<noteq> None) u of
               (changed, u) \<Rightarrow> (Inr (changed, PutUint64 nv), u)))"

end
