(* ===== verification/Coll_Apply.thy ===== *)
theory Coll_Apply
  imports Coll_State
begin

text \<open>
  The element operations of a collections shard: \<open>applyCommand\<close> of
  \<open>src/internal/collections/statemachine.go\<close>, one definition per case of its switch, the range freeze
  of freeze.go and the raw subrange copy and purge of migrate.go.
\<close>

section \<open>Sets, hashes and sorted sets\<close>

definition ctx_elem :: "coll_command \<Rightarrow> item \<Rightarrow> update_ctx \<Rightarrow> bytes" where
  "ctx_elem c it u = elemKey (u_s u) (cmd_NS c) (cmd_Coll c) (item_Key it)"

definition ctx_card :: "coll_command \<Rightarrow> update_ctx \<Rightarrow> bytes" where
  "ctx_card c u = cardKey (u_s u) (cmd_NS c) (cmd_Coll c)"

definition apply_sadd :: "coll_command \<Rightarrow> item \<Rightarrow> update_ctx \<Rightarrow> i64 upd" where
  "apply_sadd c it u =
     (let ek = ctx_elem c it u in
      on_read (elemExists ek u) u (\<lambda>present.
        let (changed, u) =
          (if present then (0, u)
           else (1, add_card (ctx_card c u) 1 (set_exists ek True (emit_put ek [] u))))
        in if sint (item_ExpiryMs it) > 0 then
             on_ok (setTTL (cmd_NS c) (cmd_Coll c) (item_Key it) (item_ExpiryMs it) u) (\<lambda>_ u. (Inr changed, u))
           else (Inr changed, u)))"

text \<open>The case of \<open>opSRem\<close> and \<open>opHDel\<close>, which \<open>opRemove\<close> repeats for sets and hashes.\<close>

definition remove_elem :: "coll_command \<Rightarrow> item \<Rightarrow> update_ctx \<Rightarrow> i64 upd" where
  "remove_elem c it u =
     (let ek = ctx_elem c it u in
      on_read (elemExists ek u) u (\<lambda>present.
        let (changed, u) =
          (if present
           then (1, add_card (ctx_card c u) (- 1) (set_vals ek None (set_exists ek False (emit_del ek u))))
           else (0, u))
        in on_ok (clearTTL (cmd_NS c) (cmd_Coll c) (item_Key it) u) (\<lambda>_ u. (Inr changed, u))))"

definition apply_expire :: "coll_command \<Rightarrow> item \<Rightarrow> update_ctx \<Rightarrow> i64 upd" where
  "apply_expire c it u =
     on_read (ttlExpiryOf (u_s u) (cmd_NS c) (cmd_Coll c) (item_Key it)) u (\<lambda>found.
       case found of
         None \<Rightarrow> (Inr 0, u)
       | Some expiry \<Rightarrow>
         if expiry > item_ExpiryMs it then (Inr 0, u)
         else
           let ek = ctx_elem c it u in
           on_read (elemExists ek u) u (\<lambda>present.
             let (changed, u) =
               (if present
                then (1, add_card (ctx_card c u) (- 1) (set_exists ek False (emit_del ek u)))
                else (0, u))
             in on_ok (clearTTL (cmd_NS c) (cmd_Coll c) (item_Key it) u) (\<lambda>_ u. (Inr changed, u))))"

definition apply_hset :: "coll_command \<Rightarrow> item \<Rightarrow> update_ctx \<Rightarrow> i64 upd" where
  "apply_hset c it u =
     (let ek = ctx_elem c it u in
      on_read (elemExists ek u) u (\<lambda>present.
        let u = set_vals ek (Some (item_Val it)) (set_exists ek True (emit_put ek (item_Val it) u))
        in if present then (Inr 0, u) else (Inr 1, add_card (ctx_card c u) 1 u)))"

definition apply_zadd :: "coll_command \<Rightarrow> item \<Rightarrow> update_ctx \<Rightarrow> i64 upd" where
  "apply_zadd c it u =
     (let s = u_s u; ns = cmd_NS c; coll = cmd_Coll c; member = item_Key it in
      on_read (zScore ns coll member u) u (\<lambda>old.
        let (changed, u) =
          (case old of
             Some old \<Rightarrow> (0, emit_del (zscoreKey s ns coll old member) u)
           | None \<Rightarrow> (1, add_card (ctx_card c u) 1 u));
          u = emit_put (zscoreKey s ns coll (item_Score it) member) [] u;
          u = emit_put (zptrKey s ns coll member) (bitsOf (item_Score it)) u;
          u = set_zscore (zptrKey s ns coll member) (Some (item_Score it)) u
        in (Inr changed, u)))"

text \<open>The case of \<open>opZRem\<close>, which \<open>opRemove\<close> repeats for sorted sets.\<close>

definition remove_z :: "coll_command \<Rightarrow> item \<Rightarrow> update_ctx \<Rightarrow> i64 upd" where
  "remove_z c it u =
     (let s = u_s u; ns = cmd_NS c; coll = cmd_Coll c; member = item_Key it in
      on_read (zScore ns coll member u) u (\<lambda>old.
        case old of
          None \<Rightarrow> (Inr 0, u)
        | Some old \<Rightarrow>
          let u = emit_del (zscoreKey s ns coll old member) u;
              u = emit_del (zptrKey s ns coll member) u;
              u = set_zscore (zptrKey s ns coll member) None u
          in (Inr 1, add_card (ctx_card c u) (- 1) u)))"

definition apply_remove :: "coll_command \<Rightarrow> item \<Rightarrow> update_ctx \<Rightarrow> i64 upd" where
  "apply_remove c it u =
     on_ok (typeOf (cmd_NS c) (cmd_Coll c) u) (\<lambda>t u.
       if t = typeSet \<or> t = typeHash then remove_elem c it u
       else if t = typeZSet then remove_z c it u
       else (Inr 0, u))"

definition apply_item :: "coll_command \<Rightarrow> item \<Rightarrow> update_ctx \<Rightarrow> i64 upd" where
  "apply_item c it u =
     (let op = cmd_Op c in
      if op = opSAdd then apply_sadd c it u
      else if op = opSRem \<or> op = opHDel then remove_elem c it u
      else if op = opExpire then apply_expire c it u
      else if op = opHSet then apply_hset c it u
      else if op = opZAdd then apply_zadd c it u
      else if op = opZRem then remove_z c it u
      else if op = opRemove then apply_remove c it u
      else (Inr 0, u))"

fun apply_items :: "coll_command \<Rightarrow> i64 \<Rightarrow> item list \<Rightarrow> update_ctx \<Rightarrow> i64 upd" where
  "apply_items c changed [] u = (Inr changed, u)"
| "apply_items c changed (it # its) u =
     on_ok (apply_item c it u) (\<lambda>d u. apply_items c (changed + d) its u)"

definition applyCommand :: "coll_command \<Rightarrow> update_ctx \<Rightarrow> i64 upd" where
  "applyCommand c u = apply_items c 0 (cmd_Items c) u"

section \<open>Freezing a subrange\<close>

record frozen_range =
  fr_start :: bytes
  fr_end :: bytes

definition routeKey :: "bytes \<Rightarrow> bytes \<Rightarrow> bytes" where
  "routeKey ns coll = appendChunk (appendChunk [] ns) coll"

definition loadFrozen :: "base_sm \<Rightarrow> coll_error + frozen_range list" where
  "loadFrozen b =
     (let fs = frozenSpace b in
      case MemStore_Scan (sm_store b) CFReplData (Some fs) (prefixEnd fs) 0 of
        Inl e \<Rightarrow> Inl (fatal (errStorage e))
      | Inr rs \<Rightarrow> Inr (map (\<lambda>(k, v). \<lparr>fr_start = drop (length fs) k, fr_end = v\<rparr>) rs))"

fun frozenCovers :: "frozen_range list \<Rightarrow> bytes \<Rightarrow> bool" where
  "frozenCovers [] key = False"
| "frozenCovers (r # rs) key =
     (if (length (fr_start r) = 0 \<or> cmp_bytes key (fr_start r) \<ge> 0) \<and>
         (length (fr_end r) = 0 \<or> cmp_bytes key (fr_end r) < 0)
      then True else frozenCovers rs key)"

definition applyFreeze :: "bytes \<Rightarrow> update_ctx \<Rightarrow> unit upd" where
  "applyFreeze cmd u =
     on_read (decodePurge cmd) u (\<lambda>(start, stop).
       if hd cmd = opFreeze then (Inr (), emit_put (frozenKey (u_s u) start) stop u)
       else (Inr (), emit_del (frozenKey (u_s u) start) u))"

section \<open>Migrating a subrange\<close>

definition routeKeyOf :: "bytes \<Rightarrow> bytes option" where
  "routeKeyOf sfx =
     (case sfx of
        [] \<Rightarrow> None
      | b # rest \<Rightarrow>
        (case (if b = subData then Some rest
               else if b = subTTL then (if length sfx < 9 then None else Some (drop 9 sfx))
               else None) of
           None \<Rightarrow> None
         | Some body \<Rightarrow>
           (case takeChunk body of
              Inl _ \<Rightarrow> None
            | Inr (ns, rest) \<Rightarrow>
              (case takeChunk rest of
                 Inl _ \<Rightarrow> None
               | Inr (coll, _) \<Rightarrow> Some (appendChunk (appendChunk [] ns) coll)))))"

definition inRoute :: "bytes \<Rightarrow> bytes \<Rightarrow> bytes \<Rightarrow> bool" where
  "inRoute rk start stop \<longleftrightarrow>
     (length start = 0 \<or> cmp_bytes rk start \<ge> 0) \<and> (length stop = 0 \<or> cmp_bytes rk stop < 0)"

fun scan_range_rows :: "bytes \<Rightarrow> bytes \<Rightarrow> bytes \<Rightarrow> int \<Rightarrow> rawKV list \<Rightarrow> rows \<Rightarrow> rawKV list" where
  "scan_range_rows pfx start stop limit out [] = out"
| "scan_range_rows pfx start stop limit out ((k, v) # rs) =
     (let sfx = drop (length pfx) k in
      case routeKeyOf sfx of
        Some rk \<Rightarrow>
          if inRoute rk start stop then
            let out = out @ [\<lparr>kv_Suffix = sfx, kv_Value = v\<rparr>] in
            if limit > 0 \<and> int (length out) \<ge> limit then out
            else scan_range_rows pfx start stop limit out rs
          else scan_range_rows pfx start stop limit out rs
      | None \<Rightarrow> scan_range_rows pfx start stop limit out rs)"

text \<open>\<open>sc\<close> is the scanner, the store or a snapshot of it.\<close>

definition scanRange ::
  "(column_family \<Rightarrow> bytes option \<Rightarrow> bytes option \<Rightarrow> int \<Rightarrow> storage_error + rows) \<Rightarrow>
     bytes \<Rightarrow> bytes \<Rightarrow> bytes \<Rightarrow> int \<Rightarrow> coll_error + rawKV list" where
  "scanRange sc pfx start stop limit =
     (case sc CFReplData (Some pfx) (prefixEnd pfx) 0 of
        Inl e \<Rightarrow> Inl (errStorage e)
      | Inr rs \<Rightarrow> Inr (scan_range_rows pfx start stop limit [] rs))"

definition applyMigrate :: "bytes \<Rightarrow> update_ctx \<Rightarrow> i64 upd" where
  "applyMigrate cmd u =
     (if hd cmd = opIngest then
        on_read (decodeIngest cmd) u (\<lambda>kvs.
          (Inr (of_nat (length kvs)),
           foldl (\<lambda>u kv. emit_put (sm_prefix (u_s u) @ kv_Suffix kv) (kv_Value kv) u) u kvs))
      else if hd cmd = opPurge then
        on_read (decodePurge cmd) u (\<lambda>(start, stop).
          case scanRange (MemStore_Scan (sm_store (u_s u))) (sm_prefix (u_s u)) start stop 0 of
            Inl e \<Rightarrow> (Inl (fatal e), u)
          | Inr kvs \<Rightarrow>
            (Inr (of_nat (length kvs)),
             foldl (\<lambda>u kv. emit_del (sm_prefix (u_s u) @ kv_Suffix kv) u) u kvs))
      else (Inl errUnknownOp, u))"

end
