(* ===== verification/Coll_Budget.thy ===== *)
theory Coll_Budget
  imports Coll_Apply
begin

text \<open>
  Leased budgets, \<open>src/internal/collections/budget.go\<close>: the pool, lease and tombstone records and
  their codecs, the overlay-aware accessors, the seven apply functions on every branch, and the reads.

  Quantities and times are \<open>int64\<close>: 64-bit words compared by their signed reading, with Go's wrapping
  addition and truncating division.
\<close>

section \<open>Constants\<close>

definition modeStrict :: byte where "modeStrict = 1"
definition modeRelaxed :: byte where "modeRelaxed = 2"

definition budNoCapacity :: bytes where "budNoCapacity = str ''BUDNOCAP''"
definition budExists :: bytes where "budExists = str ''BUDEXISTS''"
definition budNoLease :: bytes where "budNoLease = str ''BUDNOLEASE''"
definition budNoBudget :: bytes where "budNoBudget = str ''BUDNOBUDGET''"
definition budBadMode :: bytes where "budBadMode = str ''BUDBADMODE''"
definition budBadParam :: bytes where "budBadParam = str ''BUDBADPARAM''"
definition budSettled :: bytes where "budSettled = str ''BUDSETTLED''"
definition budWrongHolder :: bytes where "budWrongHolder = str ''BUDWRONGHOLDER''"

definition reasonReturn :: byte where "reasonReturn = 1"
definition reasonExpire :: byte where "reasonExpire = 2"

definition maxClockSkewMs :: i64 where "maxClockSkewMs = 500"
definition pacingBurstCeil :: i64 where "pacingBurstCeil = 2 ^ 50"
definition minDedupRetryWindowMs :: i64 where "minDedupRetryWindowMs = 30000"

section \<open>Records and their codecs\<close>

record pool_rec =
  pl_Cap :: i64
  pl_Available :: i64
  pl_LeasedOut :: i64
  pl_Spent :: i64
  pl_Epoch :: u64
  pl_Mode :: byte
  pl_Rate :: i64
  pl_Burst :: i64
  pl_LastRefillMs :: i64
  pl_Tokens :: i64
  pl_SelfGuardMs :: i64
  pl_MaxPauseMs :: i64
  pl_DefaultTTLMs :: i64
  pl_DedupRetryWindowMs :: i64
  pl_SpentReported :: i64

record lease_rec =
  ls_Holder :: bytes
  ls_Amount :: i64
  ls_Spent :: i64
  ls_Epoch :: u64
  ls_GrantedMs :: i64
  ls_ReclaimNotBeforeMs :: i64
  ls_ExpiresMs :: i64

record tomb_rec =
  tb_FinalSpent :: i64
  tb_Reason :: byte

definition putI64 :: "i64 \<Rightarrow> bytes" where "putI64 v = PutUint64 v"
definition getI64 :: "bytes \<Rightarrow> i64" where "getI64 b = Uint64 b"

definition min64 :: "i64 \<Rightarrow> i64 \<Rightarrow> i64" where
  "min64 a b = (if sint a < sint b then a else b)"

definition clampI64 :: "i64 \<Rightarrow> i64 \<Rightarrow> i64 \<Rightarrow> i64" where
  "clampI64 v lo hi = (if sint v < sint lo then lo else if sint v > sint hi then hi else v)"

text \<open>Go's \<open>/\<close> on \<open>int64\<close> truncates towards zero; both divisors in this file are positive.\<close>

definition div64 :: "i64 \<Rightarrow> i64 \<Rightarrow> i64" where
  "div64 a b = word_of_int (sgn (sint a) * sgn (sint b) * (\<bar>sint a\<bar> div \<bar>sint b\<bar>))"

definition pacingMaxElapsedMs :: "i64 \<Rightarrow> i64 \<Rightarrow> i64" where
  "pacingMaxElapsedMs rate burst = (if sint rate \<le> 0 then 0 else div64 (4 * burst * 1000) rate)"

definition encodePool :: "pool_rec \<Rightarrow> bytes" where
  "encodePool p =
     putI64 (pl_Cap p) @ putI64 (pl_Available p) @ putI64 (pl_LeasedOut p) @ putI64 (pl_Spent p) @
     PutUint64 (pl_Epoch p) @ [pl_Mode p] @ putI64 (pl_Rate p) @ putI64 (pl_Burst p) @
     putI64 (pl_LastRefillMs p) @ putI64 (pl_Tokens p) @
     putI64 (pl_SelfGuardMs p) @ putI64 (pl_MaxPauseMs p) @ putI64 (pl_DefaultTTLMs p) @
     putI64 (pl_DedupRetryWindowMs p) @ putI64 (pl_SpentReported p)"

definition decodePool :: "bytes \<Rightarrow> coll_error + pool_rec" where
  "decodePool b =
     (if length b < 57 then Inl errShortPool
      else
        let p = \<lparr>pl_Cap = getI64 b, pl_Available = getI64 (drop 8 b), pl_LeasedOut = getI64 (drop 16 b),
              pl_Spent = getI64 (drop 24 b), pl_Epoch = Uint64 (drop 32 b), pl_Mode = b ! 40,
              pl_Rate = getI64 (drop 41 b), pl_Burst = getI64 (drop 49 b), pl_LastRefillMs = 0,
              pl_Tokens = 0, pl_SelfGuardMs = 0, pl_MaxPauseMs = 0, pl_DefaultTTLMs = 0,
              pl_DedupRetryWindowMs = 0, pl_SpentReported = 0\<rparr>;
            p = (if length b \<ge> 73
                 then p\<lparr>pl_LastRefillMs := getI64 (drop 57 b), pl_Tokens := getI64 (drop 65 b)\<rparr> else p);
            p = (if length b \<ge> 105
                 then p\<lparr>pl_SelfGuardMs := getI64 (drop 73 b), pl_MaxPauseMs := getI64 (drop 81 b),
                        pl_DefaultTTLMs := getI64 (drop 89 b),
                        pl_DedupRetryWindowMs := getI64 (drop 97 b)\<rparr> else p);
            p = (if length b \<ge> 113 then p\<lparr>pl_SpentReported := getI64 (drop 105 b)\<rparr> else p)
        in Inr p)"

definition encodeLease :: "lease_rec \<Rightarrow> bytes" where
  "encodeLease l =
     appendChunk (putI64 (ls_Amount l) @ putI64 (ls_Spent l) @ PutUint64 (ls_Epoch l)) (ls_Holder l) @
     putI64 (ls_GrantedMs l) @ putI64 (ls_ReclaimNotBeforeMs l) @ putI64 (ls_ExpiresMs l)"

definition decodeLease :: "bytes \<Rightarrow> coll_error + lease_rec" where
  "decodeLease b =
     (if length b < 24 then Inl errShortLease
      else
        (case takeChunk (drop 24 b) of
           Inl e \<Rightarrow> Inl e
         | Inr (holder, rest) \<Rightarrow>
           let l = \<lparr>ls_Holder = holder, ls_Amount = getI64 b, ls_Spent = getI64 (drop 8 b),
                 ls_Epoch = Uint64 (drop 16 b), ls_GrantedMs = 0, ls_ReclaimNotBeforeMs = 0,
                 ls_ExpiresMs = 0\<rparr>
           in Inr (if length rest \<ge> 24
                   then l\<lparr>ls_GrantedMs := getI64 rest, ls_ReclaimNotBeforeMs := getI64 (drop 8 rest),
                          ls_ExpiresMs := getI64 (drop 16 rest)\<rparr> else l)))"

definition encodeTomb :: "tomb_rec \<Rightarrow> bytes" where
  "encodeTomb t = putI64 (tb_FinalSpent t) @ [tb_Reason t]"

definition decodeTomb :: "bytes \<Rightarrow> coll_error + tomb_rec" where
  "decodeTomb b =
     (if length b < 9 then Inl errShortTomb
      else Inr \<lparr>tb_FinalSpent = getI64 b, tb_Reason = b ! 8\<rparr>)"

record grant_result =
  gr_Granted :: i64
  gr_GrantedMs :: i64
  gr_TTLMs :: i64
  gr_SelfGuardMs :: i64
  gr_MaxPauseMs :: i64

definition encodeGrantResult :: "grant_result \<Rightarrow> bytes" where
  "encodeGrantResult r = putI64 (gr_Granted r) @ putI64 (gr_GrantedMs r) @ putI64 (gr_TTLMs r) @
     putI64 (gr_SelfGuardMs r) @ putI64 (gr_MaxPauseMs r)"

definition decodeGrantResult :: "bytes \<Rightarrow> grant_result" where
  "decodeGrantResult b =
     (let r = \<lparr>gr_Granted = 0, gr_GrantedMs = 0, gr_TTLMs = 0, gr_SelfGuardMs = 0, gr_MaxPauseMs = 0\<rparr>;
          r = (if length b \<ge> 8 then r\<lparr>gr_Granted := getI64 b\<rparr> else r);
          r = (if length b \<ge> 16 then r\<lparr>gr_GrantedMs := getI64 (drop 8 b)\<rparr> else r)
      in if length b \<ge> 40
         then r\<lparr>gr_TTLMs := getI64 (drop 16 b), gr_SelfGuardMs := getI64 (drop 24 b),
                gr_MaxPauseMs := getI64 (drop 32 b)\<rparr>
         else r)"

section \<open>Keys and accessors\<close>

definition budPoolKey :: "base_sm \<Rightarrow> bytes \<Rightarrow> bytes \<Rightarrow> bytes" where
  "budPoolKey s ns coll = collScope s ns coll @ [scopeBudPool]"

definition budLeasePrefix :: "base_sm \<Rightarrow> bytes \<Rightarrow> bytes \<Rightarrow> bytes" where
  "budLeasePrefix s ns coll = collScope s ns coll @ [scopeBudLease]"

definition budLeaseKey :: "base_sm \<Rightarrow> bytes \<Rightarrow> bytes \<Rightarrow> bytes \<Rightarrow> bytes" where
  "budLeaseKey s ns coll leaseID = budLeasePrefix s ns coll @ leaseID"

definition budTombKey :: "base_sm \<Rightarrow> bytes \<Rightarrow> bytes \<Rightarrow> bytes \<Rightarrow> bytes" where
  "budTombKey s ns coll leaseID = (collScope s ns coll @ [scopeBudTomb]) @ leaseID"

definition budExpSpace :: "base_sm \<Rightarrow> bytes" where
  "budExpSpace s = sm_prefix s @ [subBudExp]"

definition budTombGCSpace :: "base_sm \<Rightarrow> bytes" where
  "budTombGCSpace s = sm_prefix s @ [subBudTombGC]"

definition budExpKey :: "base_sm \<Rightarrow> i64 \<Rightarrow> bytes \<Rightarrow> bytes \<Rightarrow> bytes \<Rightarrow> bytes" where
  "budExpKey s reclaimMs ns coll leaseID =
     appendChunk (appendChunk (budExpSpace s @ PutUint64 reclaimMs) ns) coll @ leaseID"

definition budTombGCKey :: "base_sm \<Rightarrow> i64 \<Rightarrow> bytes \<Rightarrow> bytes \<Rightarrow> bytes \<Rightarrow> bytes" where
  "budTombGCKey s gcDueMs ns coll leaseID =
     appendChunk (appendChunk (budTombGCSpace s @ PutUint64 gcDueMs) ns) coll @ leaseID"

definition setBudExp :: "bytes \<Rightarrow> bytes \<Rightarrow> bytes \<Rightarrow> i64 \<Rightarrow> update_ctx \<Rightarrow> update_ctx" where
  "setBudExp ns coll leaseID reclaimMs u = emit_put (budExpKey (u_s u) reclaimMs ns coll leaseID) [] u"

definition delBudExp :: "bytes \<Rightarrow> bytes \<Rightarrow> bytes \<Rightarrow> i64 \<Rightarrow> update_ctx \<Rightarrow> update_ctx" where
  "delBudExp ns coll leaseID reclaimMs u = emit_del (budExpKey (u_s u) reclaimMs ns coll leaseID) u"

definition setBudTombGC :: "bytes \<Rightarrow> bytes \<Rightarrow> bytes \<Rightarrow> i64 \<Rightarrow> update_ctx \<Rightarrow> update_ctx" where
  "setBudTombGC ns coll leaseID gcDueMs u = emit_put (budTombGCKey (u_s u) gcDueMs ns coll leaseID) [] u"

definition delBudTombGC :: "bytes \<Rightarrow> bytes \<Rightarrow> bytes \<Rightarrow> i64 \<Rightarrow> update_ctx \<Rightarrow> update_ctx" where
  "delBudTombGC ns coll leaseID gcDueMs u = emit_del (budTombGCKey (u_s u) gcDueMs ns coll leaseID) u"

text \<open>The shared shape of \<open>getPool\<close>, \<open>getLease\<close> and \<open>getTomb\<close>: overlay first, then the store.\<close>

definition get_rec :: "(bytes \<Rightarrow> coll_error + 'a) \<Rightarrow> bytes \<Rightarrow> update_ctx \<Rightarrow> coll_error + 'a option" where
  "get_rec decode k u =
     (case u_vals u k of
        Some None \<Rightarrow> Inr None
      | Some (Some v) \<Rightarrow> map_sum id Some (decode v)
      | None \<Rightarrow>
        (case getData (u_s u) k of
           Inl e \<Rightarrow> Inl e
         | Inr None \<Rightarrow> Inr None
         | Inr (Some v) \<Rightarrow> map_sum id Some (decode v)))"

definition getPool :: "bytes \<Rightarrow> bytes \<Rightarrow> update_ctx \<Rightarrow> coll_error + pool_rec option" where
  "getPool ns coll u = get_rec decodePool (budPoolKey (u_s u) ns coll) u"

definition setPool :: "bytes \<Rightarrow> bytes \<Rightarrow> pool_rec \<Rightarrow> update_ctx \<Rightarrow> update_ctx" where
  "setPool ns coll p u =
     (let k = budPoolKey (u_s u) ns coll; enc = encodePool p
      in emit_put k enc (set_vals k (Some enc) u))"

definition getLease :: "bytes \<Rightarrow> bytes \<Rightarrow> bytes \<Rightarrow> update_ctx \<Rightarrow> coll_error + lease_rec option" where
  "getLease ns coll leaseID u = get_rec decodeLease (budLeaseKey (u_s u) ns coll leaseID) u"

definition setLease :: "bytes \<Rightarrow> bytes \<Rightarrow> bytes \<Rightarrow> lease_rec \<Rightarrow> update_ctx \<Rightarrow> update_ctx" where
  "setLease ns coll leaseID l u =
     (let k = budLeaseKey (u_s u) ns coll leaseID; enc = encodeLease l
      in emit_put k enc (set_vals k (Some enc) u))"

definition delLease :: "bytes \<Rightarrow> bytes \<Rightarrow> bytes \<Rightarrow> update_ctx \<Rightarrow> update_ctx" where
  "delLease ns coll leaseID u =
     (let k = budLeaseKey (u_s u) ns coll leaseID in emit_del k (set_vals k None u))"

definition getTomb :: "bytes \<Rightarrow> bytes \<Rightarrow> bytes \<Rightarrow> update_ctx \<Rightarrow> coll_error + tomb_rec option" where
  "getTomb ns coll leaseID u = get_rec decodeTomb (budTombKey (u_s u) ns coll leaseID) u"

definition setTomb :: "bytes \<Rightarrow> bytes \<Rightarrow> bytes \<Rightarrow> tomb_rec \<Rightarrow> update_ctx \<Rightarrow> update_ctx" where
  "setTomb ns coll leaseID t u =
     (let k = budTombKey (u_s u) ns coll leaseID; enc = encodeTomb t
      in emit_put k enc (set_vals k (Some enc) u))"

definition delTomb :: "bytes \<Rightarrow> bytes \<Rightarrow> bytes \<Rightarrow> update_ctx \<Rightarrow> update_ctx" where
  "delTomb ns coll leaseID u =
     (let k = budTombKey (u_s u) ns coll leaseID in emit_del k (set_vals k None u))"

section \<open>The apply functions\<close>

definition result :: "u64 \<Rightarrow> bytes \<Rightarrow> propose_result" where
  "result v d = \<lparr>pr_Value = v, pr_Data = d\<rparr>"

definition applyBudInit :: "coll_command \<Rightarrow> update_ctx \<Rightarrow> propose_result upd" where
  "applyBudInit c u =
     (if cmd_Items c = [] \<or> length (item_Key (hd (cmd_Items c))) < 25 then (Inl errShortCommand, u)
      else
        let k = item_Key (hd (cmd_Items c));
            mode = k ! 0; capacity = getI64 (drop 1 k); rate = getI64 (drop 9 k);
            burst = getI64 (drop 17 k);
            (selfGuardMs, maxPauseMs, defaultTTLMs, dedupRetryWindowMs) =
              (if length k \<ge> 57
               then (getI64 (drop 25 k), getI64 (drop 33 k), getI64 (drop 41 k), getI64 (drop 49 k))
               else (0, 0, 0, 0))
        in
        if mode \<noteq> modeStrict \<or> sint capacity < 0 then (Inr (result 0 budBadMode), u)
        else if sint rate < 0 \<or> sint burst < 0 \<or> sint burst > sint pacingBurstCeil \<or>
          (sint defaultTTLMs > 0 \<and> sint selfGuardMs < sint maxClockSkewMs) \<or>
          (sint defaultTTLMs > 0 \<and> sint dedupRetryWindowMs < sint minDedupRetryWindowMs)
        then (Inr (result 0 budBadParam), u)
        else
          on_read (getPool (cmd_NS c) (cmd_Coll c) u) u (\<lambda>found.
            if found \<noteq> None then (Inr (result 0 budExists), u)
            else
              on_ok (ensureType (cmd_NS c) (cmd_Coll c) typeBudget u) (\<lambda>ok u.
                if \<not> ok then (Inr (result 0 wrongType), u)
                else
                  let p = \<lparr>pl_Cap = capacity, pl_Available = capacity, pl_LeasedOut = 0, pl_Spent = 0,
                        pl_Epoch = 1, pl_Mode = mode, pl_Rate = rate, pl_Burst = burst,
                        pl_LastRefillMs = 0, pl_Tokens = (if sint rate > 0 then burst else 0),
                        pl_SelfGuardMs = selfGuardMs, pl_MaxPauseMs = maxPauseMs,
                        pl_DefaultTTLMs = defaultTTLMs, pl_DedupRetryWindowMs = dedupRetryWindowMs,
                        pl_SpentReported = 0\<rparr>
                  in (Inr (result 1 []), setPool (cmd_NS c) (cmd_Coll c) p u))))"

text \<open>The token-bucket refill of \<open>applyBudGrant\<close>.\<close>

definition refill :: "i64 \<Rightarrow> pool_rec \<Rightarrow> pool_rec" where
  "refill grantedMs p =
     (if sint (pl_Rate p) > 0 then
        let p = (if pl_LastRefillMs p = 0 then p\<lparr>pl_LastRefillMs := grantedMs\<rparr> else p);
            maxElapsed = pacingMaxElapsedMs (pl_Rate p) (pl_Burst p);
            elapsed = clampI64 (grantedMs - pl_LastRefillMs p) 0 maxElapsed;
            accrued = div64 (pl_Rate p * elapsed) 1000;
            ceil = min64 (pl_Burst p) (pl_Cap p - pl_Spent p);
            tokens = min64 ceil (pl_Tokens p + accrued);
            p = p\<lparr>pl_Tokens := (if sint tokens < 0 then 0 else tokens)\<rparr>
        in if sint grantedMs > sint (pl_LastRefillMs p) then p\<lparr>pl_LastRefillMs := grantedMs\<rparr> else p
      else p)"

definition grant_amount :: "i64 \<Rightarrow> pool_rec \<Rightarrow> i64" where
  "grant_amount amount p =
     (let grant = (if sint (pl_Rate p) > 0 then min64 amount (pl_Tokens p) else amount)
      in if sint grant > sint (pl_Available p) then pl_Available p else grant)"

definition grant_echo :: "lease_rec \<Rightarrow> pool_rec option \<Rightarrow> grant_result" where
  "grant_echo l pool =
     \<lparr>gr_Granted = ls_Amount l, gr_GrantedMs = ls_GrantedMs l,
      gr_TTLMs = (if sint (ls_ExpiresMs l) > 0 then ls_ExpiresMs l - ls_GrantedMs l else 0),
      gr_SelfGuardMs = (case pool of None \<Rightarrow> 0 | Some p \<Rightarrow> pl_SelfGuardMs p),
      gr_MaxPauseMs = (case pool of None \<Rightarrow> 0 | Some p \<Rightarrow> pl_MaxPauseMs p)\<rparr>"

text \<open>The end of \<open>applyBudGrant\<close>, once a lease is to be written.\<close>

definition grant_lease ::
  "coll_command \<Rightarrow> i64 \<Rightarrow> i64 \<Rightarrow> bytes \<Rightarrow> i64 \<Rightarrow> pool_rec \<Rightarrow> update_ctx \<Rightarrow> propose_result upd" where
  "grant_lease c grant grantedMs holder ttl p u =
     (let leaseID = item_Key (hd (cmd_Items c));
          p = p\<lparr>pl_Available := pl_Available p - grant, pl_LeasedOut := pl_LeasedOut p + grant\<rparr>;
          p = (if sint (pl_Rate p) > 0 then p\<lparr>pl_Tokens := pl_Tokens p - grant\<rparr> else p);
          u = setPool (cmd_NS c) (cmd_Coll c) p u;
          lr = \<lparr>ls_Holder = holder, ls_Amount = grant, ls_Spent = 0, ls_Epoch = pl_Epoch p,
                ls_GrantedMs = grantedMs, ls_ReclaimNotBeforeMs = 0, ls_ExpiresMs = 0\<rparr>;
          (lr, u) =
            (if sint ttl > 0 then
               let lr = lr\<lparr>ls_ReclaimNotBeforeMs := grantedMs + ttl + 3 * maxClockSkewMs + pl_MaxPauseMs p,
                           ls_ExpiresMs := grantedMs + ttl\<rparr>
               in (lr, setBudExp (cmd_NS c) (cmd_Coll c) leaseID (ls_ReclaimNotBeforeMs lr) u)
             else (lr, u));
          u = setLease (cmd_NS c) (cmd_Coll c) leaseID lr u
      in (Inr (result grant (encodeGrantResult
            \<lparr>gr_Granted = grant, gr_GrantedMs = grantedMs, gr_TTLMs = ttl,
             gr_SelfGuardMs = pl_SelfGuardMs p, gr_MaxPauseMs = pl_MaxPauseMs p\<rparr>)), u))"

definition applyBudGrant :: "coll_command \<Rightarrow> update_ctx \<Rightarrow> propose_result upd" where
  "applyBudGrant c u =
     (if cmd_Items c = [] \<or> length (item_Key (hd (cmd_Items c))) = 0 \<or>
         length (item_Val (hd (cmd_Items c))) < 24 then (Inl errShortCommand, u)
      else
        let leaseID = item_Key (hd (cmd_Items c)); v = item_Val (hd (cmd_Items c));
            amount = getI64 v; grantedMs = getI64 (drop 8 v); ttlOverride = getI64 (drop 16 v);
            holder = drop 24 v in
        if sint amount < 0 then (Inr (result 0 budNoCapacity), u)
        else
          on_read (getTomb (cmd_NS c) (cmd_Coll c) leaseID u) u (\<lambda>settled.
          if settled \<noteq> None then (Inr (result 0 budSettled), u)
          else
            on_read (getLease (cmd_NS c) (cmd_Coll c) leaseID u) u (\<lambda>found.
            case found of
              Some l \<Rightarrow>
                on_read (getPool (cmd_NS c) (cmd_Coll c) u) u (\<lambda>pool.
                  (Inr (result (ls_Amount l) (encodeGrantResult (grant_echo l pool))), u))
            | None \<Rightarrow>
                on_read (getPool (cmd_NS c) (cmd_Coll c) u) u (\<lambda>pool.
                case pool of
                  None \<Rightarrow> (Inr (result 0 budNoBudget), u)
                | Some p \<Rightarrow>
                  let ttl = (if ttlOverride = 0 then pl_DefaultTTLMs p else ttlOverride) in
                  if sint ttl > 0 \<and> sint (pl_SelfGuardMs p) < sint maxClockSkewMs
                  then (Inr (result 0 budBadParam), u)
                  else
                    let p = refill grantedMs p; grant = grant_amount amount p in
                    if sint grant \<le> 0 then (Inr (result 0 budNoCapacity), u)
                    else grant_lease c grant grantedMs holder ttl p u))))"

definition holder_mismatch :: "bytes \<Rightarrow> lease_rec \<Rightarrow> bool" where
  "holder_mismatch callerHolder l \<longleftrightarrow>
     length callerHolder > 0 \<and> length (ls_Holder l) > 0 \<and> callerHolder \<noteq> ls_Holder l"

text \<open>The fold of a cumulative report into a lease and its pool, clamped to the amount granted.\<close>

definition fold_report :: "i64 \<Rightarrow> lease_rec \<Rightarrow> pool_rec \<Rightarrow> lease_rec \<times> pool_rec" where
  "fold_report reported l p =
     (let reported = (if sint reported > sint (ls_Amount l) then ls_Amount l else reported);
          delta = reported - ls_Spent l
      in (l\<lparr>ls_Spent := reported\<rparr>,
          p\<lparr>pl_LeasedOut := pl_LeasedOut p - delta, pl_Spent := pl_Spent p + delta,
            pl_SpentReported := pl_SpentReported p + delta\<rparr>))"

definition applyBudReport :: "coll_command \<Rightarrow> update_ctx \<Rightarrow> propose_result upd" where
  "applyBudReport c u =
     (if cmd_Items c = [] \<or> length (item_Key (hd (cmd_Items c))) = 0 \<or>
         length (item_Val (hd (cmd_Items c))) < 8 then (Inl errShortCommand, u)
      else
        let leaseID = item_Key (hd (cmd_Items c)); v = item_Val (hd (cmd_Items c)) in
        on_read (getLease (cmd_NS c) (cmd_Coll c) leaseID u) u (\<lambda>found.
        case found of
          None \<Rightarrow> (Inr (result 0 budNoLease), u)
        | Some l \<Rightarrow>
          if holder_mismatch (drop 8 v) l then (Inr (result 0 budWrongHolder), u)
          else if sint (getI64 v) \<le> sint (ls_Spent l)
          then (Inr (result (ls_Amount l - ls_Spent l) []), u)
          else
            on_read (getPool (cmd_NS c) (cmd_Coll c) u) u (\<lambda>pool.
            case pool of
              None \<Rightarrow> (Inl errMissingPool, u)
            | Some p \<Rightarrow>
              let (l, p) = fold_report (getI64 v) l p;
                  u = setPool (cmd_NS c) (cmd_Coll c) p u;
                  u = setLease (cmd_NS c) (cmd_Coll c) leaseID l u
              in (Inr (result (ls_Amount l - ls_Spent l) []), u))))"

definition applyBudReturn :: "coll_command \<Rightarrow> update_ctx \<Rightarrow> propose_result upd" where
  "applyBudReturn c u =
     (if cmd_Items c = [] \<or> length (item_Key (hd (cmd_Items c))) = 0 then (Inl errShortCommand, u)
      else
        let leaseID = item_Key (hd (cmd_Items c)); v = item_Val (hd (cmd_Items c)) in
        on_read (getTomb (cmd_NS c) (cmd_Coll c) leaseID u) u (\<lambda>settled.
        if settled \<noteq> None then (Inr (result 0 []), u)
        else
          on_read (getLease (cmd_NS c) (cmd_Coll c) leaseID u) u (\<lambda>found.
          case found of
            None \<Rightarrow> (Inr (result 0 budNoLease), u)
          | Some l \<Rightarrow>
            if length v \<ge> 8 \<and> holder_mismatch (drop 8 v) l then (Inr (result 0 budWrongHolder), u)
            else
              on_read (getPool (cmd_NS c) (cmd_Coll c) u) u (\<lambda>pool.
              case pool of
                None \<Rightarrow> (Inl errMissingPool, u)
              | Some p \<Rightarrow>
                let (l, p) = (if length v \<ge> 8 \<and> sint (getI64 v) > sint (ls_Spent l)
                              then fold_report (getI64 v) l p else (l, p));
                    rem = ls_Amount l - ls_Spent l;
                    p = p\<lparr>pl_Available := pl_Available p + rem, pl_LeasedOut := pl_LeasedOut p - rem\<rparr>;
                    u = setPool (cmd_NS c) (cmd_Coll c) p u;
                    u = delLease (cmd_NS c) (cmd_Coll c) leaseID u;
                    u = (if sint (ls_ReclaimNotBeforeMs l) > 0 then
                           setBudTombGC (cmd_NS c) (cmd_Coll c) leaseID
                             (ls_ReclaimNotBeforeMs l + pl_DedupRetryWindowMs p)
                             (setTomb (cmd_NS c) (cmd_Coll c) leaseID
                               \<lparr>tb_FinalSpent = ls_Spent l, tb_Reason = reasonReturn\<rparr>
                               (delBudExp (cmd_NS c) (cmd_Coll c) leaseID (ls_ReclaimNotBeforeMs l) u))
                         else u)
                in (Inr (result rem []), u)))))"

definition applyBudExpire :: "coll_command \<Rightarrow> update_ctx \<Rightarrow> propose_result upd" where
  "applyBudExpire c u =
     (if cmd_Items c = [] \<or> length (item_Key (hd (cmd_Items c))) = 0 \<or>
         length (item_Val (hd (cmd_Items c))) < 8 then (Inl errShortCommand, u)
      else
        let leaseID = item_Key (hd (cmd_Items c)); sweepNowMs = getI64 (item_Val (hd (cmd_Items c))) in
        on_read (getTomb (cmd_NS c) (cmd_Coll c) leaseID u) u (\<lambda>settled.
        if settled \<noteq> None then (Inr (result 0 []), u)
        else
          on_read (getLease (cmd_NS c) (cmd_Coll c) leaseID u) u (\<lambda>found.
          on_read (getPool (cmd_NS c) (cmd_Coll c) u) u (\<lambda>pool.
          case found of
            None \<Rightarrow>
              let u = setTomb (cmd_NS c) (cmd_Coll c) leaseID \<lparr>tb_FinalSpent = 0, tb_Reason = reasonExpire\<rparr> u
              in (Inr (result 0 []),
                  case pool of
                    None \<Rightarrow> u
                  | Some p \<Rightarrow> setBudTombGC (cmd_NS c) (cmd_Coll c) leaseID
                                (sweepNowMs + pl_DedupRetryWindowMs p) u)
          | Some l \<Rightarrow>
            if sint sweepNowMs < sint (ls_ReclaimNotBeforeMs l)
            then (Inr (result (ls_Amount l - ls_Spent l) []), u)
            else
              case pool of
                None \<Rightarrow> (Inl errMissingPool, u)
              | Some p \<Rightarrow>
                let rem = ls_Amount l - ls_Spent l;
                    p = p\<lparr>pl_Spent := pl_Spent p + rem, pl_LeasedOut := pl_LeasedOut p - rem\<rparr>;
                    u = setPool (cmd_NS c) (cmd_Coll c) p u;
                    u = delLease (cmd_NS c) (cmd_Coll c) leaseID u;
                    u = (if sint (ls_ReclaimNotBeforeMs l) > 0
                         then delBudExp (cmd_NS c) (cmd_Coll c) leaseID (ls_ReclaimNotBeforeMs l) u else u);
                    u = setTomb (cmd_NS c) (cmd_Coll c) leaseID
                          \<lparr>tb_FinalSpent = ls_Spent l, tb_Reason = reasonExpire\<rparr> u;
                    u = setBudTombGC (cmd_NS c) (cmd_Coll c) leaseID
                          (ls_ReclaimNotBeforeMs l + pl_DedupRetryWindowMs p) u
                in (Inr (result rem []), u)))))"

definition applyBudTombGC :: "coll_command \<Rightarrow> update_ctx \<Rightarrow> propose_result upd" where
  "applyBudTombGC c u =
     (if cmd_Items c = [] \<or> length (item_Key (hd (cmd_Items c))) = 0 \<or>
         length (item_Val (hd (cmd_Items c))) < 8 then (Inl errShortCommand, u)
      else
        let leaseID = item_Key (hd (cmd_Items c)); gcDueMs = getI64 (item_Val (hd (cmd_Items c)));
            u = delTomb (cmd_NS c) (cmd_Coll c) leaseID u
        in (Inr (result 0 []), delBudTombGC (cmd_NS c) (cmd_Coll c) leaseID gcDueMs u))"

definition applyBudReconcile :: "coll_command \<Rightarrow> update_ctx \<Rightarrow> propose_result upd" where
  "applyBudReconcile c u =
     (if cmd_Items c = [] \<or> length (item_Val (hd (cmd_Items c))) < 8 then (Inl errShortCommand, u)
      else
        let trueAcked = getI64 (item_Val (hd (cmd_Items c))) in
        on_read (getPool (cmd_NS c) (cmd_Coll c) u) u (\<lambda>pool.
        case pool of
          None \<Rightarrow> (Inr (result 0 budNoBudget), u)
        | Some p \<Rightarrow>
          let target = clampI64 trueAcked (pl_SpentReported p) (pl_Cap p);
              recovered = pl_Spent p - target;
              p = p\<lparr>pl_Spent := target\<rparr>;
              p = p\<lparr>pl_Available := pl_Cap p - pl_Spent p - pl_LeasedOut p\<rparr>;
              p = (if sint (pl_Available p) < 0 then p\<lparr>pl_Available := 0\<rparr> else p);
              u = setPool (cmd_NS c) (cmd_Coll c) p u
          in (Inr (result recovered (putI64 recovered)), u)))"

end
