(* ===== verification/Coll_Update.thy ===== *)
theory Coll_Update
  imports Coll_Budget
begin

text \<open>
  The two entry points of a collections shard, \<open>Update\<close> and \<open>Lookup\<close> of
  \<open>src/internal/collections/statemachine.go\<close>: the dispatch of one command with freeze, idempotency and
  type checks (\<open>applyOne\<close>), of one committed entry (\<open>applyEntry\<close>, sm_fatal.go), the batch that commits
  an \<open>Update\<close>, and every read query with its due-index scans (ttl.go, budget.go).
\<close>

section \<open>One command\<close>

definition is_budget_op :: "opKind \<Rightarrow> bool" where
  "is_budget_op op \<longleftrightarrow> op \<in> {opBudInit, opBudGrant, opBudReport, opBudReturn, opBudExpire, opBudTombGC,
     opBudReconcile}"

definition apply_budget :: "coll_command \<Rightarrow> update_ctx \<Rightarrow> propose_result upd" where
  "apply_budget c u =
     (if cmd_Op c = opBudInit then applyBudInit c u
      else if cmd_Op c = opBudGrant then applyBudGrant c u
      else if cmd_Op c = opBudReport then applyBudReport c u
      else if cmd_Op c = opBudReturn then applyBudReturn c u
      else if cmd_Op c = opBudExpire then applyBudExpire c u
      else if cmd_Op c = opBudTombGC then applyBudTombGC c u
      else applyBudReconcile c u)"

definition record_result :: "coll_command \<Rightarrow> propose_result \<Rightarrow> update_ctx \<Rightarrow> propose_result upd" where
  "record_result c r u =
     on_ok (dedupRecord (cmd_Idem c) (pr_Value r) (pr_Data r) u) (\<lambda>_ u.
       (Inr r, u\<lparr>u_inBatchDedup := (u_inBatchDedup u)(cmd_Idem c \<mapsto> r)\<rparr>))"

definition apply_hincr :: "float_lib \<Rightarrow> bool \<Rightarrow> coll_command \<Rightarrow> update_ctx \<Rightarrow> propose_result upd" where
  "apply_hincr fl deduped c u =
     (if cmd_Items c = [] then (Inl errShortCommand, u)
      else
        on_ok (if cmd_Op c = opHIncrBy then applyHIncrInt c (hd (cmd_Items c)) u
               else applyHIncrFloat fl c (hd (cmd_Items c)) u) (\<lambda>(changed, data) u.
          if deduped \<and> data \<noteq> notNumber then record_result c (result changed data) u
          else (Inr (result changed data), u)))"

text \<open>What \<open>applyOne\<close> does once freeze and idempotency let the command through.\<close>

definition apply_fresh :: "float_lib \<Rightarrow> bool \<Rightarrow> coll_command \<Rightarrow> update_ctx \<Rightarrow> propose_result upd" where
  "apply_fresh fl deduped c u =
     on_ok (if cmd_Op c \<noteq> opExpire \<and> cmd_Op c \<noteq> opRemove \<and> typeForOp (cmd_Op c) \<noteq> typeBudget
            then ensureType (cmd_NS c) (cmd_Coll c) (typeForOp (cmd_Op c)) u
            else (Inr True, u)) (\<lambda>ok u.
       if \<not> ok then (Inr (result 0 wrongType), u)
       else if cmd_Op c = opHIncrBy \<or> cmd_Op c = opHIncrByFloat then apply_hincr fl deduped c u
       else if is_budget_op (cmd_Op c) then
         on_ok (typeOf (cmd_NS c) (cmd_Coll c) u) (\<lambda>tp u.
           if tp \<noteq> 0 \<and> tp \<noteq> typeBudget then (Inr (result 0 wrongType), u)
           else apply_budget c u)
       else
         on_ok (applyCommand c u) (\<lambda>changed u.
           if deduped then record_result c (result changed []) u
           else (Inr (result changed []), u)))"

definition applyOne :: "float_lib \<Rightarrow> frozen_range list \<Rightarrow> bytes \<Rightarrow> update_ctx \<Rightarrow> propose_result upd" where
  "applyOne fl frozen cmd u =
     on_read (decodeCommandInto cmd) u (\<lambda>c.
       if length frozen > 0 \<and> mutates (cmd_Op c) \<and> frozenCovers frozen (routeKey (cmd_NS c) (cmd_Coll c))
       then (Inr (result 0 frozenMark), u)
       else
         let deduped = (mutates (cmd_Op c) \<and> length (cmd_Idem c) > 0) in
         if deduped then
           (case u_inBatchDedup u (cmd_Idem c) of
              Some r \<Rightarrow> (Inr r, u)
            | None \<Rightarrow>
              on_read (dedupGet (u_s u) (cmd_Idem c)) u (\<lambda>cached.
                case cached of
                  Some (value, data) \<Rightarrow> (Inr (result value data), u)
                | None \<Rightarrow> apply_fresh fl deduped c u))
         else apply_fresh fl deduped c u)"

section \<open>One entry\<close>

record entry =
  e_Index :: u64
  e_Cmd :: bytes
  e_Result :: propose_result

definition wrap :: "u64 \<Rightarrow> coll_error \<Rightarrow> coll_error" where
  "wrap i e = (if isFatal e then e else corruptEntry i e)"

definition wrap_upd :: "u64 \<Rightarrow> 'a upd \<Rightarrow> 'a upd" where
  "wrap_upd i r = (case r of (Inl e, u) \<Rightarrow> (Inl (wrap i e), u) | (Inr a, u) \<Rightarrow> (Inr a, u))"

fun apply_subs ::
  "float_lib \<Rightarrow> frozen_range list \<Rightarrow> propose_result list \<Rightarrow> bytes list \<Rightarrow> update_ctx \<Rightarrow> propose_result list upd" where
  "apply_subs fl frozen rs [] u = (Inr rs, u)"
| "apply_subs fl frozen rs (cmd # cmds) u =
     on_ok (applyOne fl frozen cmd u) (\<lambda>r u. apply_subs fl frozen (rs @ [r]) cmds u)"

definition applyEntry :: "float_lib \<Rightarrow> frozen_range list \<Rightarrow> entry \<Rightarrow> update_ctx \<Rightarrow> propose_result upd" where
  "applyEntry fl frozen e u =
     (let cmd = e_Cmd e in
      wrap_upd (e_Index e)
       (if length cmd > 0 \<and> (hd cmd = opIngest \<or> hd cmd = opPurge) then
          on_ok (applyMigrate cmd u) (\<lambda>changed u. (Inr (result changed []), u))
        else if length cmd > 0 \<and> (hd cmd = opFreeze \<or> hd cmd = opUnfreeze) then
          on_ok (applyFreeze cmd u) (\<lambda>_ u. (Inr (result 1 []), u))
        else if length cmd > 0 \<and> hd cmd = opBatch then
          on_read (decodeBatch cmd) u (\<lambda>subCmds.
            on_ok (apply_subs fl frozen [] subCmds u) (\<lambda>rs u.
              (Inr (result 0 (encodeBatchResult [] rs)), u)))
        else applyOne fl frozen cmd u))"

text \<open>
  \<open>applyEntrySafe\<close> turns a panic into a \<open>corruptEntry\<close>.  A panic is the error \<open>errPanic\<close> here, which
  \<open>applyEntry\<close> has wrapped already.
\<close>

definition applyEntrySafe :: "float_lib \<Rightarrow> frozen_range list \<Rightarrow> entry \<Rightarrow> update_ctx \<Rightarrow> propose_result upd" where
  "applyEntrySafe fl frozen e u =
     (case applyEntry fl frozen e u of
        (Inl errPanic, u) \<Rightarrow> (Inl (corruptEntry (e_Index e) errPanic), u)
      | r \<Rightarrow> r)"

section \<open>An update\<close>

definition readCard :: "base_sm \<Rightarrow> bytes \<Rightarrow> coll_error + u64" where
  "readCard s ck =
     (case getData s ck of
        Inl e \<Rightarrow> Inl e
      | Inr None \<Rightarrow> Inr 0
      | Inr (Some v) \<Rightarrow> if length v \<noteq> 8 then Inl (fatal errCorruptCard) else Inr (Uint64 v))"

definition new_ctx :: "base_sm \<Rightarrow> u64 \<Rightarrow> update_ctx" where
  "new_ctx s seq = \<lparr>u_s = s, u_ops = [], u_exists = Map.empty, u_zscore = Map.empty, u_cardDelta = [],
     u_htype = Map.empty, u_vals = Map.empty, u_dedupSeq = seq, u_inBatchDedup = Map.empty\<rparr>"

text \<open>The loop over the entries; a skipped entry keeps the empty result.\<close>

fun apply_entries ::
  "float_lib \<Rightarrow> frozen_range list \<Rightarrow> entry list \<Rightarrow> update_ctx \<Rightarrow> entry list upd" where
  "apply_entries fl frozen [] u = (Inr [], u)"
| "apply_entries fl frozen (e # es) u =
     (let snap = ctx_snapshot u in
      case applyEntrySafe fl frozen e u of
        (Inl err, u') \<Rightarrow>
          if isFatal err then (Inl err, u')
          else on_ok (apply_entries fl frozen es (ctx_restore snap u')) (\<lambda>es u.
            (Inr (e\<lparr>e_Result := result 0 []\<rparr> # es), u))
      | (Inr r, u') \<Rightarrow>
          on_ok (apply_entries fl frozen es u') (\<lambda>es u. (Inr (e\<lparr>e_Result := r\<rparr> # es), u)))"

fun flush_cards :: "(bytes \<times> i64) list \<Rightarrow> update_ctx \<Rightarrow> unit upd" where
  "flush_cards [] u = (Inr (), u)"
| "flush_cards ((ck, delta) # ds) u =
     (if delta = 0 then flush_cards ds u
      else
        on_read (readCard (u_s u) ck) u (\<lambda>cur.
          let nv = cur + delta;
              nv = (if sint nv < 0 then 0 else nv)
          in flush_cards ds (emit_put ck (PutUint64 nv) u)))"

definition flush_seq :: "u64 \<Rightarrow> update_ctx \<Rightarrow> update_ctx" where
  "flush_seq startDedupSeq u =
     (if u_dedupSeq u \<noteq> startDedupSeq
      then emit_put (dedupSeqKey (u_s u)) (PutUint64 (u_dedupSeq u)) u else u)"

definition Update :: "float_lib \<Rightarrow> base_sm \<Rightarrow> entry list \<Rightarrow> (coll_error + entry list) \<times> base_sm" where
  "Update fl s entries =
     (if entries = [] then (Inr entries, s)
      else
        case loadFrozen s of
          Inl e \<Rightarrow> (Inl e, s)
        | Inr frozen \<Rightarrow>
          (case readDedupSeq s of
             Inl e \<Rightarrow> (Inl e, s)
           | Inr seq \<Rightarrow>
             (case on_ok (apply_entries fl frozen entries (new_ctx s seq)) (\<lambda>es u.
                     let u = flush_seq seq u in
                     on_ok (flush_cards (u_cardDelta u) u) (\<lambda>_ u.
                       (Inr es, emit_put (appliedKey s) (PutUint64 (e_Index (last entries))) u))) of
                (Inl e, u) \<Rightarrow> (Inl e, s)
              | (Inr es, u) \<Rightarrow>
                (case MemStore_BatchRC (sm_store s) (u_ops u) of
                   (st, Some e) \<Rightarrow> (Inl (fatal (errStorage e)), s\<lparr>sm_store := st\<rparr>)
                 | (st, None) \<Rightarrow> (Inr es, s\<lparr>sm_store := st\<rparr>)))))"

section \<open>Reads\<close>

type_synonym mem_snapshot = "column_family \<Rightarrow> (bytes \<times> bytes) list"

record bud_stat =
  bs_Exists :: bool
  bs_Cap :: i64
  bs_Available :: i64
  bs_LeasedOut :: i64
  bs_Spent :: i64
  bs_SpentReported :: i64
  bs_Epoch :: u64
  bs_Mode :: byte

record bud_check =
  bc_Exists :: bool
  bc_OK :: bool
  bc_Cap :: i64
  bc_Available :: i64
  bc_LeasedOut :: i64
  bc_Spent :: i64
  bc_SpentReported :: i64

record due_elem =
  due_NS :: bytes
  due_Coll :: bytes
  due_Member :: bytes
  due_Expiry :: u64

datatype coll_query =
    isMemberQuery bytes bytes bytes | cardQuery bytes bytes | cardCheckQuery bytes bytes
  | membersQuery bytes bytes int | hGetQuery bytes bytes bytes | hGetAllQuery bytes bytes int
  | zScoreQuery bytes bytes bytes | zRangeQuery bytes bytes int | collectionsQuery bytes
  | collectionInfosQuery bytes | budStatQuery bytes bytes | budCheckQuery bytes bytes
  | ttlDueQuery i64 int | budExpiryDueQuery i64 int | budTombGCDueQuery i64 int
  | migrateScanQuery bytes bytes int

datatype coll_answer =
    AnsBool bool | AnsCard u64 | CardCheck u64 u64 | AnsKeys "bytes list" | AnsValue "bytes option"
  | AnsFields "(bytes \<times> bytes) list" | AnsScore "float64 option" | AnsScored "(bytes \<times> float64) list"
  | AnsInfos "(bytes \<times> collType) list" | AnsBudStat bud_stat | AnsBudCheck bud_check
  | AnsDue "due_elem list" | AnsRaw "rawKV list"

definition snap_get :: "mem_snapshot \<Rightarrow> bytes \<Rightarrow> coll_error + bytes option" where
  "snap_get snap k = map_sum errStorage id (memSnapshot_Get snap CFReplData k)"

definition snap_rows :: "mem_snapshot \<Rightarrow> bytes \<Rightarrow> bytes option \<Rightarrow> int \<Rightarrow> coll_error + rows" where
  "snap_rows snap start stop limit = map_sum errStorage id (memSnapshot_Scan snap CFReplData (Some start) stop limit)"

definition snapCard :: "base_sm \<Rightarrow> mem_snapshot \<Rightarrow> bytes \<Rightarrow> bytes \<Rightarrow> coll_error + u64" where
  "snapCard s snap ns coll =
     (case snap_get snap (cardKey s ns coll) of
        Inl e \<Rightarrow> Inl e
      | Inr None \<Rightarrow> Inr 0
      | Inr (Some v) \<Rightarrow> if length v \<noteq> 8 then Inl errCorruptCard else Inr (Uint64 v))"

definition scanSuffixes :: "mem_snapshot \<Rightarrow> bytes \<Rightarrow> int \<Rightarrow> coll_error + bytes list" where
  "scanSuffixes snap pfx limit =
     map_sum id (map (\<lambda>(k, v). drop (length pfx) k)) (snap_rows snap pfx (prefixEnd pfx) limit)"

definition due_row :: "bytes \<Rightarrow> bytes \<times> bytes \<Rightarrow> due_elem option" where
  "due_row space kv =
     (let sfx = drop (length space) (fst kv) in
      if length sfx \<ge> 8 then
        (case takeChunk (drop 8 sfx) of
           Inl _ \<Rightarrow> None
         | Inr (ns, rest) \<Rightarrow>
           (case takeChunk rest of
              Inl _ \<Rightarrow> None
            | Inr (coll, member) \<Rightarrow>
              Some \<lparr>due_NS = ns, due_Coll = coll, due_Member = member, due_Expiry = Uint64 (take 8 sfx)\<rparr>))
      else None)"

definition scanDue :: "base_sm \<Rightarrow> mem_snapshot \<Rightarrow> i64 \<Rightarrow> int \<Rightarrow> coll_error + due_elem list" where
  "scanDue s snap nowMs limit =
     map_sum id (List.map_filter (due_row (ttlSpace s)))
       (snap_rows snap (ttlSpace s) (Some (ttlSpace s @ PutUint64 (nowMs + 1))) limit)"

definition scanBudDue :: "mem_snapshot \<Rightarrow> bytes \<Rightarrow> i64 \<Rightarrow> int \<Rightarrow> coll_error + due_elem list" where
  "scanBudDue snap space nowMs limit =
     map_sum id (List.map_filter (due_row space))
       (snap_rows snap space (Some (space @ PutUint64 (nowMs + 1))) limit)"

definition lookupBudStat :: "base_sm \<Rightarrow> mem_snapshot \<Rightarrow> bytes \<Rightarrow> bytes \<Rightarrow> coll_error + bud_stat" where
  "lookupBudStat s snap ns coll =
     (case snap_get snap (budPoolKey s ns coll) of
        Inl e \<Rightarrow> Inl e
      | Inr None \<Rightarrow> Inr \<lparr>bs_Exists = False, bs_Cap = 0, bs_Available = 0, bs_LeasedOut = 0, bs_Spent = 0,
                      bs_SpentReported = 0, bs_Epoch = 0, bs_Mode = 0\<rparr>
      | Inr (Some v) \<Rightarrow>
        map_sum id (\<lambda>p. \<lparr>bs_Exists = True, bs_Cap = pl_Cap p, bs_Available = pl_Available p,
          bs_LeasedOut = pl_LeasedOut p, bs_Spent = pl_Spent p, bs_SpentReported = pl_SpentReported p,
          bs_Epoch = pl_Epoch p, bs_Mode = pl_Mode p\<rparr>) (decodePool v))"

definition pool_check :: "pool_rec \<Rightarrow> bool" where
  "pool_check p \<longleftrightarrow> pl_Available p + pl_LeasedOut p + pl_Spent p = pl_Cap p \<and>
     sint (pl_Spent p) \<le> sint (pl_Cap p) \<and> sint (pl_Available p) \<ge> 0 \<and>
     sint (pl_LeasedOut p) \<ge> 0 \<and> sint (pl_Spent p) \<ge> 0"

definition lookupBudCheck :: "base_sm \<Rightarrow> mem_snapshot \<Rightarrow> bytes \<Rightarrow> bytes \<Rightarrow> coll_error + bud_check" where
  "lookupBudCheck s snap ns coll =
     (case snap_get snap (budPoolKey s ns coll) of
        Inl e \<Rightarrow> Inl e
      | Inr None \<Rightarrow> Inr \<lparr>bc_Exists = False, bc_OK = False, bc_Cap = 0, bc_Available = 0, bc_LeasedOut = 0,
                      bc_Spent = 0, bc_SpentReported = 0\<rparr>
      | Inr (Some v) \<Rightarrow>
        map_sum id (\<lambda>p. \<lparr>bc_Exists = True, bc_OK = pool_check p, bc_Cap = pl_Cap p,
          bc_Available = pl_Available p, bc_LeasedOut = pl_LeasedOut p, bc_Spent = pl_Spent p,
          bc_SpentReported = pl_SpentReported p\<rparr>) (decodePool v))"

definition coll_row :: "bytes \<Rightarrow> bytes \<times> bytes \<Rightarrow> (bytes \<times> collType) option" where
  "coll_row pfx kv =
     (case takeChunk (drop (length pfx) (fst kv)) of
        Inl _ \<Rightarrow> None
      | Inr (coll, sfx) \<Rightarrow>
        if length sfx = 1 \<and> sfx ! 0 = scopeType
        then Some (coll, if length (snd kv) \<ge> 1 then snd kv ! 0 else 0)
        else None)"

definition lookup_snap :: "base_sm \<Rightarrow> mem_snapshot \<Rightarrow> coll_query \<Rightarrow> coll_error + coll_answer" where
  "lookup_snap s snap q =
     (case q of
        isMemberQuery ns coll member \<Rightarrow>
          map_sum id (\<lambda>v. AnsBool (v \<noteq> None)) (snap_get snap (elemKey s ns coll member))
      | cardQuery ns coll \<Rightarrow> map_sum id AnsCard (snapCard s snap ns coll)
      | cardCheckQuery ns coll \<Rightarrow>
          (let mp = elemPrefix s ns coll in
           case snapCard s snap ns coll of
             Inl e \<Rightarrow> Inl e
           | Inr stored \<Rightarrow>
             map_sum id (\<lambda>rs. CardCheck stored (of_nat (length rs))) (snap_rows snap mp (prefixEnd mp) 0))
      | membersQuery ns coll limit \<Rightarrow> map_sum id AnsKeys (scanSuffixes snap (elemPrefix s ns coll) limit)
      | hGetQuery ns coll field \<Rightarrow> map_sum id AnsValue (snap_get snap (elemKey s ns coll field))
      | hGetAllQuery ns coll limit \<Rightarrow>
          (let mp = elemPrefix s ns coll in
           map_sum id (\<lambda>rs. AnsFields (map (\<lambda>(k, v). (drop (length mp) k, v)) rs))
             (snap_rows snap mp (prefixEnd mp) limit))
      | zScoreQuery ns coll member \<Rightarrow>
          (case snap_get snap (zptrKey s ns coll member) of
             Inl e \<Rightarrow> Inl e
           | Inr None \<Rightarrow> Inr (AnsScore None)
           | Inr (Some raw) \<Rightarrow>
             if length raw < 8 then Inl errPanic else Inr (AnsScore (Some (float64FromBits raw))))
      | zRangeQuery ns coll limit \<Rightarrow>
          (let mp = elemPrefix s ns coll in
           map_sum id (\<lambda>rs. AnsScored (List.map_filter (\<lambda>(k, v).
               let k = drop (length mp) k in
               if length k \<ge> 8 then Some (drop 8 k, unsortableScore (take 8 k)) else None) rs))
             (snap_rows snap mp (prefixEnd mp) limit))
      | collectionsQuery ns \<Rightarrow>
          (let pfx = appendChunk (dataSpace s) ns in
           map_sum id (\<lambda>rs. AnsKeys (map fst (List.map_filter (coll_row pfx) rs)))
             (snap_rows snap pfx (prefixEnd pfx) 0))
      | collectionInfosQuery ns \<Rightarrow>
          (let pfx = appendChunk (dataSpace s) ns in
           map_sum id (\<lambda>rs. AnsInfos (List.map_filter (coll_row pfx) rs))
             (snap_rows snap pfx (prefixEnd pfx) 0))
      | budStatQuery ns coll \<Rightarrow> map_sum id AnsBudStat (lookupBudStat s snap ns coll)
      | budCheckQuery ns coll \<Rightarrow> map_sum id AnsBudCheck (lookupBudCheck s snap ns coll)
      | ttlDueQuery nowMs limit \<Rightarrow> map_sum id AnsDue (scanDue s snap nowMs limit)
      | budExpiryDueQuery nowMs limit \<Rightarrow> map_sum id AnsDue (scanBudDue snap (budExpSpace s) nowMs limit)
      | budTombGCDueQuery nowMs limit \<Rightarrow> map_sum id AnsDue (scanBudDue snap (budTombGCSpace s) nowMs limit)
      | migrateScanQuery start stop limit \<Rightarrow>
          map_sum id AnsRaw (scanRange (memSnapshot_Scan snap) (sm_prefix s) start stop limit))"

definition Lookup :: "base_sm \<Rightarrow> coll_query \<Rightarrow> coll_error + coll_answer" where
  "Lookup s q =
     (case MemStore_Snapshot (sm_store s) of
        Inl e \<Rightarrow> Inl (errStorage e)
      | Inr snap \<Rightarrow> lookup_snap s snap q)"

end
