(* ===== verification/Coll_Safety.thy ===== *)
theory Coll_Safety
  imports Coll_Update
begin

text \<open>
  Safety of the shard state machine of \<open>src/internal/collections\<close>: the shape and disjointness of its
  keys, the contents a context stands for (\<open>eff\<close>), roll-back of a skipped entry, and that no committed
  entry makes an update fail on a healthy store.
\<close>

section \<open>Shape of the keys\<close>

named_theorems key_simps "the shape of the keys of a shard"
named_theorems eff_simps "the contents of a shard after the collected writes"

definition sub_key :: "base_sm \<Rightarrow> byte \<Rightarrow> bytes \<Rightarrow> bytes" where
  "sub_key s sub rest = sm_prefix s @ sub # rest"

definition scope_key :: "base_sm \<Rightarrow> bytes \<Rightarrow> bytes \<Rightarrow> byte \<Rightarrow> bytes \<Rightarrow> bytes" where
  "scope_key s ns coll sc rest = sub_key s subData (chunk ns @ chunk coll @ sc # rest)"

lemma chunk_inject:
  assumes "length a < 2 ^ 32" "length b < 2 ^ 32"
  shows "chunk a @ x = chunk b @ y \<longleftrightarrow> a = b \<and> x = y"
proof
  assume eq: "chunk a @ x = chunk b @ y"
  then have "take 4 (chunk a @ x) = take 4 (chunk b @ y)" by simp
  then have "u32_len a = u32_len b" by (simp add: chunk_def)
  then have "length a = length b" using assms unat_u32_len by metis
  with eq show "a = b \<and> x = y" by (simp add: chunk_def)
qed simp

lemma sub_key_inject [simp]: "sub_key s sub x = sub_key s sub' y \<longleftrightarrow> sub = sub' \<and> x = y"
  by (simp add: sub_key_def)

text \<open>A name that fits a chunk; every name of a decoded command does.\<close>

definition name_ok :: "bytes \<Rightarrow> bool" where
  "name_ok b \<longleftrightarrow> length b < 2 ^ 32"

lemma scope_key_inject [simp]:
  assumes "name_ok ns" "name_ok coll" "name_ok ns'" "name_ok coll'"
  shows "scope_key s ns coll sc x = scope_key s ns' coll' sc' y \<longleftrightarrow>
    ns = ns' \<and> coll = coll' \<and> sc = sc' \<and> x = y"
  using assms by (auto simp: scope_key_def chunk_inject name_ok_def)

lemma scope_key_neq_sub [simp]:
  "sub \<noteq> subData \<Longrightarrow> scope_key s ns coll sc x \<noteq> sub_key s sub y"
  "sub \<noteq> subData \<Longrightarrow> sub_key s sub y \<noteq> scope_key s ns coll sc x"
  by (simp_all add: scope_key_def)

lemma scope_keys [key_simps]:
  "cardKey s ns coll = scope_key s ns coll scopeCard []"
  "typeKey s ns coll = scope_key s ns coll scopeType []"
  "elemKey s ns coll m = scope_key s ns coll scopeElem m"
  "zscoreKey s ns coll sc m = scope_key s ns coll scopeElem (sortableScore sc @ m)"
  "zptrKey s ns coll m = scope_key s ns coll scopeZPtr m"
  "ttlPtrKey s ns coll m = scope_key s ns coll scopeTTLPtr m"
  "budPoolKey s ns coll = scope_key s ns coll scopeBudPool []"
  "budLeaseKey s ns coll m = scope_key s ns coll scopeBudLease m"
  "budTombKey s ns coll m = scope_key s ns coll scopeBudTomb m"
  by (simp_all add: scope_key_def sub_key_def cardKey_def typeKey_def elemKey_def elemPrefix_def
      zscoreKey_def zptrKey_def ttlPtrKey_def budPoolKey_def budLeaseKey_def budLeasePrefix_def
      budTombKey_def collScope_def dataSpace_def appendChunk_chunk)

lemma sub_keys [key_simps]:
  "appliedKey s = sub_key s subMeta (str ''applied'')"
  "dedupSeqKey s = sub_key s subMeta (str ''dedupseq'')"
  "dedupKey s k = sub_key s subDedup k"
  "dedupRingKey s w = sub_key s subDedupRing (PutUint64 w)"
  "frozenKey s k = sub_key s subMeta (frozenTag # k)"
  "ttlIndexKey s e ns coll m = sub_key s subTTL (PutUint64 e @ chunk ns @ chunk coll @ m)"
  "budExpKey s e ns coll m = sub_key s subBudExp (PutUint64 e @ chunk ns @ chunk coll @ m)"
  "budTombGCKey s e ns coll m = sub_key s subBudTombGC (PutUint64 e @ chunk ns @ chunk coll @ m)"
  by (simp_all add: sub_key_def appliedKey_def dedupSeqKey_def dedupKey_def dedupRingKey_def
      frozenKey_def frozenSpace_def ttlIndexKey_def ttlSpace_def budExpKey_def budExpSpace_def
      budTombGCKey_def budTombGCSpace_def appendChunk_chunk)

lemma sub_neq [simp]:
  "subMeta \<noteq> subData" "subMeta \<noteq> subTTL" "subMeta \<noteq> subDedup" "subMeta \<noteq> subDedupRing" "subMeta \<noteq> subBudExp" "subMeta \<noteq> subBudTombGC"
  "subData \<noteq> subMeta" "subData \<noteq> subTTL" "subData \<noteq> subDedup" "subData \<noteq> subDedupRing" "subData \<noteq> subBudExp" "subData \<noteq> subBudTombGC"
  "subTTL \<noteq> subMeta" "subTTL \<noteq> subData" "subTTL \<noteq> subDedup" "subTTL \<noteq> subDedupRing" "subTTL \<noteq> subBudExp" "subTTL \<noteq> subBudTombGC"
  "subDedup \<noteq> subMeta" "subDedup \<noteq> subData" "subDedup \<noteq> subTTL" "subDedup \<noteq> subDedupRing" "subDedup \<noteq> subBudExp" "subDedup \<noteq> subBudTombGC"
  "subDedupRing \<noteq> subMeta" "subDedupRing \<noteq> subData" "subDedupRing \<noteq> subTTL" "subDedupRing \<noteq> subDedup" "subDedupRing \<noteq> subBudExp" "subDedupRing \<noteq> subBudTombGC"
  "subBudExp \<noteq> subMeta" "subBudExp \<noteq> subData" "subBudExp \<noteq> subTTL" "subBudExp \<noteq> subDedup" "subBudExp \<noteq> subDedupRing" "subBudExp \<noteq> subBudTombGC"
  "subBudTombGC \<noteq> subMeta" "subBudTombGC \<noteq> subData" "subBudTombGC \<noteq> subTTL" "subBudTombGC \<noteq> subDedup" "subBudTombGC \<noteq> subDedupRing" "subBudTombGC \<noteq> subBudExp"
  by (simp_all add: sub_defs)

lemma scope_neq [simp]:
  "scopeCard \<noteq> scopeElem" "scopeCard \<noteq> scopeZPtr" "scopeCard \<noteq> scopeType" "scopeCard \<noteq> scopeTTLPtr" "scopeCard \<noteq> scopeBudPool" "scopeCard \<noteq> scopeBudLease" "scopeCard \<noteq> scopeBudTomb"
  "scopeElem \<noteq> scopeCard" "scopeElem \<noteq> scopeZPtr" "scopeElem \<noteq> scopeType" "scopeElem \<noteq> scopeTTLPtr" "scopeElem \<noteq> scopeBudPool" "scopeElem \<noteq> scopeBudLease" "scopeElem \<noteq> scopeBudTomb"
  "scopeZPtr \<noteq> scopeCard" "scopeZPtr \<noteq> scopeElem" "scopeZPtr \<noteq> scopeType" "scopeZPtr \<noteq> scopeTTLPtr" "scopeZPtr \<noteq> scopeBudPool" "scopeZPtr \<noteq> scopeBudLease" "scopeZPtr \<noteq> scopeBudTomb"
  "scopeType \<noteq> scopeCard" "scopeType \<noteq> scopeElem" "scopeType \<noteq> scopeZPtr" "scopeType \<noteq> scopeTTLPtr" "scopeType \<noteq> scopeBudPool" "scopeType \<noteq> scopeBudLease" "scopeType \<noteq> scopeBudTomb"
  "scopeTTLPtr \<noteq> scopeCard" "scopeTTLPtr \<noteq> scopeElem" "scopeTTLPtr \<noteq> scopeZPtr" "scopeTTLPtr \<noteq> scopeType" "scopeTTLPtr \<noteq> scopeBudPool" "scopeTTLPtr \<noteq> scopeBudLease" "scopeTTLPtr \<noteq> scopeBudTomb"
  "scopeBudPool \<noteq> scopeCard" "scopeBudPool \<noteq> scopeElem" "scopeBudPool \<noteq> scopeZPtr" "scopeBudPool \<noteq> scopeType" "scopeBudPool \<noteq> scopeTTLPtr" "scopeBudPool \<noteq> scopeBudLease" "scopeBudPool \<noteq> scopeBudTomb"
  "scopeBudLease \<noteq> scopeCard" "scopeBudLease \<noteq> scopeElem" "scopeBudLease \<noteq> scopeZPtr" "scopeBudLease \<noteq> scopeType" "scopeBudLease \<noteq> scopeTTLPtr" "scopeBudLease \<noteq> scopeBudPool" "scopeBudLease \<noteq> scopeBudTomb"
  "scopeBudTomb \<noteq> scopeCard" "scopeBudTomb \<noteq> scopeElem" "scopeBudTomb \<noteq> scopeZPtr" "scopeBudTomb \<noteq> scopeType" "scopeBudTomb \<noteq> scopeTTLPtr" "scopeBudTomb \<noteq> scopeBudPool" "scopeBudTomb \<noteq> scopeBudLease"
  by (simp_all add: scope_defs)

section \<open>The contents after the collected writes\<close>

definition base :: "base_sm \<Rightarrow> bytes \<Rightarrow> bytes option" where
  "base s = mem_view (sm_store s) CFReplData"

definition eff :: "update_ctx \<Rightarrow> bytes \<Rightarrow> bytes option" where
  "eff u = view_ops (mem_view (sm_store (u_s u))) (u_ops u) CFReplData"

lemma eff_emit [eff_simps]:
  "eff (emit_put k v u) = (eff u)(k \<mapsto> v)"
  "eff (emit_del k u) = (eff u)(k := None)"
  by (simp_all add: eff_def emit_put_def emit_del_def view_ops_append view_ops_Cons view_ops_Nil view_simps)

lemma eff_overlay [eff_simps]:
  "eff (set_exists k b u) = eff u" "eff (set_zscore k z u) = eff u" "eff (set_vals k v u) = eff u"
  "eff (add_card k d u) = eff u" "eff (u\<lparr>u_htype := h\<rparr>) = eff u"
  "eff (u\<lparr>u_inBatchDedup := ib\<rparr>) = eff u" "eff (u\<lparr>u_dedupSeq := n\<rparr>) = eff u"
  by (simp_all add: eff_def set_exists_def set_zscore_def set_vals_def add_card_def)

lemma u_s_frame [simp]:
  "u_s (emit_put k v u) = u_s u" "u_s (emit_del k u) = u_s u" "u_s (set_exists k b u) = u_s u"
  "u_s (set_zscore k z u) = u_s u" "u_s (set_vals k w u) = u_s u" "u_s (add_card k d u) = u_s u"
  by (simp_all add: emit_put_def emit_del_def set_exists_def set_zscore_def set_vals_def add_card_def)

definition healthy :: "base_sm \<Rightarrow> bool" where
  "healthy s \<longleftrightarrow> mem_invar (sm_store s)"

lemma getData_base: "healthy s \<Longrightarrow> getData s k = Inr (base s k)"
  by (simp add: healthy_def getData_def mem.get_view base_def)

section \<open>Extending a context\<close>

text \<open>
  An operation only appends writes to the shard's column family, never touches the store, and keeps
  the counters keyed by cardinality keys; on a healthy store it never fails fatally.
\<close>

definition card_keys :: "base_sm \<Rightarrow> bytes set" where
  "card_keys s = {cardKey s ns coll | ns coll. name_ok ns \<and> name_ok coll}"

definition ctx_ext :: "update_ctx \<Rightarrow> update_ctx \<Rightarrow> bool" where
  "ctx_ext u u' \<longleftrightarrow> u_s u' = u_s u \<and>
     (\<exists>ops. u_ops u' = u_ops u @ ops \<and> (\<forall>op \<in> set ops. op_CF op = CFReplData)) \<and>
     fst ` set (u_cardDelta u') \<subseteq> fst ` set (u_cardDelta u) \<union> card_keys (u_s u) \<and>
     (distinct (map fst (u_cardDelta u)) \<longrightarrow> distinct (map fst (u_cardDelta u')))"

definition safe :: "update_ctx \<Rightarrow> 'a upd \<Rightarrow> bool" where
  "safe u r \<longleftrightarrow> ctx_ext u (snd r) \<and> (\<forall>e. healthy (u_s u) \<longrightarrow> fst r = Inl e \<longrightarrow> \<not> isFatal e)"

lemma ctx_ext_refl [simp, intro]: "ctx_ext u u"
  by (simp add: ctx_ext_def)

lemma ctx_ext_emit [simp, intro]:
  assumes "ctx_ext u v"
  shows "ctx_ext u (emit_put k b v)" "ctx_ext u (emit_del k v)"
  using assms by (auto simp: ctx_ext_def emit_put_def emit_del_def put_op_def del_op_def)

lemma ctx_ext_overlay [simp, intro]:
  assumes "ctx_ext u v"
  shows "ctx_ext u (set_exists k b v)" "ctx_ext u (set_zscore k z v)" "ctx_ext u (set_vals k w v)"
    "ctx_ext u (v\<lparr>u_htype := h\<rparr>)" "ctx_ext u (v\<lparr>u_inBatchDedup := d\<rparr>)" "ctx_ext u (v\<lparr>u_dedupSeq := n\<rparr>)"
  using assms by (auto simp: ctx_ext_def set_exists_def set_zscore_def set_vals_def)

lemma ctx_ext_card [simp, intro]:
  "ctx_ext u v \<Longrightarrow> k \<in> card_keys (u_s u) \<Longrightarrow> ctx_ext u (add_card k d v)"
  by (auto simp: ctx_ext_def add_card_def dom_update intro: distinct_update)

lemma ctx_ext_u_s: "ctx_ext u v \<Longrightarrow> u_s v = u_s u"
  by (simp add: ctx_ext_def)

lemma restore_snapshot: "ctx_ext u v \<Longrightarrow> ctx_restore (ctx_snapshot u) v = u"
  by (auto simp: ctx_ext_def ctx_restore_def ctx_snapshot_def)

lemma safe_Inr [simp]: "safe u (Inr a, v) \<longleftrightarrow> ctx_ext u v"
  by (simp add: safe_def)

lemma safe_Inl [simp]: "safe u (Inl e, v) \<longleftrightarrow> ctx_ext u v \<and> (healthy (u_s u) \<longrightarrow> \<not> isFatal e)"
  by (auto simp: safe_def)

lemma safe_on_ok:
  assumes "safe u r" "\<And>a v. ctx_ext u v \<Longrightarrow> safe u (f a v)"
  shows "safe u (on_ok r f)"
  using assms by (cases r) (auto simp: on_ok_def safe_def split: sum.splits)

lemma safe_on_read:
  assumes "ctx_ext u v" "\<And>e. healthy (u_s v) \<Longrightarrow> r = Inl e \<Longrightarrow> \<not> isFatal e"
    "\<And>a. r = Inr a \<Longrightarrow> safe u (f a)"
  shows "safe u (on_read r v f)"
  using assms by (cases r) (auto simp: on_read_def ctx_ext_u_s)

section \<open>No operation fails fatally on a healthy store\<close>

lemma takeChunk_Inl: "takeChunk b = Inl e \<Longrightarrow> e = errShortCommand"
  by (auto simp: takeChunk_def Let_def split: if_splits)

lemma take_items_Inl: "take_items n b = Inl e \<Longrightarrow> e = errShortCommand"
  by (induction n b rule: take_items.induct)
    (auto simp: Let_def split: sum.splits if_splits dest: takeChunk_Inl)

lemma take_chunks_Inl: "take_chunks n b = Inl e \<Longrightarrow> e = errShortCommand"
  by (induction n b rule: take_chunks.induct) (auto split: sum.splits dest: takeChunk_Inl)

lemma take_kvs_Inl: "take_kvs n b = Inl e \<Longrightarrow> e = errShortCommand"
  by (induction n b rule: take_kvs.induct) (auto split: sum.splits dest: takeChunk_Inl)

lemma sum_bind_Inl:
  "(case r of Inl e \<Rightarrow> Inl e | Inr x \<Rightarrow> f x) = Inl d \<Longrightarrow> r = Inl d \<or> (\<exists>x. r = Inr x \<and> f x = Inl d)"
  by (cases r) simp_all

lemma sum_pair_Inl:
  "(case r of Inl e \<Rightarrow> Inl e | Inr (x, y) \<Rightarrow> f x y) = Inl d \<Longrightarrow> r = Inl d \<or> (\<exists>x y. f x y = Inl d)"
  by (cases r) auto

lemma decodeCommandInto_Inl: "decodeCommandInto b = Inl e \<Longrightarrow> e \<in> {errShortCommand, errUnknownOp}"
  unfolding decodeCommandInto_def
  by (cases b) (auto split: if_split_asm dest!: sum_pair_Inl sum_bind_Inl takeChunk_Inl take_items_Inl)

lemma decodeBatch_Inl: "decodeBatch b = Inl e \<Longrightarrow> e = errShortCommand"
  by (auto simp: decodeBatch_def split: list.splits if_splits dest: take_chunks_Inl)

lemma decodeIngest_Inl: "decodeIngest b = Inl e \<Longrightarrow> e = errShortCommand"
  by (auto simp: decodeIngest_def split: if_splits dest: take_kvs_Inl)

lemma decodePurge_Inl: "decodePurge b = Inl e \<Longrightarrow> e = errShortCommand"
  by (auto simp: decodePurge_def split: sum.splits if_splits dest: takeChunk_Inl)

lemmas decode_Inl = decodeCommandInto_Inl decodeBatch_Inl decodeIngest_Inl decodePurge_Inl

lemma bud_decode_Inl:
  "decodePool b = Inl e \<Longrightarrow> e = errShortPool"
  "decodeLease b = Inl e \<Longrightarrow> e \<in> {errShortLease, errShortCommand}"
  "decodeTomb b = Inl e \<Longrightarrow> e = errShortTomb"
  by (auto simp: decodePool_def decodeLease_def decodeTomb_def Let_def split: if_splits sum.splits
      dest: takeChunk_Inl)

lemma read_nonfatal:
  assumes "healthy (u_s u)"
  shows "getData (u_s u) k = Inl e \<Longrightarrow> \<not> isFatal e"
    "elemExists k u = Inl e \<Longrightarrow> \<not> isFatal e"
    "zScore ns coll m u = Inl e \<Longrightarrow> \<not> isFatal e"
    "ttlExpiryOf (u_s u) ns coll m = Inl e \<Longrightarrow> \<not> isFatal e"
    "fieldVal k u = Inl e \<Longrightarrow> \<not> isFatal e"
    "dedupGet (u_s u) k = Inl e \<Longrightarrow> \<not> isFatal e"
  using assms
  by (auto simp: getData_base elemExists_def zScore_def ttlExpiryOf_def fieldVal_def dedupGet_def Let_def
      split: option.splits if_splits)

lemma bud_read_nonfatal:
  assumes "healthy (u_s u)"
  shows "getPool ns coll u = Inl e \<Longrightarrow> \<not> isFatal e"
    "getLease ns coll m u = Inl e \<Longrightarrow> \<not> isFatal e"
    "getTomb ns coll m u = Inl e \<Longrightarrow> \<not> isFatal e"
  using assms
  by (auto simp: getPool_def getLease_def getTomb_def get_rec_def getData_base map_sum_def
      split: option.splits sum.splits dest: bud_decode_Inl)

definition cmd_ok :: "coll_command \<Rightarrow> bool" where
  "cmd_ok c \<longleftrightarrow> name_ok (cmd_NS c) \<and> name_ok (cmd_Coll c)"

lemma decode_cmd_ok: "decodeCommandInto b = Inr c \<Longrightarrow> cmd_ok c"
  using decodeCommand_ok [of b c] by (simp add: decodeCommand_def cmd_ok_def name_ok_def)

lemma card_keys_I [simp]:
  assumes "ctx_ext u v" "cmd_ok c"
  shows "cardKey (u_s v) (cmd_NS c) (cmd_Coll c) \<in> card_keys (u_s u)" "ctx_card c v \<in> card_keys (u_s u)"
  using ctx_ext_u_s [OF assms(1)] assms(2) by (auto simp: card_keys_def ctx_card_def cmd_ok_def)

lemma safe_reads:
  assumes "ctx_ext u v"
  shows "(\<And>a. safe u (f0 a)) \<Longrightarrow> safe u (on_read (getData (u_s v) k) v f0)"
    "(\<And>a. safe u (f1 a)) \<Longrightarrow> safe u (on_read (elemExists k v) v f1)"
    "(\<And>a. safe u (f2 a)) \<Longrightarrow> safe u (on_read (zScore ns coll m v) v f2)"
    "(\<And>a. safe u (f3 a)) \<Longrightarrow> safe u (on_read (ttlExpiryOf (u_s v) ns coll m) v f3)"
    "(\<And>a. safe u (f4 a)) \<Longrightarrow> safe u (on_read (fieldVal k v) v f4)"
    "(\<And>a. safe u (f5 a)) \<Longrightarrow> safe u (on_read (dedupGet (u_s v) k) v f5)"
    "(\<And>a. safe u (f6 a)) \<Longrightarrow> safe u (on_read (getPool ns coll v) v f6)"
    "(\<And>a. safe u (f7 a)) \<Longrightarrow> safe u (on_read (getLease ns coll m v) v f7)"
    "(\<And>a. safe u (f8 a)) \<Longrightarrow> safe u (on_read (getTomb ns coll m v) v f8)"
  using read_nonfatal [of v] bud_read_nonfatal [of v] by (auto intro!: safe_on_read assms)

lemma safe_decodes:
  assumes "ctx_ext u v"
  shows "(\<And>a. cmd_ok a \<Longrightarrow> safe u (f0 a)) \<Longrightarrow> safe u (on_read (decodeCommandInto b) v f0)"
    "(\<And>a. safe u (f1 a)) \<Longrightarrow> safe u (on_read (decodeBatch b) v f1)"
    "(\<And>a. safe u (f2 a)) \<Longrightarrow> safe u (on_read (decodeIngest b) v f2)"
    "(\<And>a. safe u (f3 a)) \<Longrightarrow> safe u (on_read (decodePurge b) v f3)"
  using decode_Inl [of b] by (auto intro!: safe_on_read assms dest: decode_cmd_ok)

lemmas safe_rules = safe_reads safe_decodes safe_on_ok

lemma safe_types:
  assumes "ctx_ext u v"
  shows "safe u (typeOf ns coll v)" "safe u (ensureType ns coll t v)"
  using assms by (auto simp: typeOf_def ensureType_def Let_def getData_base ctx_ext_u_s
      split: option.splits sum.splits list.splits)

lemma safe_TTL:
  assumes "ctx_ext u v"
  shows "safe u (setTTL ns coll m e v)" "safe u (clearTTL ns coll m v)"
  using assms by (auto simp: setTTL_def clearTTL_def Let_def intro!: safe_rules split: option.splits)

lemma safe_dedupRecord: "ctx_ext u v \<Longrightarrow> safe u (dedupRecord k w d v)"
  by (auto simp: dedupRecord_def Let_def intro!: safe_rules split: option.splits)

lemma safe_hincr:
  assumes "ctx_ext u v" "cmd_ok c"
  shows "safe u (applyHIncrInt c it v)" "safe u (applyHIncrFloat fl c it v)"
  using assms by (auto simp: applyHIncrInt_def applyHIncrFloat_def setFieldVal_def touchField_def Let_def
      intro!: safe_rules split: option.splits)

lemma safe_elems:
  assumes "ctx_ext u v" "cmd_ok c"
  shows "safe u (apply_sadd c it v)" "safe u (remove_elem c it v)" "safe u (apply_hset c it v)"
  using assms by (auto simp: apply_sadd_def remove_elem_def apply_hset_def Let_def
      intro!: safe_rules safe_TTL split: option.splits if_splits)

lemma safe_expire: "ctx_ext u v \<Longrightarrow> cmd_ok c \<Longrightarrow> safe u (apply_expire c it v)"
  by (auto simp: apply_expire_def Let_def intro!: safe_rules safe_TTL split: option.splits)

lemma safe_zelems:
  assumes "ctx_ext u v" "cmd_ok c"
  shows "safe u (apply_zadd c it v)" "safe u (remove_z c it v)"
  using assms by (auto simp: apply_zadd_def remove_z_def Let_def
      intro!: safe_rules split: option.splits if_splits)

lemma safe_remove: "ctx_ext u v \<Longrightarrow> cmd_ok c \<Longrightarrow> safe u (apply_remove c it v)"
  by (auto simp: apply_remove_def intro!: safe_rules safe_types safe_elems safe_zelems)

lemma safe_item: "ctx_ext u v \<Longrightarrow> cmd_ok c \<Longrightarrow> safe u (apply_item c it v)"
  by (simp add: apply_item_def Let_def safe_elems safe_expire safe_zelems safe_remove)

lemma safe_items: "ctx_ext u v \<Longrightarrow> cmd_ok c \<Longrightarrow> safe u (apply_items c n its v)"
  by (induction its arbitrary: n v) (auto intro!: safe_rules safe_item)

lemma safe_applyCommand: "ctx_ext u v \<Longrightarrow> cmd_ok c \<Longrightarrow> safe u (applyCommand c v)"
  by (simp add: applyCommand_def safe_items)

lemma ctx_ext_bud [simp, intro]:
  assumes "ctx_ext u v"
  shows "ctx_ext u (setPool ns coll p v)" "ctx_ext u (setLease ns coll m l v)" "ctx_ext u (delLease ns coll m v)"
    "ctx_ext u (setTomb ns coll m tb v)" "ctx_ext u (delTomb ns coll m v)" "ctx_ext u (setBudExp ns coll m e v)"
    "ctx_ext u (delBudExp ns coll m e v)" "ctx_ext u (setBudTombGC ns coll m e v)"
    "ctx_ext u (delBudTombGC ns coll m e v)"
  using assms by (simp_all add: setPool_def setLease_def delLease_def setTomb_def delTomb_def setBudExp_def
      delBudExp_def setBudTombGC_def delBudTombGC_def Let_def)

lemma safe_budInit: "ctx_ext u v \<Longrightarrow> safe u (applyBudInit c v)"
  by (auto simp: applyBudInit_def Let_def intro!: safe_rules safe_types)

lemma safe_budGrant: "ctx_ext u v \<Longrightarrow> safe u (applyBudGrant c v)"
  by (auto simp: applyBudGrant_def grant_lease_def Let_def intro!: safe_rules split: option.splits)

lemma safe_budReport: "ctx_ext u v \<Longrightarrow> safe u (applyBudReport c v)"
  by (auto simp: applyBudReport_def Let_def intro!: safe_rules split: option.splits prod.splits)

lemma safe_budReturn: "ctx_ext u v \<Longrightarrow> safe u (applyBudReturn c v)"
  by (auto simp: applyBudReturn_def Let_def intro!: safe_rules split: option.splits prod.splits)

lemma safe_budExpire: "ctx_ext u v \<Longrightarrow> safe u (applyBudExpire c v)"
  by (auto simp: applyBudExpire_def Let_def intro!: safe_rules split: option.splits)

lemma safe_budRest:
  assumes "ctx_ext u v"
  shows "safe u (applyBudTombGC c v)" "safe u (applyBudReconcile c v)"
  using assms by (auto simp: applyBudTombGC_def applyBudReconcile_def Let_def intro!: safe_rules split: option.splits)

lemma safe_budget: "ctx_ext u v \<Longrightarrow> safe u (apply_budget c v)"
  by (simp add: apply_budget_def safe_budInit safe_budGrant safe_budReport safe_budReturn safe_budExpire
      safe_budRest)

lemma safe_record_result: "ctx_ext u v \<Longrightarrow> safe u (record_result c r v)"
  by (auto simp: record_result_def intro!: safe_rules safe_dedupRecord)

lemma safe_apply_hincr: "ctx_ext u v \<Longrightarrow> cmd_ok c \<Longrightarrow> safe u (apply_hincr fl d c v)"
  by (auto simp: apply_hincr_def intro!: safe_rules safe_hincr safe_record_result split: prod.splits)

lemma safe_fresh: "ctx_ext u v \<Longrightarrow> cmd_ok c \<Longrightarrow> safe u (apply_fresh fl d c v)"
  by (auto simp: apply_fresh_def intro!: safe_rules safe_types safe_apply_hincr safe_budget
      safe_applyCommand safe_record_result)

lemma safe_applyOne: "ctx_ext u v \<Longrightarrow> safe u (applyOne fl frozen cmd v)"
  by (auto simp: applyOne_def Let_def intro!: safe_rules safe_fresh split: option.splits)

lemma safe_subs: "ctx_ext u v \<Longrightarrow> safe u (apply_subs fl frozen rs cmds v)"
  by (induction cmds arbitrary: rs v) (auto intro!: safe_rules safe_applyOne)

lemma ctx_ext_fold:
  "ctx_ext u v \<Longrightarrow> ctx_ext u (foldl (\<lambda>u kv. emit_put (f u kv) (g kv) u) v kvs)"
  "ctx_ext u v \<Longrightarrow> ctx_ext u (foldl (\<lambda>u kv. emit_del (f u kv) u) v kvs)"
  by (induction kvs arbitrary: v) simp_all

lemma scan_nonfatal: "healthy s \<Longrightarrow> scanRange (MemStore_Scan (sm_store s)) p a b l \<noteq> Inl e"
  using mem.scan_all [of "sm_store s" CFReplData "Some p" "prefixEnd p"]
  by (auto simp: scanRange_def healthy_def)

lemma safe_migrate: "ctx_ext u v \<Longrightarrow> safe u (applyMigrate cmd v)"
  by (auto simp: applyMigrate_def scan_nonfatal ctx_ext_u_s intro!: safe_rules ctx_ext_fold
      split: sum.splits prod.splits)

lemma safe_freeze: "ctx_ext u v \<Longrightarrow> safe u (applyFreeze cmd v)"
  by (auto simp: applyFreeze_def intro!: safe_rules)

lemma safe_wrap: "safe u r \<Longrightarrow> safe u (wrap_upd i r)"
  by (cases r) (auto simp: wrap_upd_def wrap_def safe_def split: sum.splits)

lemma safe_applyEntry: "ctx_ext u v \<Longrightarrow> safe u (applyEntry fl frozen e v)"
  by (auto simp: applyEntry_def Let_def intro!: safe_wrap safe_rules safe_migrate safe_freeze safe_subs
      safe_applyOne)

lemma safe_applyEntrySafe: "ctx_ext u v \<Longrightarrow> safe u (applyEntrySafe fl frozen e v)"
  using safe_applyEntry [of u v fl frozen e]
  by (auto simp: applyEntrySafe_def safe_def split: prod.splits sum.splits coll_error.splits)

section \<open>Skipping a corrupt entry\<close>

lemma apply_entries_skip:
  assumes "applyEntrySafe fl frozen e u = (Inl err, u')" and "\<not> isFatal err"
  shows "apply_entries fl frozen (e # es) u =
    on_ok (apply_entries fl frozen es u) (\<lambda>es u. (Inr (e\<lparr>e_Result := result 0 []\<rparr> # es), u))"
proof -
  have "ctx_ext u u'" using safe_applyEntrySafe [of u u fl frozen e] assms(1) by simp
  then show ?thesis using assms by (simp add: restore_snapshot)
qed

text \<open>C6: An entry that cannot be applied, whatever its bytes, is skipped without a trace: the entries
  after it see exactly the context before it, and it gets the empty result.
\<close>

theorem corrupt_entry_skipped:
  assumes "applyEntrySafe fl frozen e u = (Inl err, u')" and "healthy (u_s u)"
  shows "apply_entries fl frozen (e # es) u =
    on_ok (apply_entries fl frozen es u) (\<lambda>es u. (Inr (e\<lparr>e_Result := result 0 []\<rparr> # es), u))"
  using assms safe_applyEntrySafe [of u u fl frozen e] by (intro apply_entries_skip) auto

lemma apply_entries_ok:
  assumes "healthy (u_s u)" "ctx_ext u0 u" "u_s u0 = u_s u"
  shows "\<exists>es' u'. apply_entries fl frozen es u = (Inr es', u') \<and> ctx_ext u0 u' \<and> length es' = length es"
  using assms
proof (induction es arbitrary: u)
  case Nil
  then show ?case by simp
next
  case (Cons e es)
  have s: "safe u0 (applyEntrySafe fl frozen e u)" using Cons.prems by (intro safe_applyEntrySafe)
  have r: "safe u (applyEntrySafe fl frozen e u)" by (intro safe_applyEntrySafe) simp
  obtain x u' where x: "applyEntrySafe fl frozen e u = (x, u')" by fastforce
  show ?case
  proof (cases x)
    case (Inl err)
    then have "\<not> isFatal err" using s x Cons.prems by simp
    then show ?thesis
      using apply_entries_skip [of fl frozen e u err u' es] x Inl Cons.IH [OF Cons.prems]
      by (auto simp: on_ok_def)
  next
    case (Inr a)
    then have "ctx_ext u0 u'" using s x by simp
    moreover from this have "u_s u' = u_s u" using Cons.prems(3) by (simp add: ctx_ext_def)
    ultimately obtain es' v where "apply_entries fl frozen es u' = (Inr es', v)" "ctx_ext u0 v"
      "length es' = length es"
      using Cons.IH [of u'] Cons.prems by auto
    then show ?thesis using x Inr by (simp add: on_ok_def)
  qed
qed

definition cards_ok :: "base_sm \<Rightarrow> bool" where
  "cards_ok s \<longleftrightarrow> (\<forall>ck \<in> card_keys s. \<forall>v. base s ck = Some v \<longrightarrow> length v = 8)"

lemma flush_cards_ok:
  assumes "healthy (u_s u)" "cards_ok (u_s u)" "fst ` set ds \<subseteq> card_keys (u_s u)" "ctx_ext u0 u"
  shows "\<exists>u'. flush_cards ds u = (Inr (), u') \<and> ctx_ext u0 u'"
  using assms
proof (induction ds arbitrary: u)
  case Nil
  then show ?case by simp
next
  case (Cons d ds)
  obtain ck delta where d: "d = (ck, delta)" by fastforce
  have ck: "ck \<in> card_keys (u_s u)" using Cons.prems d by simp
  obtain cur where "readCard (u_s u) ck = Inr cur"
    using Cons.prems(1,2) ck by (fastforce simp: readCard_def getData_base cards_ok_def split: option.splits)
  then show ?case
    using Cons.IH [of u] Cons.IH [of "emit_put ck v u" for v] Cons.prems d
    by (auto simp: on_read_def Let_def)
qed

lemma loadFrozen_ok: "healthy s \<Longrightarrow> \<exists>fr. loadFrozen s = Inr fr"
  using mem.scan_all [of "sm_store s" CFReplData "Some (frozenSpace s)" "prefixEnd (frozenSpace s)"]
  by (auto simp: loadFrozen_def Let_def healthy_def)

lemma readDedupSeq_ok: "healthy s \<Longrightarrow> \<exists>n. readDedupSeq s = Inr n"
  by (auto simp: readDedupSeq_def getData_base split: option.splits)

lemma flush_seq_ext: "ctx_ext u v \<Longrightarrow> ctx_ext u (flush_seq n v)"
  by (simp add: flush_seq_def)

lemma flush_seq_cards [simp]: "u_cardDelta (flush_seq n u) = u_cardDelta u" "u_s (flush_seq n u) = u_s u"
  by (simp_all add: flush_seq_def emit_put_def)

text \<open>The run of an \<open>Update\<close> on a healthy shard, laid out.\<close>

lemma Update_run:
  assumes "healthy s" "cards_ok s" "entries \<noteq> []"
  obtains frozen seq es u u' where
    "loadFrozen s = Inr frozen" "readDedupSeq s = Inr seq"
    "apply_entries fl frozen entries (new_ctx s seq) = (Inr es, u)"
    "length es = length entries" "ctx_ext (new_ctx s seq) u"
    "flush_cards (u_cardDelta u) (flush_seq seq u) = (Inr (), u')" "ctx_ext (new_ctx s seq) u'"
    "fst (Update fl s entries) = Inr es" "sm_prefix (snd (Update fl s entries)) = sm_prefix s"
    "healthy (snd (Update fl s entries))"
    "base (snd (Update fl s entries)) = (eff u')(appliedKey s \<mapsto> PutUint64 (e_Index (last entries)))"
proof -
  obtain frozen seq where fr: "loadFrozen s = Inr frozen" and sq: "readDedupSeq s = Inr seq"
    using loadFrozen_ok readDedupSeq_ok assms(1) by blast
  let ?u0 = "new_ctx s seq"
  have u0 [simp]: "u_s ?u0 = s" "u_ops ?u0 = []" "u_cardDelta ?u0 = []" by (simp_all add: new_ctx_def)
  obtain es u where ae: "apply_entries fl frozen entries ?u0 = (Inr es, u)" "ctx_ext ?u0 u"
    "length es = length entries"
    using apply_entries_ok [of ?u0 ?u0 fl frozen entries] assms(1) by auto
  then have us: "u_s u = s" "fst ` set (u_cardDelta u) \<subseteq> card_keys s" by (auto simp: ctx_ext_def)
  obtain u' where fc: "flush_cards (u_cardDelta u) (flush_seq seq u) = (Inr (), u')" "ctx_ext ?u0 u'"
    using flush_cards_ok [of "flush_seq seq u" "u_cardDelta u" ?u0] us assms ae(2)
    by (auto intro: flush_seq_ext)
  let ?u'' = "emit_put (appliedKey s) (PutUint64 (e_Index (last entries))) u'"
  have "ctx_ext ?u0 ?u''" using fc(2) by simp
  then have ops: "\<forall>op \<in> set (u_ops ?u''). cf_valid (op_CF op)" by (auto simp: ctx_ext_def)
  have u': "u_s u' = s" using fc(2) by (simp add: ctx_ext_def)
  obtain st where st: "MemStore_BatchRC (sm_store s) (u_ops ?u'') = (st, None)" "mem_invar st"
    "mem_view st = view_ops (mem_view (sm_store s)) (u_ops ?u'')"
    using mem.batch_view [OF _ ops, of "sm_store s"] assms(1) by (auto simp: healthy_def)
  have upd: "Update fl s entries = (Inr es, s\<lparr>sm_store := st\<rparr>)"
    using assms(3) fr sq ae(1) fc(1) st(1) by (simp add: Update_def on_ok_def Let_def)
  have "base (s\<lparr>sm_store := st\<rparr>) = eff ?u''" using st(3) u' by (simp add: base_def eff_def)
  also have "\<dots> = (eff u')(appliedKey s \<mapsto> PutUint64 (e_Index (last entries)))" by (simp add: eff_simps)
  finally show thesis
    using that [OF fr sq ae(1,3,2) fc] upd st(2) by (simp add: healthy_def)
qed


definition demo_float :: float_lib where
  "demo_float = \<lparr>fl_add = (\<lambda>a b. a), fl_ParseFloat = (\<lambda>b. None), fl_FormatFloat = (\<lambda>f. [])\<rparr>"

definition demo_shard :: base_sm where
  "demo_shard = newShardSM NewMemStore 2"

lemma demo_shard_simps [simp]:
  "healthy demo_shard" "base demo_shard k = None" "cards_ok demo_shard" "sm_prefix demo_shard = PutUint64 2"
  by (simp_all add: demo_shard_def newShardSM_def newBaseSM_def healthy_def base_def cards_ok_def)

theorem corrupt_entry_skipped_witness:
  "let e = \<lparr>e_Index = 7, e_Cmd = [], e_Result = result 3 []\<rparr> in
   apply_entries demo_float [] [e] (new_ctx demo_shard 0) = (Inr [e\<lparr>e_Result := result 0 []\<rparr>], new_ctx demo_shard 0)"
proof -
  have "applyEntrySafe demo_float [] \<lparr>e_Index = 7, e_Cmd = [], e_Result = result 3 []\<rparr> (new_ctx demo_shard 0) =
      (Inl (corruptEntry 7 errShortCommand), new_ctx demo_shard 0)"
    by (simp add: applyEntrySafe_def applyEntry_def applyOne_def decodeCommandInto_def on_read_def wrap_upd_def wrap_def)
  from corrupt_entry_skipped [OF this, of "[]"] show ?thesis
    by (simp add: on_ok_def new_ctx_def Let_def)
qed


definition poison :: entry where
  "poison = \<lparr>e_Index = 1, e_Cmd = encodeIngest [\<lparr>kv_Suffix = subData # chunk [] @ chunk [] @ [scopeCard], kv_Value = [0]\<rparr>],
     e_Result = result 0 []\<rparr>"

definition innocent :: entry where
  "innocent = \<lparr>e_Index = 2, e_Cmd = encodeCommand \<lparr>cmd_Op = opSAdd, cmd_NS = [], cmd_Coll = [], cmd_Idem = [],
      cmd_Items = [\<lparr>item_Key = [1], item_Val = [], item_Score = 0, item_ExpiryMs = 0\<rparr>]\<rparr>, e_Result = result 0 []\<rparr>"

lemma ingest_poisons_card:
  "fst (Update demo_float (snd (Update demo_float demo_shard [poison])) [innocent]) = Inl (fatalErr errCorruptCard)"
  by code_simp

end
