(* ===== verification/Coll_View.thy ===== *)
theory Coll_View
  imports Coll_Safety
begin

text \<open>
  The part of an update context that belongs to one collection (\<open>proj\<close>): its rows by scope, the overlays
  of the batch, its cached type and its pending cardinality change. \<open>coll_inv\<close> says that the
  overlays agree with the rows and that the stored cardinality plus the pending change counts the elements; the
  lemmas show which row changes keep it.
\<close>

section \<open>One collection of a context\<close>

record coll_state =
  c_rows :: "byte \<Rightarrow> bytes \<Rightarrow> bytes option"
  c_exists :: "bytes \<Rightarrow> bool option"
  c_zscore :: "bytes \<Rightarrow> float64 option option"
  c_vals :: "bytes \<Rightarrow> bytes option option"
  c_htype :: "collType option"
  c_delta :: i64

definition rows_of :: "base_sm \<Rightarrow> (bytes \<Rightarrow> bytes option) \<Rightarrow> bytes \<Rightarrow> bytes \<Rightarrow> byte \<Rightarrow> bytes \<Rightarrow> bytes option" where
  "rows_of s m ns coll sc x = m (scope_key s ns coll sc x)"

definition proj :: "update_ctx \<Rightarrow> bytes \<Rightarrow> bytes \<Rightarrow> coll_state" where
  "proj u ns coll =
     \<lparr>c_rows = rows_of (u_s u) (eff u) ns coll,
      c_exists = (\<lambda>x. u_exists u (scope_key (u_s u) ns coll scopeElem x)),
      c_zscore = (\<lambda>x. u_zscore u (scope_key (u_s u) ns coll scopeZPtr x)),
      c_vals = (\<lambda>x. u_vals u (scope_key (u_s u) ns coll scopeElem x)),
      c_htype = u_htype u (collScope (u_s u) ns coll),
      c_delta = card_delta u (cardKey (u_s u) ns coll)\<rparr>"

named_theorems proj_simps "a collection's view of an update context"

lemma collScope_inject:
  assumes "name_ok ns" "name_ok coll" "name_ok ns'" "name_ok coll'"
  shows "collScope s ns coll = collScope s ns' coll' \<longleftrightarrow> ns = ns' \<and> coll = coll'"
proof -
  have "collScope s ns coll = collScope s ns' coll' \<longleftrightarrow>
      scope_key s ns coll 0 [] = scope_key s ns' coll' 0 []"
    by (simp add: scope_key_def sub_key_def collScope_def dataSpace_def appendChunk_chunk)
  then show ?thesis using assms by simp
qed

lemma ctx_sel [simp]:
  "u_exists (emit_put k v u) = u_exists u" "u_exists (emit_del k u) = u_exists u"
  "u_zscore (emit_put k v u) = u_zscore u" "u_zscore (emit_del k u) = u_zscore u"
  "u_vals (emit_put k v u) = u_vals u" "u_vals (emit_del k u) = u_vals u"
  "u_htype (emit_put k v u) = u_htype u" "u_htype (emit_del k u) = u_htype u"
  "card_delta (emit_put k v u) = card_delta u" "card_delta (emit_del k u) = card_delta u"
  "u_zscore (set_exists k b u) = u_zscore u" "u_vals (set_exists k b u) = u_vals u"
  "u_htype (set_exists k b u) = u_htype u" "card_delta (set_exists k b u) = card_delta u"
  "u_exists (set_zscore k z u) = u_exists u" "u_vals (set_zscore k z u) = u_vals u"
  "u_htype (set_zscore k z u) = u_htype u" "card_delta (set_zscore k z u) = card_delta u"
  "u_exists (set_vals k w u) = u_exists u" "u_zscore (set_vals k w u) = u_zscore u"
  "u_htype (set_vals k w u) = u_htype u" "card_delta (set_vals k w u) = card_delta u"
  "u_exists (add_card k d u) = u_exists u" "u_zscore (add_card k d u) = u_zscore u"
  "u_vals (add_card k d u) = u_vals u" "u_htype (add_card k d u) = u_htype u"
  "u_exists (set_exists k b u) = (u_exists u)(k \<mapsto> b)" "u_zscore (set_zscore k z u) = (u_zscore u)(k \<mapsto> z)"
  "u_vals (set_vals k w u) = (u_vals u)(k \<mapsto> w)"
  "card_delta (add_card k d u) = (card_delta u)(k := card_delta u k + d)"
  by (simp_all add: fun_eq_iff emit_put_def emit_del_def set_exists_def set_zscore_def set_vals_def add_card_def
      card_delta_def update_conv)

definition names :: "bytes \<Rightarrow> bytes \<Rightarrow> bytes \<Rightarrow> bytes \<Rightarrow> bool" where
  "names ns coll ns' coll' \<longleftrightarrow> name_ok ns \<and> name_ok coll \<and> name_ok ns' \<and> name_ok coll'"

definition set_row :: "byte \<Rightarrow> bytes \<Rightarrow> bytes option \<Rightarrow> coll_state \<Rightarrow> coll_state" where
  "set_row sc x v c = c\<lparr>c_rows := (c_rows c)(sc := (c_rows c sc)(x := v))\<rparr>"

lemma proj_emit [proj_simps]:
  assumes "names ns coll ns' coll'" "s = u_s u"
  shows "proj (emit_put (scope_key s ns' coll' sc x) v u) ns coll =
      (if ns = ns' \<and> coll = coll' then set_row sc x (Some v) (proj u ns coll) else proj u ns coll)"
    "proj (emit_del (scope_key s ns' coll' sc x) u) ns coll =
      (if ns = ns' \<and> coll = coll' then set_row sc x None (proj u ns coll) else proj u ns coll)"
  using assms by (auto simp: proj_def set_row_def eff_simps rows_of_def fun_eq_iff names_def)

lemma proj_emit_sub [proj_simps]:
  assumes "sub \<noteq> subData" "s = u_s u"
  shows "proj (emit_put (sub_key s sub x) v u) ns coll = proj u ns coll"
    "proj (emit_del (sub_key s sub x) u) ns coll = proj u ns coll"
  using assms by (auto simp: proj_def eff_simps rows_of_def fun_eq_iff)

lemma proj_overlay [proj_simps]:
  assumes "names ns coll ns' coll'" "s = u_s u"
  shows "proj (set_exists (scope_key s ns' coll' scopeElem x) b u) ns coll =
      (if ns = ns' \<and> coll = coll' then (proj u ns coll)\<lparr>c_exists := (c_exists (proj u ns coll))(x \<mapsto> b)\<rparr>
       else proj u ns coll)"
    "proj (set_zscore (scope_key s ns' coll' scopeZPtr x) z u) ns coll =
      (if ns = ns' \<and> coll = coll' then (proj u ns coll)\<lparr>c_zscore := (c_zscore (proj u ns coll))(x \<mapsto> z)\<rparr>
       else proj u ns coll)"
    "proj (set_vals (scope_key s ns' coll' sc x) w u) ns coll =
      (if ns = ns' \<and> coll = coll' \<and> sc = scopeElem then (proj u ns coll)\<lparr>c_vals := (c_vals (proj u ns coll))(x \<mapsto> w)\<rparr>
       else proj u ns coll)"
    "proj (add_card (scope_key s ns' coll' scopeCard []) d u) ns coll =
      (if ns = ns' \<and> coll = coll' then (proj u ns coll)\<lparr>c_delta := c_delta (proj u ns coll) + d\<rparr>
       else proj u ns coll)"
    "h = u_htype u \<Longrightarrow> proj (u\<lparr>u_htype := h(collScope s ns' coll' \<mapsto> t)\<rparr>) ns coll =
      (if ns = ns' \<and> coll = coll' then (proj u ns coll)\<lparr>c_htype := Some t\<rparr> else proj u ns coll)"
  using assms by (auto simp: proj_def eff_simps rows_of_def fun_eq_iff names_def key_simps collScope_inject card_delta_def)

lemma proj_dedup [proj_simps]:
  "proj (u\<lparr>u_inBatchDedup := d\<rparr>) ns coll = proj u ns coll" "proj (u\<lparr>u_dedupSeq := n\<rparr>) ns coll = proj u ns coll"
  by (simp_all add: proj_def eff_simps card_delta_def)

section \<open>The invariant of a collection\<close>

definition row_type :: "(byte \<Rightarrow> bytes \<Rightarrow> bytes option) \<Rightarrow> collType" where
  "row_type r = (case r scopeType [] of Some (t # _) \<Rightarrow> t | _ \<Rightarrow> 0)"

definition elems :: "(byte \<Rightarrow> bytes \<Rightarrow> bytes option) \<Rightarrow> bytes set" where
  "elems r = {x. r scopeElem x \<noteq> None}"

definition stored_card :: "(byte \<Rightarrow> bytes \<Rightarrow> bytes option) \<Rightarrow> u64" where
  "stored_card r = (case r scopeCard [] of Some v \<Rightarrow> Uint64 v | None \<Rightarrow> 0)"

definition zindex :: "(byte \<Rightarrow> bytes \<Rightarrow> bytes option) \<Rightarrow> bytes set" where
  "zindex r = {sortableScore (Uint64 v) @ x | x v. r scopeZPtr x = Some v}"

text \<open>
  The rows of a collection fit its type: only sets, hashes and sorted sets have elements, a sorted set
  has one score-ordered index row per member pointer, only sets have expiries, and a type row holds a type.
\<close>

definition typed :: "(byte \<Rightarrow> bytes \<Rightarrow> bytes option) \<Rightarrow> bool" where
  "typed r \<longleftrightarrow> finite (elems r) \<and>
     (elems r \<noteq> {} \<longrightarrow> row_type r \<in> {typeSet, typeHash, typeZSet}) \<and>
     (\<forall>x v. r scopeZPtr x = Some v \<longrightarrow> row_type r = typeZSet \<and> length v = 8) \<and>
     (row_type r = typeZSet \<longrightarrow> elems r = zindex r) \<and>
     (\<forall>x v. r scopeTTLPtr x = Some v \<longrightarrow> row_type r = typeSet \<and> length v = 8) \<and>
     (r scopeType [] \<noteq> None \<longrightarrow> row_type r \<noteq> 0)"

text \<open>The overlays agree with the rows, and the counter change makes up for the new elements.\<close>

definition coh_type :: "(byte \<Rightarrow> bytes \<Rightarrow> bytes option) \<Rightarrow> coll_state \<Rightarrow> bool" where
  "coh_type b c \<longleftrightarrow> (row_type b \<noteq> 0 \<longrightarrow> row_type (c_rows c) = row_type b) \<and>
     (c_htype c = None \<longrightarrow> c_rows c scopeType [] = b scopeType []) \<and>
     (\<forall>h. c_htype c = Some h \<longrightarrow> h = row_type (c_rows c) \<and> h \<noteq> 0)"

definition coh_exists :: "(byte \<Rightarrow> bytes \<Rightarrow> bytes option) \<Rightarrow> coll_state \<Rightarrow> bool" where
  "coh_exists b c \<longleftrightarrow> row_type (c_rows c) \<noteq> typeZSet \<longrightarrow>
     (\<forall>x. (c_exists c x = None \<longrightarrow> (b scopeElem x = None) = (c_rows c scopeElem x = None)) \<and>
       (\<forall>e. c_exists c x = Some e \<longrightarrow> e = (c_rows c scopeElem x \<noteq> None)))"

definition coh_zscore :: "(byte \<Rightarrow> bytes \<Rightarrow> bytes option) \<Rightarrow> coll_state \<Rightarrow> bool" where
  "coh_zscore b c \<longleftrightarrow> (\<forall>x. (c_zscore c x = None \<longrightarrow> map_option Uint64 (b scopeZPtr x) = map_option Uint64 (c_rows c scopeZPtr x)) \<and>
       (\<forall>z. c_zscore c x = Some z \<longrightarrow> z = map_option Uint64 (c_rows c scopeZPtr x)))"

definition coh_vals :: "(byte \<Rightarrow> bytes \<Rightarrow> bytes option) \<Rightarrow> coll_state \<Rightarrow> bool" where
  "coh_vals b c \<longleftrightarrow> row_type (c_rows c) \<noteq> typeSet \<and> row_type (c_rows c) \<noteq> typeZSet \<longrightarrow>
     (\<forall>x. (c_vals c x = None \<longrightarrow> b scopeElem x = c_rows c scopeElem x) \<and>
       (\<forall>v. c_vals c x = Some v \<longrightarrow> v = c_rows c scopeElem x))"

definition coh_card :: "(byte \<Rightarrow> bytes \<Rightarrow> bytes option) \<Rightarrow> coll_state \<Rightarrow> bool" where
  "coh_card b c \<longleftrightarrow> c_rows c scopeCard [] = b scopeCard [] \<and> of_nat (card (elems (c_rows c))) = stored_card b + c_delta c"

definition coherent :: "(byte \<Rightarrow> bytes \<Rightarrow> bytes option) \<Rightarrow> coll_state \<Rightarrow> bool" where
  "coherent b c \<longleftrightarrow> coh_type b c \<and> coh_exists b c \<and> coh_zscore b c \<and> coh_vals b c \<and> coh_card b c"

definition coll_inv :: "(byte \<Rightarrow> bytes \<Rightarrow> bytes option) \<Rightarrow> coll_state \<Rightarrow> bool" where
  "coll_inv b c \<longleftrightarrow> typed b \<and> typed (c_rows c) \<and> coherent b c"

lemma coll_inv_I:
  assumes "coll_inv b c" "typed (c_rows c')" "coh_type b c \<Longrightarrow> coh_type b c'" "coh_exists b c \<Longrightarrow> coh_exists b c'"
    "coh_zscore b c \<Longrightarrow> coh_zscore b c'" "coh_vals b c \<Longrightarrow> coh_vals b c'" "coh_card b c \<Longrightarrow> coh_card b c'"
  shows "coll_inv b c'"
  using assms by (simp add: coll_inv_def coherent_def)

lemmas coh_defs = coh_type_def coh_exists_def coh_zscore_def coh_vals_def coh_card_def

lemma coll_inv_typed: "coll_inv b c \<Longrightarrow> typed (c_rows c)"
  by (simp add: coll_inv_def)

lemma set_row_sel [simp]:
  "c_rows (set_row sc x v c) = (c_rows c)(sc := (c_rows c sc)(x := v))"
  "c_exists (set_row sc x v c) = c_exists c" "c_zscore (set_row sc x v c) = c_zscore c"
  "c_vals (set_row sc x v c) = c_vals c" "c_htype (set_row sc x v c) = c_htype c"
  "c_delta (set_row sc x v c) = c_delta c"
  by (simp_all add: set_row_def)

lemma type_neq [simp]:
  "typeSet \<noteq> typeHash" "typeSet \<noteq> typeZSet" "typeSet \<noteq> typeBudget" "typeSet \<noteq> 0"
  "typeHash \<noteq> typeSet" "typeHash \<noteq> typeZSet" "typeHash \<noteq> typeBudget" "typeHash \<noteq> 0"
  "typeZSet \<noteq> typeSet" "typeZSet \<noteq> typeHash" "typeZSet \<noteq> typeBudget" "typeZSet \<noteq> 0"
  "typeBudget \<noteq> typeSet" "typeBudget \<noteq> typeHash" "typeBudget \<noteq> typeZSet" "typeBudget \<noteq> 0"
  by (simp_all add: type_defs)

lemma row_type_upd [simp]:
  "sc \<noteq> scopeType \<Longrightarrow> row_type (r(sc := f)) = row_type r"
  "row_type (r(scopeType := (r scopeType)([] \<mapsto> [t]))) = t"
  by (simp_all add: row_type_def)

lemma elems_upd [simp]:
  "sc \<noteq> scopeElem \<Longrightarrow> elems (r(sc := f)) = elems r"
  "elems (r(scopeElem := (r scopeElem)(x \<mapsto> v))) = insert x (elems r)"
  "elems (r(scopeElem := (r scopeElem)(x := None))) = elems r - {x}"
  by (auto simp: elems_def)

lemma zindex_upd [simp]: "sc \<noteq> scopeZPtr \<Longrightarrow> zindex (r(sc := f)) = zindex r"
  by (simp add: zindex_def)

lemma of_nat_card_remove:
  assumes "finite A" "x \<in> A"
  shows "of_nat (card (A - {x})) = (of_nat (card A) - 1 :: 'a::ring_1)"
  using card_Suc_Diff1 [OF assms] by (metis add_diff_cancel_left' of_nat_Suc)

text \<open>Adding a set member or a hash field.\<close>

lemma coll_inv_insert:
  assumes c: "coll_inv b c" and t: "row_type (c_rows c) = t" "t = typeSet \<or> t = typeHash"
  shows "coll_inv b
    (c\<lparr>c_rows := (c_rows c)(scopeElem := (c_rows c scopeElem)(x \<mapsto> v)), c_exists := (c_exists c)(x \<mapsto> True),
       c_vals := (if t = typeHash then (c_vals c)(x \<mapsto> Some v) else c_vals c),
       c_delta := (if c_rows c scopeElem x = None then c_delta c + 1 else c_delta c)\<rparr>)"
proof -
  have "of_nat (card (insert x (elems (c_rows c)))) = of_nat (card (elems (c_rows c))) +
      (if c_rows c scopeElem x = None then 1 else 0 :: u64)"
    using c by (auto simp: coll_inv_def typed_def elems_def card_insert_if)
  note card = this
  show ?thesis
  proof (rule coll_inv_I [OF c])
    show "typed (c_rows (c\<lparr>c_rows := (c_rows c)(scopeElem := (c_rows c scopeElem)(x \<mapsto> v)), c_exists := (c_exists c)(x \<mapsto> True),
       c_vals := (if t = typeHash then (c_vals c)(x \<mapsto> Some v) else c_vals c),
       c_delta := (if c_rows c scopeElem x = None then c_delta c + 1 else c_delta c)\<rparr>))"
      using coll_inv_typed [OF c] t by (auto simp: typed_def)
  qed (use t card in \<open>auto simp: coh_defs\<close>)
qed

lemma coll_inv_remove:
  assumes c: "coll_inv b c" and t: "row_type (c_rows c) = t" "t = typeSet \<or> t = typeHash"
    and x: "c_rows c scopeElem x \<noteq> None" and vl: "t = typeHash \<longrightarrow> vl = (c_vals c)(x \<mapsto> None)"
  shows "coll_inv b
    (c\<lparr>c_rows := (c_rows c)(scopeElem := (c_rows c scopeElem)(x := None)), c_exists := (c_exists c)(x \<mapsto> False),
       c_vals := vl, c_delta := c_delta c - 1\<rparr>)"
proof -
  have "x \<in> elems (c_rows c)" "finite (elems (c_rows c))"
    using c x by (auto simp: coll_inv_def typed_def elems_def)
  then have "of_nat (card (elems (c_rows c) - {x})) = of_nat (card (elems (c_rows c))) - (1 :: u64)"
    by (intro of_nat_card_remove)
  note card = this
  show ?thesis
  proof (rule coll_inv_I [OF c])
    show "typed (c_rows (c\<lparr>c_rows := (c_rows c)(scopeElem := (c_rows c scopeElem)(x := None)), c_exists := (c_exists c)(x \<mapsto> False),
       c_vals := vl, c_delta := c_delta c - 1\<rparr>))"
      using coll_inv_typed [OF c] t by (auto simp: typed_def)
  qed (use t card vl in \<open>auto simp: coh_defs\<close>)
qed

lemma length_sortableScore [simp]: "length (sortableScore f) = 8"
  by (simp add: sortableScore_def Let_def)

lemma sortableScore_append_inject [simp]: "sortableScore f @ x = sortableScore g @ y \<longleftrightarrow> f = g \<and> x = y"
  using unsortableScore_sortableScore by (metis append_eq_append_conv length_sortableScore)

lemma zindex_iff: "sortableScore f @ x \<in> zindex r \<longleftrightarrow> map_option Uint64 (r scopeZPtr x) = Some f"
  by (auto simp: zindex_def)

lemma zindex_keep: "x' \<noteq> x \<Longrightarrow> g x' = Some v \<Longrightarrow> sortableScore (Uint64 v) @ x' \<in> zindex (r(scopeZPtr := g(x := w)))"
  by (simp add: zindex_iff)

lemma zindex_put:
  "zindex (r(scopeZPtr := (r scopeZPtr)(x \<mapsto> PutUint64 f))) =
     insert (sortableScore f @ x) (zindex r - {sortableScore g @ x | g. map_option Uint64 (r scopeZPtr x) = Some g})"
    (is "?L = insert ?a (zindex r - ?D)")
proof (intro equalityI subsetI)
  fix y assume "y \<in> ?L"
  then obtain x' v where "y = sortableScore (Uint64 v) @ x'" "((r scopeZPtr)(x \<mapsto> PutUint64 f)) x' = Some v"
    by (auto simp: zindex_def)
  then show "y \<in> insert ?a (zindex r - ?D)" by (cases "x' = x") (auto simp: zindex_iff)
next
  fix y assume "y \<in> insert ?a (zindex r - ?D)"
  then show "y \<in> ?L"
    by (auto simp: zindex_def [of r] zindex_iff intro!: zindex_keep)
qed

lemma zindex_del:
  "zindex (r(scopeZPtr := (r scopeZPtr)(x := None))) =
     zindex r - {sortableScore g @ x | g. map_option Uint64 (r scopeZPtr x) = Some g}" (is "?L = zindex r - ?D")
proof (intro equalityI subsetI)
  fix y assume "y \<in> ?L"
  then obtain x' v where "y = sortableScore (Uint64 v) @ x'" "((r scopeZPtr)(x := None)) x' = Some v"
    by (auto simp: zindex_def)
  then show "y \<in> zindex r - ?D" by (cases "x' = x") (auto simp: zindex_iff)
next
  fix y assume "y \<in> zindex r - ?D"
  then show "y \<in> ?L"
    by (auto simp: zindex_def [of r] intro!: zindex_keep)
qed

text \<open>Adding a member to a sorted set, or moving it to another score.\<close>

definition zdrop :: "float64 option \<Rightarrow> bytes \<Rightarrow> (bytes \<Rightarrow> bytes option) \<Rightarrow> bytes \<Rightarrow> bytes option" where
  "zdrop old x f = (case old of Some g \<Rightarrow> f(sortableScore g @ x := None) | None \<Rightarrow> f)"

lemma elems_zdrop:
  "elems (r(scopeElem := zdrop old x (r scopeElem))) = elems r - {sortableScore g @ x | g. old = Some g}"
  by (auto simp: elems_def zdrop_def split: option.splits)

lemma card_zindex_put:
  assumes "finite (zindex r)"
  shows "of_nat (card (zindex (r(scopeZPtr := (r scopeZPtr)(x \<mapsto> PutUint64 f))))) =
    of_nat (card (zindex r)) + (if r scopeZPtr x = None then 1 else 0 :: u64)"
proof (cases "r scopeZPtr x")
  case None
  then have "sortableScore f @ x \<notin> zindex r" by (simp add: zindex_iff)
  then show ?thesis using None assms by (simp add: zindex_put)
next
  case (Some v)
  let ?o = "sortableScore (Uint64 v) @ x"
  have "?o \<in> zindex r" using Some by (simp add: zindex_iff)
  moreover have "sortableScore f @ x \<notin> zindex r - {?o}" using Some by (auto simp: zindex_iff)
  moreover have "{sortableScore g @ x | g. map_option Uint64 (r scopeZPtr x) = Some g} = {?o}" using Some by auto
  ultimately have "card (insert (sortableScore f @ x) (zindex r - {?o})) = card (zindex r)"
    using assms by (metis card_Suc_Diff1 card_insert_disjoint finite_Diff)
  then show ?thesis using Some \<open>{_ | _. _} = {?o}\<close> by (simp only: zindex_put) simp
qed

lemma card_zindex_del:
  assumes "finite (zindex r)" "r scopeZPtr x \<noteq> None"
  shows "of_nat (card (zindex (r(scopeZPtr := (r scopeZPtr)(x := None))))) = of_nat (card (zindex r)) - (1 :: u64)"
proof -
  obtain v where v: "r scopeZPtr x = Some v" using assms(2) by blast
  let ?o = "sortableScore (Uint64 v) @ x"
  have "?o \<in> zindex r" using v by (simp add: zindex_iff)
  moreover have "{sortableScore g @ x | g. map_option Uint64 (r scopeZPtr x) = Some g} = {?o}" using v by auto
  ultimately show ?thesis
    using assms(1) by (simp only: zindex_del of_nat_card_remove)
qed

lemma coll_inv_zput:
  assumes c: "coll_inv b c" and t: "row_type (c_rows c) = typeZSet"
    and old: "old = map_option Uint64 (c_rows c scopeZPtr x)"
    and r: "r = (c_rows c)(scopeElem := (zdrop old x (c_rows c scopeElem))(sortableScore f @ x \<mapsto> []),
                          scopeZPtr := (c_rows c scopeZPtr)(x \<mapsto> PutUint64 f))"
  shows "coll_inv b (c\<lparr>c_rows := r, c_zscore := (c_zscore c)(x \<mapsto> Some f),
     c_delta := (if old = None then c_delta c + 1 else c_delta c)\<rparr>)"
proof -
  have e: "elems (c_rows c) = zindex (c_rows c)" "finite (zindex (c_rows c))"
    using c t by (auto simp: coll_inv_def typed_def)
  have rt: "row_type r = typeZSet" using t by (simp add: r)
  have "elems r = insert (sortableScore f @ x) (elems (c_rows c) - {sortableScore g @ x | g. old = Some g})"
    by (auto simp: r elems_def zdrop_def split: option.splits)
  moreover have "zindex r = zindex ((c_rows c)(scopeZPtr := (c_rows c scopeZPtr)(x \<mapsto> PutUint64 f)))"
    by (simp add: r zindex_def)
  ultimately have ez: "elems r = zindex r"
    "of_nat (card (elems r)) = of_nat (card (elems (c_rows c))) + (if old = None then 1 else 0 :: u64)"
    "finite (elems r)"
    using e card_zindex_put [OF e(2), of x f] by (simp_all add: zindex_put old)
  have "typed r" using coll_inv_typed [OF c] ez t rt by (auto simp: typed_def r)
  then show ?thesis
    by (intro coll_inv_I [OF c]) (use t rt ez(2) in \<open>auto simp: coh_defs r\<close>)
qed

lemma coll_inv_zdel:
  assumes c: "coll_inv b c" and t: "row_type (c_rows c) = typeZSet"
    and old: "Some g = map_option Uint64 (c_rows c scopeZPtr x)"
    and r: "r = (c_rows c)(scopeElem := (c_rows c scopeElem)(sortableScore g @ x := None),
                          scopeZPtr := (c_rows c scopeZPtr)(x := None))"
  shows "coll_inv b (c\<lparr>c_rows := r, c_zscore := (c_zscore c)(x \<mapsto> None), c_delta := c_delta c - 1\<rparr>)"
proof -
  have e: "elems (c_rows c) = zindex (c_rows c)" "finite (zindex (c_rows c))"
    using c t by (auto simp: coll_inv_def typed_def)
  have rt: "row_type r = typeZSet" using t by (simp add: r)
  have "elems r = elems (c_rows c) - {sortableScore g @ x | g'. Some g = Some g'}"
    by (auto simp: r elems_def)
  moreover have "zindex r = zindex ((c_rows c)(scopeZPtr := (c_rows c scopeZPtr)(x := None)))"
    by (simp add: r zindex_def)
  moreover have "c_rows c scopeZPtr x \<noteq> None" using old by (cases "c_rows c scopeZPtr x") auto
  ultimately have ez: "elems r = zindex r" "finite (elems r)"
    "of_nat (card (elems r)) = of_nat (card (elems (c_rows c))) - (1 :: u64)"
    using e card_zindex_del [OF e(2), of x] by (simp_all add: zindex_del old [symmetric])
  have "typed r" using coll_inv_typed [OF c] ez t rt by (auto simp: typed_def r)
  then show ?thesis
    by (intro coll_inv_I [OF c]) (use t rt ez(3) in \<open>auto simp: coh_defs r\<close>)
qed

text \<open>Fixing the type of a new collection.\<close>

lemma coll_inv_new_type:
  assumes "coll_inv b c" "c_htype c = None" "row_type b = 0" "t \<noteq> 0"
  shows "coll_inv b (c\<lparr>c_rows := (c_rows c)(scopeType := (c_rows c scopeType)([] \<mapsto> [t])), c_htype := Some t\<rparr>)"
proof -
  have "row_type (c_rows c) = 0"
    using assms by (simp add: coll_inv_def coherent_def coh_type_def row_type_def)
  moreover from this have "elems (c_rows c) = {}"
    using assms(1) by (auto simp: coll_inv_def typed_def)
  moreover have "c_rows c scopeZPtr = Map.empty" "c_rows c scopeTTLPtr = Map.empty"
    using assms(1) \<open>row_type (c_rows c) = 0\<close> by (fastforce simp: coll_inv_def typed_def fun_eq_iff)+
  moreover from this have "zindex (c_rows c) = {}" by (simp add: zindex_def)
  ultimately have "typed ((c_rows c)(scopeType := (c_rows c scopeType)([] \<mapsto> [t])))"
    using assms(4) by (simp add: typed_def)
  then show ?thesis
    by (intro coll_inv_I [OF assms(1)])
      (use assms(2-4) \<open>row_type (c_rows c) = 0\<close> in \<open>auto simp: coh_defs\<close>)
qed

lemma coll_inv_ttl:
  assumes "coll_inv b c" "v = None \<or> row_type (c_rows c) = typeSet \<and> length (the v) = 8"
  shows "coll_inv b (set_row scopeTTLPtr x v c)"
proof (rule coll_inv_I [OF assms(1)])
  show "typed (c_rows (set_row scopeTTLPtr x v c))"
    using coll_inv_typed [OF assms(1)] assms(2) by (auto simp: typed_def)
qed (auto simp: coh_defs)

lemma coll_inv_bud:
  assumes "coll_inv b c" "sc \<in> {scopeBudPool, scopeBudLease, scopeBudTomb}"
  shows "coll_inv b (set_row sc x v c)"
proof -
  have "sc \<notin> {scopeElem, scopeType, scopeZPtr, scopeTTLPtr, scopeCard}" using assms(2) by auto
  moreover from this have "typed (c_rows (set_row sc x v c))"
    using coll_inv_typed [OF assms(1)] by (auto simp: typed_def)
  ultimately show ?thesis
    by (intro coll_inv_I [OF assms(1)]) (auto simp: coh_defs)
qed

end
