(* ===== verification/Coll_Keep.thy ===== *)
theory Coll_Keep
  imports Coll_View
begin

text \<open>
  Every operation of the shard state machine, \<open>src/internal/collections/statemachine.go\<close>, keeps
  \<open>coll_inv\<close> of every collection: the reads return what the overlays and rows stand for, an operation
  changes one collection, and a skipped entry changes none.
\<close>

section \<open>The invariant of a context\<close>

definition base_rows :: "update_ctx \<Rightarrow> bytes \<Rightarrow> bytes \<Rightarrow> byte \<Rightarrow> bytes \<Rightarrow> bytes option" where
  "base_rows u ns coll = rows_of (u_s u) (base (u_s u)) ns coll"

definition ctx_inv :: "update_ctx \<Rightarrow> bool" where
  "ctx_inv u \<longleftrightarrow> healthy (u_s u) \<and>
     (\<forall>ns coll. name_ok ns \<longrightarrow> name_ok coll \<longrightarrow> coll_inv (base_rows u ns coll) (proj u ns coll))"

definition own :: "coll_command \<Rightarrow> update_ctx \<Rightarrow> coll_state" where
  "own c u = proj u (cmd_NS c) (cmd_Coll c)"

definition ctype :: "coll_command \<Rightarrow> update_ctx \<Rightarrow> collType" where
  "ctype c u = row_type (c_rows (own c u))"

lemma own_inv: "ctx_inv u \<Longrightarrow> cmd_ok c \<Longrightarrow> coll_inv (base_rows u (cmd_NS c) (cmd_Coll c)) (own c u)"
  by (simp add: ctx_inv_def cmd_ok_def own_def)

lemma ctx_inv_own:
  assumes "ctx_inv u" "u_s u' = u_s u"
    "\<And>ns coll. name_ok ns \<Longrightarrow> name_ok coll \<Longrightarrow> \<not> (ns = cmd_NS c \<and> coll = cmd_Coll c) \<Longrightarrow>
       proj u' ns coll = proj u ns coll"
    "coll_inv (base_rows u (cmd_NS c) (cmd_Coll c)) (own c u')"
  shows "ctx_inv u'"
  unfolding ctx_inv_def
proof (intro conjI allI impI)
  show "healthy (u_s u')" using assms(1,2) by (simp add: ctx_inv_def)
  fix ns coll assume n: "name_ok ns" "name_ok coll"
  have "base_rows u' = base_rows u" using assms(2) by (simp add: base_rows_def fun_eq_iff)
  then show "coll_inv (base_rows u' ns coll) (proj u' ns coll)"
    using assms n by (cases "ns = cmd_NS c \<and> coll = cmd_Coll c") (auto simp: own_def ctx_inv_def)
qed

definition keeps :: "coll_command \<Rightarrow> update_ctx \<Rightarrow> 'a upd \<Rightarrow> bool" where
  "keeps c u r \<longleftrightarrow> (\<forall>a u'. r = (Inr a, u') \<longrightarrow> ctx_inv u' \<and> u_s u' = u_s u \<and> ctype c u' = ctype c u)"

lemma keeps_Inl [simp]: "keeps c u (Inl e, u')"
  by (simp add: keeps_def)

lemma keeps_Inr [simp]: "keeps c u (Inr a, u') \<longleftrightarrow> ctx_inv u' \<and> u_s u' = u_s u \<and> ctype c u' = ctype c u"
  by (auto simp: keeps_def)

lemma keeps_on_ok:
  assumes "keeps c u r" "\<And>a v. ctx_inv v \<Longrightarrow> u_s v = u_s u \<Longrightarrow> ctype c v = ctype c u \<Longrightarrow> keeps c v (f a v)"
  shows "keeps c u (on_ok r f)"
proof (cases r)
  case (Pair x v)
  show ?thesis
  proof (cases x)
    case (Inl e)
    then show ?thesis using Pair by (simp add: on_ok_def)
  next
    case (Inr a)
    then have *: "ctx_inv v" "u_s v = u_s u" "ctype c v = ctype c u" using assms(1) Pair by simp_all
    then have "keeps c v (f a v)" by (rule assms(2))
    moreover have "on_ok r f = f a v" using Pair Inr by (simp add: on_ok_def)
    ultimately show ?thesis unfolding keeps_def using *(2,3) by metis
  qed
qed

lemma keeps_on_read: "(\<And>a. r = Inr a \<Longrightarrow> keeps c u (f a)) \<Longrightarrow> keeps c u (on_read r v f)"
  by (cases r) (auto simp: on_read_def)

subsection \<open>Reads\<close>

lemma proj_sel [simp]:
  "c_rows (proj u ns coll) sc x = eff u (scope_key (u_s u) ns coll sc x)"
  "c_exists (proj u ns coll) x = u_exists u (scope_key (u_s u) ns coll scopeElem x)"
  "c_zscore (proj u ns coll) x = u_zscore u (scope_key (u_s u) ns coll scopeZPtr x)"
  "c_vals (proj u ns coll) x = u_vals u (scope_key (u_s u) ns coll scopeElem x)"
  "c_htype (proj u ns coll) = u_htype u (collScope (u_s u) ns coll)"
  by (simp_all add: proj_def rows_of_def)

lemma base_rows_sel [simp]: "base_rows u ns coll sc x = base (u_s u) (scope_key (u_s u) ns coll sc x)"
  by (simp add: base_rows_def rows_of_def)

lemma read_elem:
  assumes "ctx_inv u" "cmd_ok c" "ctype c u \<noteq> typeZSet"
  shows "elemExists (ctx_elem c it u) u = Inr (c_rows (own c u) scopeElem (item_Key it) \<noteq> None)"
proof -
  have "coh_exists (base_rows u (cmd_NS c) (cmd_Coll c)) (own c u)" "healthy (u_s u)"
    using own_inv [OF assms(1,2)] assms(1) by (simp_all add: coll_inv_def coherent_def ctx_inv_def)
  then show ?thesis
    using assms(3) by (auto simp: coh_exists_def elemExists_def ctx_elem_def key_simps getData_base ctype_def own_def
        split: option.splits)
qed

lemma read_zscore:
  assumes "ctx_inv u" "cmd_ok c"
  shows "zScore (cmd_NS c) (cmd_Coll c) x u = Inr (map_option Uint64 (c_rows (own c u) scopeZPtr x))"
proof -
  let ?k = "scope_key (u_s u) (cmd_NS c) (cmd_Coll c) scopeZPtr x"
  have h: "coh_zscore (base_rows u (cmd_NS c) (cmd_Coll c)) (own c u)" "healthy (u_s u)"
    "typed (base_rows u (cmd_NS c) (cmd_Coll c))"
    using own_inv [OF assms(1,2)] assms(1) by (simp_all add: coll_inv_def coherent_def ctx_inv_def)
  from h(1) have "u_zscore u ?k = None \<Longrightarrow> map_option Uint64 (base (u_s u) ?k) = map_option Uint64 (eff u ?k)"
    "\<And>z. u_zscore u ?k = Some z \<Longrightarrow> z = map_option Uint64 (eff u ?k)"
    by (simp_all add: coh_zscore_def own_def)
  moreover from h(3) have "\<And>v. base (u_s u) ?k = Some v \<Longrightarrow> length v = 8" by (simp add: typed_def)
  ultimately show ?thesis
    using h(2) by (cases "u_zscore u ?k"; cases "base (u_s u) ?k")
      (simp_all add: zScore_def Let_def key_simps getData_base own_def float64FromBits_def)
qed

lemma read_field:
  assumes "ctx_inv u" "cmd_ok c" "ctype c u = typeHash"
  shows "fieldVal (elemKey (u_s u) (cmd_NS c) (cmd_Coll c) x) u = Inr (c_rows (own c u) scopeElem x)"
proof -
  have "coh_vals (base_rows u (cmd_NS c) (cmd_Coll c)) (own c u)" "healthy (u_s u)"
    using own_inv [OF assms(1,2)] assms(1) by (simp_all add: coll_inv_def coherent_def ctx_inv_def)
  then show ?thesis
    using assms(3) by (auto simp: coh_vals_def fieldVal_def key_simps getData_base ctype_def own_def
        split: option.splits)
qed

lemma read_ttl_set:
  assumes "ctx_inv u" "cmd_ok c" "ttlExpiryOf (u_s u) (cmd_NS c) (cmd_Coll c) x = Inr (Some e)"
  shows "ctype c u = typeSet"
proof -
  have "coh_type (base_rows u (cmd_NS c) (cmd_Coll c)) (own c u)" "healthy (u_s u)"
    "typed (base_rows u (cmd_NS c) (cmd_Coll c))"
    using own_inv [OF assms(1,2)] assms(1) by (simp_all add: coll_inv_def coherent_def ctx_inv_def)
  then show ?thesis
    using assms(3) by (auto simp: coh_type_def typed_def ttlExpiryOf_def key_simps getData_base ctype_def
        split: option.splits if_splits)
qed

subsection \<open>Types\<close>

lemma ctx_inv_htype:
  assumes "ctx_inv u" "cmd_ok c" "t = ctype c u" "t \<noteq> 0"
  shows "ctx_inv (u\<lparr>u_htype := (u_htype u)(collScope (u_s u) (cmd_NS c) (cmd_Coll c) \<mapsto> t)\<rparr>)"
    (is "ctx_inv ?u'")
proof (rule ctx_inv_own [OF assms(1)])
  show "u_s ?u' = u_s u" by simp
  show "proj ?u' ns coll = proj u ns coll"
    if "name_ok ns" "name_ok coll" "\<not> (ns = cmd_NS c \<and> coll = cmd_Coll c)" for ns coll
    using that assms(2) by (auto simp: proj_simps names_def cmd_ok_def)
  have "own c ?u' = (own c u)\<lparr>c_htype := Some t\<rparr>"
    using assms(2) by (simp add: own_def proj_simps names_def cmd_ok_def)
  then show "coll_inv (base_rows u (cmd_NS c) (cmd_Coll c)) (own c ?u')"
    using own_inv [OF assms(1,2)] assms(3,4) by (simp add: coll_inv_def coherent_def coh_defs ctype_def)
qed

lemma read_type:
  assumes "ctx_inv u" "cmd_ok c" "typeOf (cmd_NS c) (cmd_Coll c) u = (Inr t, u')"
  shows "t = ctype c u" "ctx_inv u'" "u_s u' = u_s u" "ctype c u' = ctype c u"
proof -
  have coh: "coh_type (base_rows u (cmd_NS c) (cmd_Coll c)) (own c u)" "healthy (u_s u)"
    using own_inv [OF assms(1,2)] assms(1) by (simp_all add: coll_inv_def coherent_def ctx_inv_def)
  let ?k = "scope_key (u_s u) (cmd_NS c) (cmd_Coll c) scopeType []"
  have cached: "h = ctype c u" if "u_htype u (collScope (u_s u) (cmd_NS c) (cmd_Coll c)) = Some h" for h
    using coh(1) that by (simp add: coh_type_def own_def ctype_def)
  have stored: "eff u ?k = base (u_s u) ?k" if "u_htype u (collScope (u_s u) (cmd_NS c) (cmd_Coll c)) = None"
    using coh(1) that by (simp add: coh_type_def own_def)
  show t: "t = ctype c u"
  proof (cases "u_htype u (collScope (u_s u) (cmd_NS c) (cmd_Coll c))")
    case None
    then show ?thesis
      using assms(3) stored coh(2) by (auto simp: typeOf_def Let_def key_simps getData_base ctype_def own_def row_type_def
        split: option.splits list.splits)
  qed (use assms(3) cached in \<open>simp add: typeOf_def Let_def\<close>)
  have "typed (base_rows u (cmd_NS c) (cmd_Coll c))" using own_inv [OF assms(1,2)] by (simp add: coll_inv_def)
  then have "u' = u \<or> u' = u\<lparr>u_htype := (u_htype u)(collScope (u_s u) (cmd_NS c) (cmd_Coll c) \<mapsto> t)\<rparr> \<and> t \<noteq> 0"
    using assms(3) coh(2) by (auto simp: typeOf_def Let_def typed_def row_type_def key_simps getData_base
        split: option.splits list.splits)
  then show "ctx_inv u'" "u_s u' = u_s u" "ctype c u' = ctype c u"
    using assms(1) ctx_inv_htype [OF assms(1,2) t] assms(2)
    by (auto simp: ctype_def own_def proj_simps names_def cmd_ok_def)
qed

text \<open>The shape in which the operations below use \<open>ctx_inv_own\<close>: only one collection is touched.\<close>

definition local :: "coll_command \<Rightarrow> update_ctx \<Rightarrow> update_ctx \<Rightarrow> bool" where
  "local c u u' \<longleftrightarrow> u_s u' = u_s u \<and> (\<forall>ns coll. name_ok ns \<longrightarrow> name_ok coll \<longrightarrow>
     \<not> (ns = cmd_NS c \<and> coll = cmd_Coll c) \<longrightarrow> proj u' ns coll = proj u ns coll)"

lemma ctx_inv_local:
  "ctx_inv u \<Longrightarrow> local c u u' \<Longrightarrow> coll_inv (base_rows u (cmd_NS c) (cmd_Coll c)) (own c u') \<Longrightarrow> ctx_inv u'"
  by (rule ctx_inv_own) (auto simp: local_def)

lemma local_I:
  assumes "cmd_ok c" "u_s u' = u_s u"
    "\<And>ns coll. names ns coll (cmd_NS c) (cmd_Coll c) \<Longrightarrow> \<not> (ns = cmd_NS c \<and> coll = cmd_Coll c) \<Longrightarrow>
       proj u' ns coll = proj u ns coll"
  shows "local c u u'"
  using assms by (simp add: local_def names_def cmd_ok_def)

lemma names_own [simp]: "cmd_ok c \<Longrightarrow> names (cmd_NS c) (cmd_Coll c) (cmd_NS c) (cmd_Coll c)"
  by (simp add: names_def cmd_ok_def)

lemma ensure_type:
  assumes "ctx_inv u" "cmd_ok c" "ensureType (cmd_NS c) (cmd_Coll c) want u = (Inr ok, u')" "want \<noteq> 0"
  shows "ctx_inv u' \<and> u_s u' = u_s u \<and> (ok \<longrightarrow> ctype c u' = want)"
proof -
  let ?cs = "collScope (u_s u) (cmd_NS c) (cmd_Coll c)"
  let ?k = "scope_key (u_s u) (cmd_NS c) (cmd_Coll c) scopeType []"
  have coh: "coh_type (base_rows u (cmd_NS c) (cmd_Coll c)) (own c u)" "healthy (u_s u)"
    using own_inv [OF assms(1,2)] assms(1) by (simp_all add: coll_inv_def coherent_def ctx_inv_def)
  consider (cached) "u_htype u ?cs \<noteq> None" | (stored) t x where "u_htype u ?cs = None" "base (u_s u) ?k = Some (t # x)"
    | (new) "u_htype u ?cs = None" "base (u_s u) ?k = None \<or> base (u_s u) ?k = Some []"
    by (metis neq_Nil_conv option.exhaust)
  then show ?thesis
  proof cases
    case cached
    then show ?thesis using assms coh
      by (auto simp: ensureType_def Let_def coh_type_def own_def ctype_def)
  next
    case (stored t x)
    then have t: "t = ctype c u"
      using coh(1) by (simp add: coh_type_def ctype_def own_def row_type_def)
    have "typed (base_rows u (cmd_NS c) (cmd_Coll c))" using own_inv [OF assms(1,2)] by (simp add: coll_inv_def)
    then have t0: "t \<noteq> 0" using stored by (simp add: typed_def row_type_def)
    have "u' = u\<lparr>u_htype := (u_htype u)(?cs \<mapsto> t)\<rparr>" "ok = (t = want)"
      using assms(3) stored coh(2) by (auto simp: ensureType_def Let_def key_simps getData_base)
    then show ?thesis
      using ctx_inv_htype [OF assms(1,2) t t0] assms(2) t by (auto simp: ctype_def own_def proj_simps)
  next
    case new
    then have u': "u' = (emit_put ?k [want] u)\<lparr>u_htype := (u_htype u)(?cs \<mapsto> want)\<rparr>"
      using assms(3) coh(2) by (auto simp: ensureType_def Let_def key_simps getData_base)
    let ?v = "emit_put ?k [want] u"
    have v: "u' = ?v\<lparr>u_htype := (u_htype ?v)(collScope (u_s ?v) (cmd_NS c) (cmd_Coll c) \<mapsto> want)\<rparr>"
      by (simp add: u')
    have o: "own c u' = (own c u)\<lparr>c_rows := (c_rows (own c u))(scopeType := (c_rows (own c u) scopeType)([] \<mapsto> [want])),
        c_htype := Some want\<rparr>"
      unfolding v using assms(2) by (simp add: own_def proj_simps set_row_def del: fun_upd_apply proj_sel)
    have b: "row_type (base_rows u (cmd_NS c) (cmd_Coll c)) = 0" using new by (auto simp: row_type_def)
    have "local c u u'" unfolding v
      by (rule local_I [OF assms(2)]) (auto simp: proj_simps)
    moreover have "c_htype (own c u) = None" using new by (simp add: own_def)
    then have "coll_inv (base_rows u (cmd_NS c) (cmd_Coll c)) (own c u')"
      unfolding o by (intro coll_inv_new_type own_inv assms b)
    ultimately have "ctx_inv u'" by (rule ctx_inv_local [OF assms(1)])
    then show ?thesis by (simp add: ctype_def o) (simp add: u')
  qed
qed

section \<open>The operations keep the invariant\<close>

lemma keeps_local:
  assumes "ctx_inv u" "cmd_ok c" "local c u u'"
    "coll_inv (base_rows u (cmd_NS c) (cmd_Coll c)) (own c u')" "row_type (c_rows (own c u')) = ctype c u"
  shows "keeps c u (Inr a, u')"
  using assms ctx_inv_local by (auto simp: ctype_def local_def)

lemmas own_simps = own_def proj_simps set_row_def key_simps

lemma local_refl [simp]: "local c u u"
  by (simp add: local_def)

lemma local_emit:
  assumes "cmd_ok c" "local c u v" "s = u_s u"
  shows "local c u (emit_put (scope_key s (cmd_NS c) (cmd_Coll c) sc x) b v)"
    "local c u (emit_del (scope_key s (cmd_NS c) (cmd_Coll c) sc x) v)"
    "sub \<noteq> subData \<Longrightarrow> local c u (emit_put (sub_key s sub x) b v)"
    "sub \<noteq> subData \<Longrightarrow> local c u (emit_del (sub_key s sub x) v)"
    "local c u (set_exists (scope_key s (cmd_NS c) (cmd_Coll c) scopeElem x) e v)"
    "local c u (set_zscore (scope_key s (cmd_NS c) (cmd_Coll c) scopeZPtr x) z v)"
    "local c u (set_vals (scope_key s (cmd_NS c) (cmd_Coll c) sc x) w v)"
    "local c u (add_card (scope_key s (cmd_NS c) (cmd_Coll c) scopeCard []) d v)"
    "local c u (v\<lparr>u_inBatchDedup := ib\<rparr>)" "local c u (v\<lparr>u_dedupSeq := n\<rparr>)"
  using assms by (auto simp: local_def proj_simps names_def cmd_ok_def)

lemma keeps_setTTL:
  assumes "ctx_inv u" "cmd_ok c" "ctype c u = typeSet"
  shows "keeps c u (setTTL (cmd_NS c) (cmd_Coll c) x e u)"
proof -
  have own: "coll_inv (base_rows u (cmd_NS c) (cmd_Coll c)) (set_row scopeTTLPtr x (Some (PutUint64 w)) (own c u))" for w
    using assms by (intro coll_inv_ttl own_inv) (simp_all add: ctype_def)
  show ?thesis
    using assms own unfolding setTTL_def Let_def
    by (intro keeps_on_read keeps_local)
      (auto simp: key_simps local_emit own_def proj_simps ctype_def split: option.splits)
qed

lemma keeps_clearTTL:
  assumes "ctx_inv u" "cmd_ok c"
  shows "keeps c u (clearTTL (cmd_NS c) (cmd_Coll c) x u)"
  unfolding clearTTL_def
proof (rule keeps_on_read)
  fix old
  have own: "coll_inv (base_rows u (cmd_NS c) (cmd_Coll c)) (set_row scopeTTLPtr x None (own c u))"
    using assms by (intro coll_inv_ttl own_inv) simp_all
  show "keeps c u (case old of None \<Rightarrow> (Inr (), u)
     | Some old \<Rightarrow> (Inr (), emit_del (ttlPtrKey (u_s u) (cmd_NS c) (cmd_Coll c) x)
                    (emit_del (ttlIndexKey (u_s u) old (cmd_NS c) (cmd_Coll c) x) u)))"
  proof (cases old)
    case None
    then show ?thesis using assms by simp
  next
    case (Some e)
    show ?thesis unfolding Some option.case
      by (rule keeps_local) (use assms own in \<open>auto simp: key_simps local_emit own_def proj_simps ctype_def\<close>)
  qed
qed

text \<open>A change of one collection, given by what it does to the collection's state.\<close>

lemma keeps_step:
  assumes "ctx_inv u" "cmd_ok c" "local c u u'" "own c u' = k"
    "coll_inv (base_rows u (cmd_NS c) (cmd_Coll c)) k" "row_type (c_rows k) = ctype c u"
  shows "ctx_inv u'" "u_s u' = u_s u" "ctype c u' = ctype c u"
  using assms ctx_inv_local by (auto simp: ctype_def local_def)

lemma keeps_trans:
  "keeps c v r \<Longrightarrow> u_s v = u_s u \<Longrightarrow> ctype c v = ctype c u \<Longrightarrow> keeps c u r"
  unfolding keeps_def by metis

lemma keeps_then:
  assumes "keeps c v r" "u_s v = u_s u" "ctype c v = ctype c u"
  shows "keeps c u (on_ok r (\<lambda>_ w. (Inr a, w)))"
  by (rule keeps_on_ok) (use keeps_trans [OF assms] in simp_all)

lemma step_set_put:
  assumes inv: "ctx_inv u" "cmd_ok c" "ctype c u = typeSet" and x: "c_rows (own c u) scopeElem (item_Key it) = None"
    and v: "v = add_card (ctx_card c u) 1 (set_exists (ctx_elem c it u) True (emit_put (ctx_elem c it u) [] u))"
  shows "ctx_inv v \<and> u_s v = u_s u \<and> ctype c v = ctype c u"
proof -
  let ?x = "item_Key it"
  let ?k = "(own c u)\<lparr>c_rows := (c_rows (own c u))(scopeElem := (c_rows (own c u) scopeElem)(?x \<mapsto> [])),
      c_exists := (c_exists (own c u))(?x \<mapsto> True), c_delta := c_delta (own c u) + 1\<rparr>"
  have k: "coll_inv (base_rows u (cmd_NS c) (cmd_Coll c)) ?k" "row_type (c_rows ?k) = ctype c u"
    using coll_inv_insert [OF own_inv [OF inv(1,2)], of typeSet ?x "[]"] inv(3) x by (simp_all add: ctype_def)
  have "local c u v" using inv by (simp add: v ctx_elem_def ctx_card_def key_simps local_emit)
  moreover have "own c v = ?k"
    using inv by (simp add: v ctx_elem_def ctx_card_def own_simps del: fun_upd_apply)
  ultimately show ?thesis using keeps_step [OF inv(1,2) _ _ k] by blast
qed

lemma keeps_sadd:
  assumes inv: "ctx_inv u" "cmd_ok c" "ctype c u = typeSet"
  shows "keeps c u (apply_sadd c it u)"
proof -
  let ?v = "if c_rows (own c u) scopeElem (item_Key it) \<noteq> None then u
            else add_card (ctx_card c u) 1 (set_exists (ctx_elem c it u) True (emit_put (ctx_elem c it u) [] u))"
  have "ctx_inv ?v \<and> u_s ?v = u_s u \<and> ctype c ?v = ctype c u"
    using inv step_set_put [OF inv _ refl, of it] by simp
  then show ?thesis
    using inv read_elem [OF inv(1,2), of it]
    by (auto simp: apply_sadd_def on_read_def Let_def intro!: keeps_then keeps_setTTL)
qed

text \<open>Deleting an element; \<open>u'\<close> is the context with or without the \<open>vals\<close> overlay updated.\<close>

lemma step_remove:
  assumes inv: "ctx_inv u" "cmd_ok c" "ctype c u = typeSet \<or> ctype c u = typeHash"
    and x: "c_rows (own c u) scopeElem (item_Key it) \<noteq> None" and w: "ctype c u = typeHash \<longrightarrow> w"
    and v: "v = (let d = set_exists (ctx_elem c it u) False (emit_del (ctx_elem c it u) u)
                 in add_card (ctx_card c u) (- 1) (if w then set_vals (ctx_elem c it u) None d else d))"
  shows "ctx_inv v \<and> u_s v = u_s u \<and> ctype c v = ctype c u"
proof -
  let ?x = "item_Key it"
  let ?vl = "if w then (c_vals (own c u))(?x \<mapsto> None) else c_vals (own c u)"
  let ?k = "(own c u)\<lparr>c_rows := (c_rows (own c u))(scopeElem := (c_rows (own c u) scopeElem)(?x := None)),
      c_exists := (c_exists (own c u))(?x \<mapsto> False), c_vals := ?vl, c_delta := c_delta (own c u) - 1\<rparr>"
  have k: "coll_inv (base_rows u (cmd_NS c) (cmd_Coll c)) ?k" "row_type (c_rows ?k) = ctype c u"
    using coll_inv_remove [OF own_inv [OF inv(1,2)] refl _ x, of ?vl] inv(3) w by (auto simp: ctype_def)
  have "local c u v" using inv by (simp add: v Let_def ctx_elem_def ctx_card_def key_simps local_emit)
  moreover have "own c v = ?k"
    using inv by (cases w) (simp_all add: v Let_def ctx_elem_def ctx_card_def own_simps del: fun_upd_apply)
  ultimately show ?thesis using keeps_step [OF inv(1,2) _ _ k] by blast
qed

lemma keeps_remove_elem:
  assumes inv: "ctx_inv u" "cmd_ok c" "ctype c u = typeSet \<or> ctype c u = typeHash"
  shows "keeps c u (remove_elem c it u)"
proof -
  let ?v = "add_card (ctx_card c u) (- 1) (set_vals (ctx_elem c it u) None
    (set_exists (ctx_elem c it u) False (emit_del (ctx_elem c it u) u)))"
  have "ctx_inv ?v \<and> u_s ?v = u_s u \<and> ctype c ?v = ctype c u" if "c_rows (own c u) scopeElem (item_Key it) \<noteq> None"
    by (rule step_remove [OF inv that, of True]) (simp_all add: Let_def)
  moreover have "ctype c u \<noteq> typeZSet" using inv(3) by auto
  ultimately show ?thesis
    using inv(1,2) read_elem [OF inv(1,2), of it]
    by (auto simp: remove_elem_def on_read_def Let_def intro!: keeps_then keeps_clearTTL)
qed

lemma keeps_expire:
  assumes inv: "ctx_inv u" "cmd_ok c"
  shows "keeps c u (apply_expire c it u)"
  unfolding apply_expire_def
proof (rule keeps_on_read)
  fix found assume f: "ttlExpiryOf (u_s u) (cmd_NS c) (cmd_Coll c) (item_Key it) = Inr found"
  let ?v = "add_card (ctx_card c u) (- 1) (set_exists (ctx_elem c it u) False (emit_del (ctx_elem c it u) u))"
  have set: "ctype c u = typeSet" if "found = Some e" for e using f that read_ttl_set [OF inv] by simp
  have "ctx_inv ?v \<and> u_s ?v = u_s u \<and> ctype c ?v = ctype c u"
    if "c_rows (own c u) scopeElem (item_Key it) \<noteq> None" "found = Some e" for e
    by (rule step_remove [OF inv _ that(1), of False]) (use set that in \<open>simp_all add: Let_def\<close>)
  then show "keeps c u (case found of None \<Rightarrow> (Inr 0, u)
       | Some expiry \<Rightarrow>
         if item_ExpiryMs it < expiry then (Inr 0, u)
         else
           let ek = ctx_elem c it u in
           on_read (elemExists ek u) u (\<lambda>present.
             let (changed, u) =
               (if present
                then (1, add_card (ctx_card c u) (- 1) (set_exists ek False (emit_del ek u)))
                else (0, u))
             in on_ok (clearTTL (cmd_NS c) (cmd_Coll c) (item_Key it) u) (\<lambda>_ u. (Inr changed, u))))"
    using inv set read_elem [OF inv, of it]
    by (cases found) (auto simp: on_read_def Let_def intro!: keeps_then keeps_clearTTL)
qed

lemma step_hash_put:
  assumes inv: "ctx_inv u" "cmd_ok c" "ctype c u = typeHash"
    and v: "v = (let d = set_vals (elemKey (u_s u) (cmd_NS c) (cmd_Coll c) x) (Some b)
                   (set_exists (elemKey (u_s u) (cmd_NS c) (cmd_Coll c) x) True
                     (emit_put (elemKey (u_s u) (cmd_NS c) (cmd_Coll c) x) b u))
                 in if c_rows (own c u) scopeElem x = None then add_card (ctx_card c u) 1 d else d)"
  shows "ctx_inv v \<and> u_s v = u_s u \<and> ctype c v = ctype c u"
proof -
  let ?k = "(own c u)\<lparr>c_rows := (c_rows (own c u))(scopeElem := (c_rows (own c u) scopeElem)(x \<mapsto> b)),
      c_exists := (c_exists (own c u))(x \<mapsto> True), c_vals := (c_vals (own c u))(x \<mapsto> Some b),
      c_delta := (if c_rows (own c u) scopeElem x = None then c_delta (own c u) + 1 else c_delta (own c u))\<rparr>"
  have k: "coll_inv (base_rows u (cmd_NS c) (cmd_Coll c)) ?k" "row_type (c_rows ?k) = ctype c u"
    using coll_inv_insert [OF own_inv [OF inv(1,2)], of typeHash x b] inv(3) by (simp_all add: ctype_def)
  have "local c u v" using inv by (simp add: v Let_def ctx_card_def key_simps local_emit)
  moreover have "own c v = ?k"
    using inv by (simp add: v Let_def ctx_card_def own_simps del: fun_upd_apply)
  ultimately show ?thesis using keeps_step [OF inv(1,2) _ _ k] by blast
qed

lemma keeps_hset:
  assumes inv: "ctx_inv u" "cmd_ok c" "ctype c u = typeHash"
  shows "keeps c u (apply_hset c it u)"
  using inv read_elem [OF inv(1,2), of it] step_hash_put [OF inv refl, of "item_Key it" "item_Val it"]
  by (auto simp: apply_hset_def on_read_def Let_def ctx_elem_def ctx_card_def split: if_splits)

lemma keeps_hincr:
  assumes inv: "ctx_inv u" "cmd_ok c" "ctype c u = typeHash"
  shows "keeps c u (applyHIncrInt c it u)" "keeps c u (applyHIncrFloat fl c it u)"
proof -
  let ?ek = "elemKey (u_s u) (cmd_NS c) (cmd_Coll c) (item_Key it)"
  have swap: "set_vals k w (set_exists k e (emit_put k b v)) = set_exists k e (emit_put k b (set_vals k w v))" for k w e b v
    by (simp add: set_vals_def set_exists_def emit_put_def)
  have "keeps c u (case touchField c ?ek (c_rows (own c u) scopeElem (item_Key it) \<noteq> None) (setFieldVal ?ek b u) of
      (changed, u) \<Rightarrow> (Inr (f changed), u))" for b and f :: "i64 \<Rightarrow> i64 \<times> bytes"
    using inv step_hash_put [OF inv refl, of "item_Key it" b]
    by (auto simp: touchField_def setFieldVal_def Let_def swap ctx_card_def split: if_splits)
  then show "keeps c u (applyHIncrInt c it u)" "keeps c u (applyHIncrFloat fl c it u)"
    using inv read_field [OF inv]
    by (auto simp: applyHIncrInt_def applyHIncrFloat_def Let_def on_read_def split: option.splits)
qed

lemma keeps_zadd:
  assumes inv: "ctx_inv u" "cmd_ok c" "ctype c u = typeZSet"
  shows "keeps c u (apply_zadd c it u)"
proof -
  let ?x = "item_Key it" and ?f = "item_Score it"
  define old where "old = map_option Uint64 (c_rows (own c u) scopeZPtr ?x)"
  define v where "v = (let w = (case old of Some g \<Rightarrow> emit_del (zscoreKey (u_s u) (cmd_NS c) (cmd_Coll c) g ?x) u
                                | None \<Rightarrow> add_card (ctx_card c u) 1 u)
    in set_zscore (zptrKey (u_s u) (cmd_NS c) (cmd_Coll c) ?x) (Some ?f)
       (emit_put (zptrKey (u_s u) (cmd_NS c) (cmd_Coll c) ?x) (bitsOf ?f)
         (emit_put (zscoreKey (u_s u) (cmd_NS c) (cmd_Coll c) ?f ?x) [] w)))"
  let ?r = "(c_rows (own c u))(scopeElem := (zdrop old ?x (c_rows (own c u) scopeElem))(sortableScore ?f @ ?x \<mapsto> []),
                scopeZPtr := (c_rows (own c u) scopeZPtr)(?x \<mapsto> PutUint64 ?f))"
  let ?k = "(own c u)\<lparr>c_rows := ?r, c_zscore := (c_zscore (own c u))(?x \<mapsto> Some ?f),
     c_delta := (if old = None then c_delta (own c u) + 1 else c_delta (own c u))\<rparr>"
  have k: "coll_inv (base_rows u (cmd_NS c) (cmd_Coll c)) ?k" "row_type (c_rows ?k) = ctype c u"
    using coll_inv_zput [OF own_inv [OF inv(1,2)] _ old_def refl] inv(3) by (simp_all add: ctype_def)
  have "local c u v" using inv by (cases old) (simp_all add: v_def Let_def ctx_card_def key_simps local_emit)
  moreover have "own c v = ?k"
    using inv by (cases old; intro coll_state.equality) (simp_all add: v_def Let_def ctx_card_def own_simps zdrop_def
        bitsOf_def fun_upd_same fun_upd_other del: fun_upd_apply proj_sel)
  ultimately have "ctx_inv v \<and> u_s v = u_s u \<and> ctype c v = ctype c u"
    using keeps_step [OF inv(1,2) _ _ k] by blast
  then show ?thesis
    using read_zscore [OF inv(1,2), of ?x]
    by (cases old) (auto simp: apply_zadd_def on_read_def Let_def v_def old_def [symmetric])
qed

lemma keeps_remove_z:
  assumes inv: "ctx_inv u" "cmd_ok c" "ctype c u = typeZSet"
  shows "keeps c u (remove_z c it u)"
proof (cases "map_option Uint64 (c_rows (own c u) scopeZPtr (item_Key it))")
  case None
  then show ?thesis using inv read_zscore [OF inv(1,2)] by (simp add: remove_z_def on_read_def Let_def)
next
  case (Some g)
  let ?x = "item_Key it"
  let ?v = "add_card (ctx_card c u) (- 1) (set_zscore (zptrKey (u_s u) (cmd_NS c) (cmd_Coll c) ?x) None
     (emit_del (zptrKey (u_s u) (cmd_NS c) (cmd_Coll c) ?x)
       (emit_del (zscoreKey (u_s u) (cmd_NS c) (cmd_Coll c) g ?x) u)))"
  let ?r = "(c_rows (own c u))(scopeElem := (c_rows (own c u) scopeElem)(sortableScore g @ ?x := None),
                scopeZPtr := (c_rows (own c u) scopeZPtr)(?x := None))"
  let ?k = "(own c u)\<lparr>c_rows := ?r, c_zscore := (c_zscore (own c u))(?x \<mapsto> None), c_delta := c_delta (own c u) - 1\<rparr>"
  have k: "coll_inv (base_rows u (cmd_NS c) (cmd_Coll c)) ?k" "row_type (c_rows ?k) = ctype c u"
    using coll_inv_zdel [OF own_inv [OF inv(1,2)] _ Some [symmetric] refl] inv(3) by (simp_all add: ctype_def)
  have "local c u ?v" using inv by (simp add: ctx_card_def key_simps local_emit)
  moreover have "own c ?v = ?k"
    using inv by (simp add: ctx_card_def own_simps fun_upd_same fun_upd_other del: fun_upd_apply proj_sel)
  ultimately have "ctx_inv ?v \<and> u_s ?v = u_s u \<and> ctype c ?v = ctype c u"
    using keeps_step [OF inv(1,2) _ _ k] by blast
  then show ?thesis
    using read_zscore [OF inv(1,2), of ?x] Some by (auto simp: remove_z_def on_read_def Let_def ctx_card_def)
qed

lemma keeps_remove:
  assumes inv: "ctx_inv u" "cmd_ok c"
  shows "keeps c u (apply_remove c it u)"
proof -
  obtain x v where t: "typeOf (cmd_NS c) (cmd_Coll c) u = (x, v)" by fastforce
  show ?thesis
  proof (cases x)
    case (Inl e)
    then show ?thesis using t by (simp add: apply_remove_def on_ok_def)
  next
    case (Inr ty)
    note r = read_type [OF inv t [unfolded Inr]]
    have "keeps c v (if ty = typeSet \<or> ty = typeHash then remove_elem c it v
        else if ty = typeZSet then remove_z c it v else (Inr 0, v))"
      using r inv by (auto intro!: keeps_remove_elem keeps_remove_z)
    from keeps_trans [OF this r(3,4)] show ?thesis using t Inr by (simp add: apply_remove_def on_ok_def)
  qed
qed

text \<open>The element operations run on a collection of the type \<open>ensureType\<close> has established.\<close>

lemma keeps_item:
  assumes "ctx_inv u" "cmd_ok c" "typeForOp (cmd_Op c) \<noteq> 0 \<Longrightarrow> ctype c u = typeForOp (cmd_Op c)"
  shows "keeps c u (apply_item c it u)"
proof -
  have "typeForOp opSAdd = typeSet" "typeForOp opSRem = typeSet" "typeForOp opHSet = typeHash"
    "typeForOp opHDel = typeHash" "typeForOp opZAdd = typeZSet" "typeForOp opZRem = typeZSet"
    by (simp_all add: typeForOp_def op_defs)
  then show ?thesis
    using assms by (auto simp: apply_item_def Let_def intro!: keeps_sadd keeps_remove_elem keeps_expire keeps_hset
        keeps_zadd keeps_remove_z keeps_remove)
qed

lemma keeps_items:
  assumes "ctx_inv u" "cmd_ok c" "typeForOp (cmd_Op c) \<noteq> 0 \<Longrightarrow> ctype c u = typeForOp (cmd_Op c)"
  shows "keeps c u (apply_items c n its u)"
  using assms
proof (induction its arbitrary: n u)
  case Nil
  then show ?case by simp
next
  case (Cons it its)
  show ?case unfolding apply_items.simps
    by (rule keeps_on_ok [OF keeps_item [OF Cons.prems]]) (use Cons in auto)
qed

lemma keeps_applyCommand:
  assumes "ctx_inv u" "cmd_ok c" "typeForOp (cmd_Op c) \<noteq> 0 \<Longrightarrow> ctype c u = typeForOp (cmd_Op c)"
  shows "keeps c u (applyCommand c u)"
  using keeps_items [OF assms] by (simp add: applyCommand_def)

subsection \<open>Budgets, idempotency and freezes\<close>

definition inv_ok :: "update_ctx \<Rightarrow> 'a upd \<Rightarrow> bool" where
  "inv_ok u r \<longleftrightarrow> (\<forall>a u'. r = (Inr a, u') \<longrightarrow> ctx_inv u' \<and> u_s u' = u_s u)"

lemma inv_ok_Inl [simp]: "inv_ok u (Inl e, u')"
  by (simp add: inv_ok_def)

lemma inv_ok_Inr [simp]: "inv_ok u (Inr a, u') \<longleftrightarrow> ctx_inv u' \<and> u_s u' = u_s u"
  by (auto simp: inv_ok_def)

lemma inv_ok_on_ok:
  assumes "inv_ok u r" "\<And>a v. r = (Inr a, v) \<Longrightarrow> ctx_inv v \<Longrightarrow> u_s v = u_s u \<Longrightarrow> inv_ok u (f a v)"
  shows "inv_ok u (on_ok r f)"
proof (cases r)
  case (Pair x v)
  then show ?thesis using assms by (cases x) (auto simp: on_ok_def)
qed

lemma inv_ok_on_read: "(\<And>a. r = Inr a \<Longrightarrow> inv_ok u (f a)) \<Longrightarrow> inv_ok u (on_read r v f)"
  by (cases r) (auto simp: on_read_def)

lemma keeps_inv_ok: "keeps c u r \<Longrightarrow> inv_ok u r"
  unfolding keeps_def inv_ok_def by blast

definition same_inv :: "update_ctx \<Rightarrow> update_ctx \<Rightarrow> bool" where
  "same_inv u v \<longleftrightarrow> ctx_inv v \<and> u_s v = u_s u"

lemma same_inv_bud:
  assumes "ctx_inv v" "cmd_ok c" "sc \<in> {scopeBudPool, scopeBudLease, scopeBudTomb}" "s = u_s v"
  shows "ctx_inv (emit_put (scope_key s (cmd_NS c) (cmd_Coll c) sc x) b v)"
    "ctx_inv (emit_del (scope_key s (cmd_NS c) (cmd_Coll c) sc x) v)"
    "ctx_inv (set_vals (scope_key s (cmd_NS c) (cmd_Coll c) sc x) w v)"
proof -
  have sc: "sc \<noteq> scopeElem" using assms(3) by auto
  have i: "coll_inv (base_rows v (cmd_NS c) (cmd_Coll c)) (own c v)" using assms by (intro own_inv)
  have r: "coll_inv (base_rows v (cmd_NS c) (cmd_Coll c)) (set_row sc x y (own c v))" for y
    using coll_inv_bud [OF i assms(3)] .
  show "ctx_inv (emit_put (scope_key s (cmd_NS c) (cmd_Coll c) sc x) b v)"
    by (rule ctx_inv_local [OF assms(1) local_emit(1) [OF assms(2) local_refl assms(4)]])
      (use r [of "Some b"] assms in \<open>simp add: own_def proj_simps\<close>)
  show "ctx_inv (emit_del (scope_key s (cmd_NS c) (cmd_Coll c) sc x) v)"
    by (rule ctx_inv_local [OF assms(1) local_emit(2) [OF assms(2) local_refl assms(4)]])
      (use r [of None] assms in \<open>simp add: own_def proj_simps\<close>)
  show "ctx_inv (set_vals (scope_key s (cmd_NS c) (cmd_Coll c) sc x) w v)"
    by (rule ctx_inv_local [OF assms(1) local_emit(7) [OF assms(2) local_refl assms(4)]])
      (use i assms sc in \<open>simp add: own_def proj_simps\<close>)
qed

lemma same_inv_sub:
  assumes "ctx_inv v" "sub \<noteq> subData" "s = u_s v"
  shows "ctx_inv (emit_put (sub_key s sub x) b v)" "ctx_inv (emit_del (sub_key s sub x) v)"
  using assms by (auto simp: ctx_inv_def proj_simps base_rows_def)

lemma same_inv_over:
  assumes "ctx_inv v"
  shows "ctx_inv (v\<lparr>u_inBatchDedup := ib\<rparr>)" "ctx_inv (v\<lparr>u_dedupSeq := n\<rparr>)"
  using assms by (auto simp: ctx_inv_def proj_simps base_rows_def)

lemma bud_u_s [simp]:
  "u_s (setPool ns coll p v) = u_s v" "u_s (setLease ns coll m l v) = u_s v" "u_s (delLease ns coll m v) = u_s v"
  "u_s (setTomb ns coll m tb v) = u_s v" "u_s (delTomb ns coll m v) = u_s v" "u_s (setBudExp ns coll m e v) = u_s v"
  "u_s (delBudExp ns coll m e v) = u_s v" "u_s (setBudTombGC ns coll m e v) = u_s v"
  "u_s (delBudTombGC ns coll m e v) = u_s v"
  by (simp_all add: setPool_def setLease_def delLease_def setTomb_def delTomb_def setBudExp_def delBudExp_def
      setBudTombGC_def delBudTombGC_def Let_def)

lemma ctx_inv_bud [simp, intro]:
  assumes "ctx_inv v" "cmd_ok c"
  shows "ctx_inv (setPool (cmd_NS c) (cmd_Coll c) p v)" "ctx_inv (setLease (cmd_NS c) (cmd_Coll c) m l v)"
    "ctx_inv (delLease (cmd_NS c) (cmd_Coll c) m v)" "ctx_inv (setTomb (cmd_NS c) (cmd_Coll c) m tb v)"
    "ctx_inv (delTomb (cmd_NS c) (cmd_Coll c) m v)" "ctx_inv (setBudExp (cmd_NS c) (cmd_Coll c) m e v)"
    "ctx_inv (delBudExp (cmd_NS c) (cmd_Coll c) m e v)" "ctx_inv (setBudTombGC (cmd_NS c) (cmd_Coll c) m e v)"
    "ctx_inv (delBudTombGC (cmd_NS c) (cmd_Coll c) m e v)"
  using assms by (simp_all add: setPool_def setLease_def delLease_def setTomb_def delTomb_def setBudExp_def
      delBudExp_def setBudTombGC_def delBudTombGC_def Let_def key_simps same_inv_bud same_inv_sub)

lemma inv_ok_if: "(b \<Longrightarrow> inv_ok u x) \<Longrightarrow> (\<not> b \<Longrightarrow> inv_ok u y) \<Longrightarrow> inv_ok u (if b then x else y)"
  by simp

lemma inv_ok_opt: "(m = None \<Longrightarrow> inv_ok u x) \<Longrightarrow> (\<And>a. m = Some a \<Longrightarrow> inv_ok u (f a)) \<Longrightarrow>
    inv_ok u (case m of None \<Rightarrow> x | Some a \<Rightarrow> f a)"
  by (cases m) auto

lemma inv_ok_pair: "(\<And>a b. m = (a, b) \<Longrightarrow> inv_ok u (f a b)) \<Longrightarrow> inv_ok u (case m of (a, b) \<Rightarrow> f a b)"
  by (cases m) auto

lemmas inv_ok_intros = inv_ok_if inv_ok_opt inv_ok_pair inv_ok_on_read

lemma inv_ok_ensureType: "ctx_inv u \<Longrightarrow> cmd_ok c \<Longrightarrow> want \<noteq> 0 \<Longrightarrow>
    inv_ok u (ensureType (cmd_NS c) (cmd_Coll c) want u)"
  using ensure_type unfolding inv_ok_def by blast

lemma inv_ok_budInit:
  assumes "ctx_inv u" "cmd_ok c"
  shows "inv_ok u (applyBudInit c u)"
  unfolding applyBudInit_def Let_def
  by (intro inv_ok_intros inv_ok_on_ok inv_ok_ensureType) (use assms in \<open>simp_all\<close>)

lemma inv_ok_budGrant: "ctx_inv u \<Longrightarrow> cmd_ok c \<Longrightarrow> inv_ok u (applyBudGrant c u)"
  unfolding applyBudGrant_def grant_lease_def Let_def if_distrib [where f = "\<lambda>p. case_prod _ p"]
  by (intro inv_ok_intros) (auto split: if_splits)

lemma inv_ok_budReport: "ctx_inv u \<Longrightarrow> cmd_ok c \<Longrightarrow> inv_ok u (applyBudReport c u)"
  unfolding applyBudReport_def Let_def
  by (intro inv_ok_intros) simp_all

lemma inv_ok_budReturn: "ctx_inv u \<Longrightarrow> cmd_ok c \<Longrightarrow> inv_ok u (applyBudReturn c u)"
  unfolding applyBudReturn_def Let_def
  by (intro inv_ok_intros) simp_all

lemma inv_ok_budExpire: "ctx_inv u \<Longrightarrow> cmd_ok c \<Longrightarrow> inv_ok u (applyBudExpire c u)"
  unfolding applyBudExpire_def Let_def
  by (intro inv_ok_intros) (simp_all split: option.split)

lemma inv_ok_budRest:
  assumes "ctx_inv u" "cmd_ok c"
  shows "inv_ok u (applyBudTombGC c u)" "inv_ok u (applyBudReconcile c u)"
  unfolding applyBudTombGC_def applyBudReconcile_def Let_def
  by ((intro inv_ok_intros; use assms in simp)+)

lemma inv_ok_budget: "ctx_inv u \<Longrightarrow> cmd_ok c \<Longrightarrow> inv_ok u (apply_budget c u)"
  by (simp add: apply_budget_def inv_ok_budInit inv_ok_budGrant inv_ok_budReport inv_ok_budReturn inv_ok_budExpire
      inv_ok_budRest)

lemma inv_ok_dedupRecord: "ctx_inv u \<Longrightarrow> inv_ok u (dedupRecord k v d u)"
  unfolding dedupRecord_def Let_def key_simps
  by (intro inv_ok_intros) (auto simp: same_inv_sub same_inv_over split: option.split)

lemma inv_ok_record_result: "ctx_inv u \<Longrightarrow> inv_ok u (record_result c r u)"
  unfolding record_result_def by (intro inv_ok_on_ok inv_ok_dedupRecord) (simp_all add: same_inv_over)

lemma inv_ok_trans: "inv_ok v r \<Longrightarrow> u_s v = u_s u \<Longrightarrow> inv_ok u r"
  by (metis inv_ok_def)

subsection \<open>Entries\<close>

lemma decode_mutates: "decodeCommandInto b = Inr c \<Longrightarrow> mutates (cmd_Op c)"
  by (cases b) (auto simp: decodeCommandInto_def mutates_def split: if_splits sum.splits prod.splits)

lemma typeForOp_budget: "typeForOp op = typeBudget \<longleftrightarrow> is_budget_op op"
  by (auto simp: typeForOp_def is_budget_op_def op_defs type_defs)

lemma typeForOp_untyped: "typeForOp opExpire = 0" "typeForOp opRemove = 0"
  "typeForOp opHIncrBy = typeHash" "typeForOp opHIncrByFloat = typeHash"
  by (simp_all add: typeForOp_def op_defs)

lemma inv_ok_hincr:
  assumes "ctx_inv u" "cmd_ok c" "ctype c u = typeHash"
  shows "inv_ok u (apply_hincr fl d c u)"
  unfolding apply_hincr_def
  by (intro inv_ok_intros inv_ok_on_ok keeps_inv_ok [OF keeps_hincr(1)] keeps_inv_ok [OF keeps_hincr(2)]
      inv_ok_trans [OF inv_ok_record_result])
    (use assms in \<open>auto split: prod.splits intro: inv_ok_trans [OF inv_ok_record_result]\<close>)

lemma inv_ok_type:
  assumes "ctx_inv u" "cmd_ok c" "mutates (cmd_Op c)"
  shows "inv_ok u (if cmd_Op c \<noteq> opExpire \<and> cmd_Op c \<noteq> opRemove \<and> typeForOp (cmd_Op c) \<noteq> typeBudget
            then ensureType (cmd_NS c) (cmd_Coll c) (typeForOp (cmd_Op c)) u else (Inr True, u))"
  using assms by (auto simp: mutates_def intro: inv_ok_ensureType)

lemma inv_ok_typeOf: "ctx_inv u \<Longrightarrow> cmd_ok c \<Longrightarrow> inv_ok u (typeOf (cmd_NS c) (cmd_Coll c) u)"
  using read_type unfolding inv_ok_def by blast

lemma fresh_type:
  assumes "ctx_inv u" "cmd_ok c" "mutates (cmd_Op c)" "\<not> is_budget_op (cmd_Op c)" "typeForOp (cmd_Op c) \<noteq> 0"
    "(if cmd_Op c \<noteq> opExpire \<and> cmd_Op c \<noteq> opRemove \<and> typeForOp (cmd_Op c) \<noteq> typeBudget
            then ensureType (cmd_NS c) (cmd_Coll c) (typeForOp (cmd_Op c)) u else (Inr True, u)) = (Inr True, v)"
  shows "ctype c v = typeForOp (cmd_Op c)"
proof -
  have "cmd_Op c \<noteq> opExpire \<and> cmd_Op c \<noteq> opRemove" using assms(5) typeForOp_untyped by auto
  then show ?thesis using ensure_type [OF assms(1,2) _ assms(5)] assms(4,6) by (simp add: typeForOp_budget)
qed

lemma inv_ok_fresh:
  assumes "ctx_inv u" "cmd_ok c" "mutates (cmd_Op c)"
  shows "inv_ok u (apply_fresh fl d c u)"
  unfolding apply_fresh_def
proof (intro inv_ok_on_ok [OF inv_ok_type [OF assms]] inv_ok_if)
  fix ok v
  assume v: "ctx_inv v" "u_s v = u_s u" and ok: "\<not> \<not> ok"
    and r: "(if cmd_Op c \<noteq> opExpire \<and> cmd_Op c \<noteq> opRemove \<and> typeForOp (cmd_Op c) \<noteq> typeBudget
            then ensureType (cmd_NS c) (cmd_Coll c) (typeForOp (cmd_Op c)) u else (Inr True, u)) = (Inr ok, v)"
  have t: "ctype c v = typeForOp (cmd_Op c)" if "\<not> is_budget_op (cmd_Op c)" "typeForOp (cmd_Op c) \<noteq> 0"
    using fresh_type [OF assms that] r ok by simp
  show "inv_ok u (apply_hincr fl d c v)" if "cmd_Op c = opHIncrBy \<or> cmd_Op c = opHIncrByFloat"
  proof -
    have "typeForOp (cmd_Op c) = typeHash" using that typeForOp_untyped by auto
    then show ?thesis using t typeForOp_budget [of "cmd_Op c"] v assms(2)
      by (intro inv_ok_trans [OF inv_ok_hincr v(2)]) (simp_all add: type_defs)
  qed
  show "inv_ok u (on_ok (typeOf (cmd_NS c) (cmd_Coll c) v) (\<lambda>tp u.
      if tp \<noteq> 0 \<and> tp \<noteq> typeBudget then (Inr (result 0 wrongType), u) else apply_budget c u))"
    by (intro inv_ok_on_ok inv_ok_if inv_ok_trans [OF inv_ok_budget] inv_ok_trans [OF inv_ok_typeOf])
      (use v assms(2) in simp_all)
  show "inv_ok u (on_ok (applyCommand c v) (\<lambda>changed u.
      if d then record_result c (result changed []) u else (Inr (result changed []), u)))" if "\<not> is_budget_op (cmd_Op c)"
    by (intro inv_ok_on_ok inv_ok_if inv_ok_trans [OF keeps_inv_ok [OF keeps_applyCommand]]
        inv_ok_trans [OF inv_ok_record_result]) (use v assms(2) t that in simp_all)
qed (use assms in simp_all)

lemma inv_ok_applyOne:
  assumes "ctx_inv u"
  shows "inv_ok u (applyOne fl frozen cmd u)"
  unfolding applyOne_def Let_def
  by (intro inv_ok_intros inv_ok_fresh) (use assms decode_cmd_ok decode_mutates in simp_all)

lemma inv_ok_subs: "ctx_inv u \<Longrightarrow> inv_ok u (apply_subs fl frozen rs cmds u)"
proof (induction cmds arbitrary: rs u)
  case Nil
  then show ?case by simp
next
  case (Cons cmd cmds)
  then show ?case
    by (auto intro!: inv_ok_on_ok inv_ok_applyOne intro: inv_ok_trans)
qed

lemma inv_ok_freeze: "ctx_inv u \<Longrightarrow> inv_ok u (applyFreeze cmd u)"
  unfolding applyFreeze_def by (intro inv_ok_intros) (simp_all add: key_simps same_inv_sub)

definition no_migrate :: "entry \<Rightarrow> bool" where
  "no_migrate e \<longleftrightarrow> (e_Cmd e \<noteq> [] \<longrightarrow> hd (e_Cmd e) \<noteq> opIngest \<and> hd (e_Cmd e) \<noteq> opPurge)"

lemma inv_ok_wrap: "inv_ok u r \<Longrightarrow> inv_ok u (wrap_upd i r)"
  by (cases r; cases "fst r") (auto simp: wrap_upd_def)

lemma inv_ok_entry:
  assumes "ctx_inv u" "no_migrate e"
  shows "inv_ok u (applyEntry fl frozen e u)"
  unfolding applyEntry_def Let_def
  by (intro inv_ok_wrap inv_ok_intros inv_ok_on_ok inv_ok_freeze inv_ok_subs inv_ok_applyOne)
    (use assms in \<open>auto simp: no_migrate_def\<close>)

lemma inv_ok_entrySafe:
  assumes "ctx_inv u" "no_migrate e"
  shows "inv_ok u (applyEntrySafe fl frozen e u)"
  using inv_ok_entry [OF assms, of fl frozen] unfolding applyEntrySafe_def
  by (cases "applyEntry fl frozen e u"; cases "fst (applyEntry fl frozen e u)") (auto split: coll_error.splits)

lemma inv_ok_entries: "ctx_inv u \<Longrightarrow> list_all no_migrate es \<Longrightarrow> inv_ok u (apply_entries fl frozen es u)"
proof (induction es arbitrary: u)
  case Nil
  then show ?case by simp
next
  case (Cons e es)
  obtain x u' where x: "applyEntrySafe fl frozen e u = (x, u')" by fastforce
  have v: "ctx_restore (ctx_snapshot u) u' = u"
    using safe_applyEntrySafe [OF ctx_ext_refl, of u fl frozen e] x by (intro restore_snapshot) (simp add: safe_def)
  show ?case
  proof (cases x)
    case (Inl err)
    then show ?thesis using Cons.IH [of u] Cons.prems x v by (auto intro!: inv_ok_on_ok)
  next
    case (Inr r)
    then have "ctx_inv u'" "u_s u' = u_s u"
      using inv_ok_entrySafe [OF Cons.prems(1), of e fl frozen] Cons.prems(2) x by simp_all
    then show ?thesis using Cons.IH [of u'] Cons.prems x Inr by (auto intro!: inv_ok_on_ok intro: inv_ok_trans)
  qed
qed

end
