(* ===== verification/Coll_Card.thy ===== *)
theory Coll_Card
  imports Coll_Keep
begin

text \<open>
  The cardinality counters of a shard, \<open>src/internal/collections/statemachine.go\<close>: what a flush writes, that an
  update keeps the invariant of the shard, and that the counter of a collection is the number of its elements.
\<close>

section \<open>Flushing the counters\<close>

definition stored_count :: "base_sm \<Rightarrow> bytes \<Rightarrow> u64" where
  "stored_count s ck = (case base s ck of None \<Rightarrow> 0 | Some v \<Rightarrow> Uint64 v)"

definition clamp_card :: "u64 \<Rightarrow> u64" where
  "clamp_card n = (if sint n < 0 then 0 else n)"

lemma readCard_stored:
  "healthy s \<Longrightarrow> cards_ok s \<Longrightarrow> ck \<in> card_keys s \<Longrightarrow> readCard s ck = Inr (stored_count s ck)"
  by (auto simp: readCard_def getData_base cards_ok_def stored_count_def split: option.splits)

lemma flush_cards_eff:
  assumes "healthy (u_s u)" "cards_ok (u_s u)" "fst ` set ds \<subseteq> card_keys (u_s u)" "distinct (map fst ds)"
    "flush_cards ds u = (Inr (), u')"
  shows "u_s u' = u_s u \<and> eff u' = (\<lambda>k. case map_of ds k of
      Some d \<Rightarrow> if d = 0 then eff u k else Some (PutUint64 (clamp_card (stored_count (u_s u) k + d)))
    | None \<Rightarrow> eff u k)"
  using assms
proof (induction ds arbitrary: u)
  case Nil
  then show ?case by (simp add: fun_eq_iff)
next
  case (Cons kd ds)
  obtain ck d where kd: "kd = (ck, d)" by fastforce
  have new: "map_of ds ck = None" using Cons.prems(4) kd by (simp add: map_of_eq_None_iff)
  show ?case
  proof (cases "d = 0")
    case True
    then show ?thesis using Cons kd new by (auto simp: fun_eq_iff split: option.splits)
  next
    case False
    define v where "v = emit_put ck (PutUint64 (clamp_card (stored_count (u_s u) ck + d))) u"
    have v: "u_s v = u_s u" "eff v = (eff u)(ck \<mapsto> PutUint64 (clamp_card (stored_count (u_s u) ck + d)))"
      by (simp_all add: v_def eff_simps)
    have "flush_cards ds v = (Inr (), u')"
      using Cons.prems False kd readCard_stored [of "u_s u" ck] by (simp add: on_read_def Let_def v_def clamp_card_def)
    then have "u_s u' = u_s v \<and> eff u' = (\<lambda>k. case map_of ds k of
        Some d \<Rightarrow> if d = 0 then eff v k else Some (PutUint64 (clamp_card (stored_count (u_s v) k + d)))
      | None \<Rightarrow> eff v k)"
      using Cons.IH [of v] Cons.prems v(1) by simp
    then show ?thesis using v new kd False by (auto simp: fun_eq_iff split: option.splits)
  qed
qed

section \<open>The counters of a shard\<close>

definition coll_rows :: "base_sm \<Rightarrow> bytes \<Rightarrow> bytes \<Rightarrow> byte \<Rightarrow> bytes \<Rightarrow> bytes option" where
  "coll_rows s ns coll = rows_of s (base s) ns coll"

definition shard_inv :: "base_sm \<Rightarrow> bool" where
  "shard_inv s \<longleftrightarrow> healthy s \<and> cards_ok s \<and> (\<forall>ns coll. name_ok ns \<longrightarrow> name_ok coll \<longrightarrow>
     typed (coll_rows s ns coll) \<and> stored_card (coll_rows s ns coll) = of_nat (card (elems (coll_rows s ns coll))))"

definition small :: "base_sm \<Rightarrow> bool" where
  "small s \<longleftrightarrow> length (cfs (sm_store s) CFReplData) < 2 ^ 63"

lemma new_ctx_simps [simp]:
  "u_s (new_ctx s n) = s" "eff (new_ctx s n) = base s" "u_cardDelta (new_ctx s n) = []"
  by (simp_all add: new_ctx_def eff_def base_def)

lemma shard_inv_ctx:
  assumes "shard_inv s"
  shows "ctx_inv (new_ctx s n)"
proof -
  have "coll_inv (coll_rows s ns coll) (proj (new_ctx s n) ns coll)" if "name_ok ns" "name_ok coll" for ns coll
  proof -
    have p: "proj (new_ctx s n) ns coll = \<lparr>c_rows = coll_rows s ns coll, c_exists = Map.empty, c_zscore = Map.empty,
        c_vals = Map.empty, c_htype = None, c_delta = 0\<rparr>"
      by (simp add: proj_def coll_rows_def) (simp add: new_ctx_def card_delta_def)
    show ?thesis using assms that unfolding p by (simp add: shard_inv_def coll_inv_def coherent_def coh_defs)
  qed
  then show ?thesis using assms by (simp add: ctx_inv_def shard_inv_def base_rows_def coll_rows_def)
qed

lemma typed_cong:
  "r scopeElem = r' scopeElem \<Longrightarrow> r scopeZPtr = r' scopeZPtr \<Longrightarrow> r scopeType = r' scopeType \<Longrightarrow>
   r scopeTTLPtr = r' scopeTTLPtr \<Longrightarrow> typed r = typed r'"
  by (simp add: typed_def elems_def zindex_def row_type_def)

lemma elems_small:
  assumes "small s" "name_ok ns" "name_ok coll"
  shows "card (elems (coll_rows s ns coll)) < 2 ^ 63"
proof -
  let ?k = "scope_key s ns coll scopeElem"
  have sub: "?k ` elems (coll_rows s ns coll) \<subseteq> fst ` set (cfs (sm_store s) CFReplData)"
    by (auto simp: elems_def coll_rows_def rows_of_def base_def mem_view_def dom_map_of_conv_image_fst [symmetric])
  have "inj ?k" by (simp add: inj_def scope_key_def sub_key_def)
  then have "card (elems (coll_rows s ns coll)) = card (?k ` elems (coll_rows s ns coll))"
    by (simp add: card_image inj_on_subset)
  also have "\<dots> \<le> card (fst ` set (cfs (sm_store s) CFReplData))" using sub by (intro card_mono) simp_all
  also have "\<dots> \<le> length (cfs (sm_store s) CFReplData)"
    by (metis card_length length_map list.set_map)
  finally show ?thesis using assms(1) by (simp add: small_def)
qed

lemma clamp_of_nat:
  assumes "n < 2 ^ 63"
  shows "clamp_card (of_nat n) = of_nat n"
proof -
  have "int n < 2 ^ 63" using assms by simp
  then have "sint (of_nat n :: u64) = int n"
    by (simp add: signed_of_nat signed_take_bit_int_eq_self)
  then show ?thesis by (simp add: clamp_card_def)
qed

lemma scope_key_prefix: "sm_prefix s' = sm_prefix s \<Longrightarrow> scope_key s' = scope_key s"
  by (simp add: fun_eq_iff scope_key_def sub_key_def)

lemma not_card_key:
  assumes "name_ok ns" "name_ok coll" "sc \<noteq> scopeCard"
  shows "scope_key s ns coll sc x \<notin> card_keys s"
  using assms by (auto simp: card_keys_def key_simps)

lemma flush_seq_scope: "eff (flush_seq n u) (scope_key (u_s u) ns coll sc x) = eff u (scope_key (u_s u) ns coll sc x)"
  by (simp add: flush_seq_def key_simps eff_simps)

lemma cards_ok_len:
  "cards_ok s \<Longrightarrow> name_ok ns \<Longrightarrow> name_ok coll \<Longrightarrow> base s (cardKey s ns coll) = Some v \<Longrightarrow> length v = 8"
  unfolding cards_ok_def card_keys_def by blast

lemma Update_rows:
  assumes s: "shard_inv s" and ne: "entries \<noteq> []" and nm: "list_all no_migrate entries"
    and s'_def: "s' = snd (Update fl s entries)"
  obtains frozen seq es u where "loadFrozen s = Inr frozen" "apply_entries fl frozen entries (new_ctx s seq) = (Inr es, u)"
    "fst (Update fl s entries) = Inr es" "ctx_inv u" "u_s u = s"
    "\<And>ns coll sc x. name_ok ns \<Longrightarrow> name_ok coll \<Longrightarrow> sc \<noteq> scopeCard \<Longrightarrow> coll_rows s' ns coll sc x = c_rows (proj u ns coll) sc x"
    "\<And>ns coll. name_ok ns \<Longrightarrow> name_ok coll \<Longrightarrow> coll_rows s' ns coll scopeCard [] =
       (if c_delta (proj u ns coll) = 0 then c_rows (proj u ns coll) scopeCard []
        else Some (PutUint64 (clamp_card (stored_count s (cardKey s ns coll) + c_delta (proj u ns coll)))))"
proof -
  have hc: "healthy s" "cards_ok s" using s by (simp_all add: shard_inv_def)
  obtain frozen seq es u u' where fr: "loadFrozen s = Inr frozen" and run: "apply_entries fl frozen entries (new_ctx s seq) = (Inr es, u)"
    "ctx_ext (new_ctx s seq) u" "flush_cards (u_cardDelta u) (flush_seq seq u) = (Inr (), u')"
    and res: "fst (Update fl s entries) = Inr es" and s': "sm_prefix s' = sm_prefix s" "base s' = (eff u')(appliedKey s \<mapsto> PutUint64 (e_Index (last entries)))"
    using Update_run [OF hc ne, of fl] unfolding s'_def by metis
  have u: "ctx_inv u" "u_s u = s"
    using inv_ok_entries [OF shard_inv_ctx [OF s, of seq] nm, of fl frozen] run(1) by simp_all
  have cd: "fst ` set (u_cardDelta u) \<subseteq> card_keys s" "distinct (map fst (u_cardDelta u))"
    using run(2) by (simp_all add: ctx_ext_def)
  have e: "eff u' = (\<lambda>k. case map_of (u_cardDelta u) k of
      Some d \<Rightarrow> if d = 0 then eff (flush_seq seq u) k else Some (PutUint64 (clamp_card (stored_count s k + d)))
    | None \<Rightarrow> eff (flush_seq seq u) k)"
    using flush_cards_eff [OF _ _ _ _ run(3)] hc cd unfolding flush_seq_cards(2) u(2) by simp
  have row: "coll_rows s' ns coll sc x = eff u' (scope_key s ns coll sc x)" for ns coll sc x
    by (simp add: coll_rows_def rows_of_def s' scope_key_prefix [OF s'(1)]) (simp add: key_simps)
  show thesis
  proof (rule that [OF fr run(1) res u])
    fix ns coll sc x assume n: "name_ok ns" "name_ok coll" and "sc \<noteq> scopeCard"
    then have "map_of (u_cardDelta u) (scope_key s ns coll sc x) = None"
      using not_card_key [OF n, of sc s x] cd(1) unfolding map_of_eq_None_iff by blast
    then show "coll_rows s' ns coll sc x = c_rows (proj u ns coll) sc x"
      using row e u(2) flush_seq_scope [of seq u] by simp
  next
    fix ns coll
    show "coll_rows s' ns coll scopeCard [] = (if c_delta (proj u ns coll) = 0 then c_rows (proj u ns coll) scopeCard []
        else Some (PutUint64 (clamp_card (stored_count s (cardKey s ns coll) + c_delta (proj u ns coll)))))"
      using row e u(2) flush_seq_scope [of seq u]
      by (simp add: proj_def card_delta_def key_simps rows_of_def split: option.split)
  qed
qed

lemma Update_shard_inv:
  assumes s: "shard_inv s" and nm: "list_all no_migrate entries" and sm: "small (snd (Update fl s entries))"
  shows "shard_inv (snd (Update fl s entries))"
proof (cases "entries = []")
  case True
  then show ?thesis using s by (simp add: Update_def)
next
  case ne: False
  let ?s = "snd (Update fl s entries)"
  have hc: "healthy s" "cards_ok s" using s by (simp_all add: shard_inv_def)
  have pre: "sm_prefix ?s = sm_prefix s" "healthy ?s" using Update_run [OF hc ne, of fl] by metis+
  have main: "typed (coll_rows ?s ns coll) \<and> stored_card (coll_rows ?s ns coll) = of_nat (card (elems (coll_rows ?s ns coll))) \<and>
      (\<forall>v. coll_rows ?s ns coll scopeCard [] = Some v \<longrightarrow> length v = 8)" if n: "name_ok ns" "name_ok coll" for ns coll
  proof -
    obtain u where u: "ctx_inv u" "u_s u = s"
      and row: "\<And>sc x. sc \<noteq> scopeCard \<Longrightarrow> coll_rows ?s ns coll sc x = c_rows (proj u ns coll) sc x"
      and cnt: "coll_rows ?s ns coll scopeCard [] =
       (if c_delta (proj u ns coll) = 0 then c_rows (proj u ns coll) scopeCard []
        else Some (PutUint64 (clamp_card (stored_count s (cardKey s ns coll) + c_delta (proj u ns coll)))))"
      using Update_rows [OF s ne nm refl, of fl] n by metis
    have inv: "coll_inv (base_rows u ns coll) (proj u ns coll)" using u(1) n by (simp add: ctx_inv_def)
    have el: "elems (coll_rows ?s ns coll) = elems (c_rows (proj u ns coll))" using row by (auto simp: elems_def)
    have b: "base_rows u ns coll scopeCard [] = base s (cardKey s ns coll)"
      using u(2) by (simp add: base_rows_def rows_of_def key_simps)
    have card: "of_nat (card (elems (coll_rows ?s ns coll))) = stored_count s (cardKey s ns coll) + c_delta (proj u ns coll)"
      "c_rows (proj u ns coll) scopeCard [] = base s (cardKey s ns coll)"
      using inv b el by (auto simp: coll_inv_def coherent_def coh_card_def stored_card_def stored_count_def)
    have "typed (coll_rows ?s ns coll)"
      using inv row by (subst typed_cong [of _ "c_rows (proj u ns coll)"]) (auto simp: coll_inv_def fun_eq_iff)
    moreover have "stored_card (coll_rows ?s ns coll) = of_nat (card (elems (coll_rows ?s ns coll)))"
      using cnt card clamp_of_nat [OF elems_small [OF sm n]]
      by (auto simp: stored_card_def stored_count_def)
    moreover have "\<forall>v. coll_rows ?s ns coll scopeCard [] = Some v \<longrightarrow> length v = 8"
      using cnt card(2) cards_ok_len [OF hc(2) n] by auto
    ultimately show ?thesis by blast
  qed
  have "cards_ok ?s"
    using main unfolding cards_ok_def card_keys_def by (auto simp: coll_rows_def rows_of_def key_simps)
  with main pre(2) show ?thesis unfolding shard_inv_def by blast
qed

section \<open>Shards reached by updates\<close>

text \<open>The shards that committed entries lead to, with subrange migration left out: an ingest writes the rows it carries.\<close>

inductive shard_reach :: "float_lib \<Rightarrow> base_sm \<Rightarrow> base_sm \<Rightarrow> bool" for fl s0 where
  reach_start: "shard_reach fl s0 s0"
| reach_update: "\<lbrakk>shard_reach fl s0 s; list_all no_migrate entries; small (snd (Update fl s entries))\<rbrakk> \<Longrightarrow>
    shard_reach fl s0 (snd (Update fl s entries))"

lemma shard_reach_inv: "shard_reach fl s0 s \<Longrightarrow> shard_inv s0 \<Longrightarrow> shard_inv s"
  by (induction rule: shard_reach.induct) (auto intro: Update_shard_inv)

lemma shard_inv_empty: "healthy s \<Longrightarrow> base s = Map.empty \<Longrightarrow> shard_inv s"
  by (simp add: shard_inv_def cards_ok_def coll_rows_def rows_of_def typed_def elems_def zindex_def stored_card_def row_type_def)

lemma Lookup_snap: "healthy s \<Longrightarrow> Lookup s q = lookup_snap s (cfs (sm_store s)) q"
  by (simp add: Lookup_def MemStore_Snapshot_def healthy_def mem_invar_def)

lemma snap_rows_prefix:
  assumes "healthy s"
  obtains rs where "snap_rows (cfs (sm_store s)) p (prefixEnd p) 0 = Inr rs" "sorted_wrt (<) (map fst rs)"
    "set rs = {(k, v). base s k = Some v \<and> prefix p k}"
  using mem.scan_prefix [of "sm_store s" CFReplData p] assms that
  by (auto simp: healthy_def mem_invar_def snap_rows_def memSnapshot_Scan_def MemStore_Scan_def base_def)

text \<open>The rows below a prefix, in key order.\<close>

lemma prefix_rows:
  assumes "healthy s"
  obtains ks where "snap_rows (cfs (sm_store s)) p (prefixEnd p) 0 = Inr (map (\<lambda>x. (p @ x, the (base s (p @ x)))) ks)"
    "sorted_wrt (<) ks" "set ks = {x. base s (p @ x) \<noteq> None}"
proof -
  obtain rs where rs: "snap_rows (cfs (sm_store s)) p (prefixEnd p) 0 = Inr rs" "sorted_wrt (<) (map fst rs)"
    "set rs = {(k, v). base s k = Some v \<and> prefix p k}" by (rule snap_rows_prefix [OF assms])
  let ?ks = "map (\<lambda>(k, v). drop (length p) k) rs"
  have row: "(\<lambda>x. (p @ x, the (base s (p @ x)))) ((\<lambda>(k, v). drop (length p) k) kv) = kv"
    if "kv \<in> set rs" for kv
    using that rs(3) by (auto simp: prefix_def)
  have map: "rs = map (\<lambda>x. (p @ x, the (base s (p @ x)))) ?ks"
    unfolding map_map by (rule map_idI [symmetric]) (use row in simp)
  have "map fst rs = map (\<lambda>x. p @ x) ?ks" by (subst map) simp
  then have "sorted_wrt (<) (map (\<lambda>x. p @ x) ?ks)" using rs(2) by (simp only:)
  then have "sorted_wrt (<) ?ks" unfolding sorted_wrt_map [of _ "\<lambda>x. p @ x"] append_less_append_same .
  moreover have "set ?ks = {x. base s (p @ x) \<noteq> None}"
    unfolding set_map rs(3) by (force simp: prefix_def)
  moreover have "snap_rows (cfs (sm_store s)) p (prefixEnd p) 0 = Inr (map (\<lambda>x. (p @ x, the (base s (p @ x)))) ?ks)"
    using rs(1) map by (rule trans [OF _ arg_cong [where f = Inr]])
  ultimately show thesis using that by blast
qed

lemma snap_get_base: "snap_get (cfs (sm_store s)) k = Inr (base s k)"
  by (simp add: snap_get_def memSnapshot_Get_def base_def mem_view_def)

lemma elemPrefix_key: "elemPrefix s ns coll = scope_key s ns coll scopeElem []"
  by (simp add: scope_key_def sub_key_def elemPrefix_def collScope_def dataSpace_def appendChunk_chunk)

lemma elem_rows_length:
  assumes "sorted_wrt (<) (map fst rs)" "set rs = {(k, v). base s k = Some v \<and> prefix (elemPrefix s ns coll) k}"
  shows "length rs = card (elems (coll_rows s ns coll))"
proof -
  let ?k = "scope_key s ns coll scopeElem"
  have "distinct (map fst rs)" using assms(1) by (simp only: strict_sorted_iff)
  then have "length rs = card (fst ` set rs)" by (metis distinct_card length_map list.set_map)
  also have "fst ` set rs = ?k ` elems (coll_rows s ns coll)"
    unfolding assms(2) by (auto simp: elems_def coll_rows_def rows_of_def elemPrefix_key scope_key_def sub_key_def prefix_def image_iff)
  also have "card \<dots> = card (elems (coll_rows s ns coll))"
    by (intro card_image) (simp add: inj_on_def scope_key_def sub_key_def)
  finally show ?thesis .
qed

text \<open>C4: The maintained cardinality of a collection never drifts: on every shard reached by committed
  entries from an empty one, the consistency check reads the same number from the counter as from counting
  the elements.\<close>

theorem card_check_agrees:
  assumes "healthy s0" "base s0 = Map.empty" "shard_reach fl s0 s" "name_ok ns" "name_ok coll"
  shows "\<exists>n. Lookup s (cardCheckQuery ns coll) = Inr (CardCheck (of_nat n) (of_nat n)) \<and>
    n = card {x. base s (elemKey s ns coll x) \<noteq> None}"
proof -
  have s: "shard_inv s" using shard_reach_inv [OF assms(3) shard_inv_empty] assms(1,2) by simp
  then have h: "healthy s" "cards_ok s" by (simp_all add: shard_inv_def)
  let ?n = "card (elems (coll_rows s ns coll))"
  have "stored_card (coll_rows s ns coll) = of_nat ?n" using s assms(4,5) by (simp add: shard_inv_def)
  then have "snapCard s (cfs (sm_store s)) ns coll = Inr (of_nat ?n)"
    using cards_ok_len [OF h(2) assms(4,5)]
    by (auto simp: snapCard_def snap_get_base stored_card_def coll_rows_def rows_of_def key_simps split: option.splits)
  moreover obtain rs where rs: "snap_rows (cfs (sm_store s)) (elemPrefix s ns coll) (prefixEnd (elemPrefix s ns coll)) 0 = Inr rs"
    "sorted_wrt (<) (map fst rs)" "set rs = {(k, v). base s k = Some v \<and> prefix (elemPrefix s ns coll) k}"
    by (rule snap_rows_prefix [OF h(1)])
  moreover have "length rs = ?n" using elem_rows_length [OF rs(2,3)] .
  ultimately have "Lookup s (cardCheckQuery ns coll) = Inr (CardCheck (of_nat ?n) (of_nat ?n))"
    by (simp add: Lookup_snap [OF h(1)] lookup_snap_def Let_def)
  moreover have "elems (coll_rows s ns coll) = {x. base s (elemKey s ns coll x) \<noteq> None}"
    by (auto simp: elems_def coll_rows_def rows_of_def key_simps)
  ultimately show ?thesis by auto
qed

definition card_entry :: entry where
  "card_entry = \<lparr>e_Index = 1, e_Cmd = encodeCommand \<lparr>cmd_Op = opSAdd, cmd_NS = [1], cmd_Coll = [2], cmd_Idem = [],
     cmd_Items = [\<lparr>item_Key = [7], item_Val = [], item_Score = 0, item_ExpiryMs = 0\<rparr>]\<rparr>, e_Result = result 0 []\<rparr>"

lemma card_entry_small: "length (cfs (sm_store (snd (Update demo_float demo_shard [card_entry]))) CFReplData) = 4"
  by code_simp

lemma card_entry_no_migrate: "no_migrate card_entry"
  by code_simp

theorem card_check_agrees_witness:
  "\<exists>n. Lookup (snd (Update demo_float demo_shard [card_entry])) (cardCheckQuery [1] [2]) =
     Inr (CardCheck (of_nat n) (of_nat n))"
proof -
  let ?s = "snd (Update demo_float demo_shard [card_entry])"
  have "shard_reach demo_float demo_shard ?s"
    by (rule reach_update [OF reach_start]) (simp_all add: card_entry_no_migrate small_def card_entry_small)
  moreover have "base demo_shard = Map.empty" by (simp add: fun_eq_iff)
  ultimately show ?thesis
    using card_check_agrees [of demo_shard demo_float ?s "[1]" "[2]"] by (auto simp: name_ok_def)
qed

end
