(* ===== verification/Coll_Refine.thy ===== *)
theory Coll_Refine
  imports Coll_Card
begin

text \<open>
  An abstract specification of the collections of a shard, sets, hashes and sorted sets as HOL values and a
  command as a function on them, and the refinement: the element operations of
  \<open>src/internal/collections/statemachine.go\<close>, whole commands and whole updates implement it.
\<close>

section \<open>The abstract collections\<close>

datatype coll_value =
    NoValue
  | SetValue "bytes set"
  | HashValue "bytes \<Rightarrow> bytes option"
  | ZSetValue "bytes \<Rightarrow> float64 option"
  | OtherValue

definition empty_value :: "collType \<Rightarrow> coll_value" where
  "empty_value t = (if t = typeSet then SetValue {} else if t = typeHash then HashValue Map.empty
     else if t = typeZSet then ZSetValue Map.empty else if t = 0 then NoValue else OtherValue)"

text \<open>One item of a command, on the value of the collection; the number counts the change.\<close>

definition is_rem :: "opKind \<Rightarrow> bool" where
  "is_rem op \<longleftrightarrow> op = opSRem \<or> op = opHDel \<or> op = opZRem \<or> op = opRemove"

fun spec_item :: "opKind \<Rightarrow> item \<Rightarrow> coll_value \<Rightarrow> nat \<times> coll_value" where
  "spec_item op it (SetValue S) =
     (let x = item_Key it in
      if is_rem op then (if x \<in> S then 1 else 0, SetValue (S - {x}))
      else (if x \<in> S then 0 else 1, SetValue (insert x S)))"
| "spec_item op it (HashValue h) =
     (let x = item_Key it in
      if is_rem op then (if h x \<noteq> None then 1 else 0, HashValue (h(x := None)))
      else (if h x \<noteq> None then 0 else 1, HashValue (h(x \<mapsto> item_Val it))))"
| "spec_item op it (ZSetValue z) =
     (let x = item_Key it in
      if is_rem op then (if z x \<noteq> None then 1 else 0, ZSetValue (z(x := None)))
      else (if z x \<noteq> None then 0 else 1, ZSetValue (z(x \<mapsto> item_Score it))))"
| "spec_item op it v = (0, v)"

fun spec_items :: "opKind \<Rightarrow> item list \<Rightarrow> coll_value \<Rightarrow> nat \<times> coll_value" where
  "spec_items op [] v = (0, v)"
| "spec_items op (it # its) v =
     (let (n, v) = spec_item op it v; (m, v) = spec_items op its v in (n + m, v))"

fun value_type :: "coll_value \<Rightarrow> collType" where
  "value_type NoValue = 0"
| "value_type (SetValue S) = typeSet"
| "value_type (HashValue h) = typeHash"
| "value_type (ZSetValue z) = typeZSet"
| "value_type OtherValue = typeBudget"

text \<open>
  A whole command: the first use of a collection fixes its type, a command for another type answers
  \<open>wrongType\<close> and changes nothing, a remove works on a collection of any type.
\<close>

definition spec_command :: "coll_command \<Rightarrow> coll_value \<Rightarrow> propose_result \<times> coll_value" where
  "spec_command c v =
     (let t = typeForOp (cmd_Op c);
          w = (if v = NoValue then empty_value t else v) in
      if cmd_Op c \<noteq> opRemove \<and> value_type w \<noteq> t then (result 0 wrongType, w)
      else let (n, w) = spec_items (cmd_Op c) (cmd_Items c) w in (result (of_nat n) [], w))"

section \<open>The value of a collection's rows\<close>

definition value_of :: "(byte \<Rightarrow> bytes \<Rightarrow> bytes option) \<Rightarrow> coll_value" where
  "value_of r =
     (if row_type r = typeSet then SetValue (elems r)
      else if row_type r = typeHash then HashValue (r scopeElem)
      else if row_type r = typeZSet then ZSetValue (\<lambda>x. map_option Uint64 (r scopeZPtr x))
      else if row_type r = 0 then NoValue else OtherValue)"

definition val :: "coll_command \<Rightarrow> update_ctx \<Rightarrow> coll_value" where
  "val c u = value_of (c_rows (own c u))"

definition elem_op :: "opKind \<Rightarrow> bool" where
  "elem_op op \<longleftrightarrow> op \<in> {opSAdd, opSRem, opHSet, opHDel, opZAdd, opZRem, opRemove}"

text \<open>A step of the code returns \<open>n\<close>, gives the collection of \<open>c\<close> the value \<open>v\<close> and leaves the others alone.\<close>

definition runs :: "coll_command \<Rightarrow> update_ctx \<Rightarrow> 'a upd \<Rightarrow> 'a \<Rightarrow> coll_value \<Rightarrow> bool" where
  "runs c u r n v \<longleftrightarrow> (\<exists>u'. r = (Inr n, u') \<and> ctx_inv u' \<and> local c u u' \<and> ctype c u' = ctype c u \<and> val c u' = v)"

lemma runs_I:
  assumes "keeps c u (Inr n, u')" "local c u u'" "val c u' = v"
  shows "runs c u (Inr n, u') n v"
  using assms by (simp add: runs_def)

lemma local_trans: "local c u v \<Longrightarrow> local c v w \<Longrightarrow> local c u w"
  by (simp add: local_def)

lemma ttl_read:
  assumes "ctx_inv u" "cmd_ok c"
  obtains e where "ttlExpiryOf (u_s u) (cmd_NS c) (cmd_Coll c) x = Inr e"
proof -
  have "typed (base_rows u (cmd_NS c) (cmd_Coll c))" "healthy (u_s u)"
    using own_inv [OF assms] assms(1) by (simp_all add: coll_inv_def ctx_inv_def)
  then have "\<exists>e. ttlExpiryOf (u_s u) (cmd_NS c) (cmd_Coll c) x = Inr e"
    by (auto simp: typed_def ttlExpiryOf_def key_simps getData_base split: option.splits)
  then show thesis using that by blast
qed

lemma value_of_ttl [simp]: "value_of (r(scopeTTLPtr := f)) = value_of r"
  by (simp add: value_of_def elems_def row_type_def)

lemma runs_setTTL:
  assumes "ctx_inv u" "cmd_ok c" "ctype c u = typeSet"
  shows "runs c u (setTTL (cmd_NS c) (cmd_Coll c) x e u) () (val c u)"
proof -
  obtain old where old: "ttlExpiryOf (u_s u) (cmd_NS c) (cmd_Coll c) x = Inr old" by (rule ttl_read [OF assms(1,2)])
  then obtain u' where u': "setTTL (cmd_NS c) (cmd_Coll c) x e u = (Inr (), u')"
    by (simp add: setTTL_def on_read_def Let_def)
  have "local c u u'" "val c u' = val c u"
    using u' old assms(2) by (auto simp: setTTL_def on_read_def Let_def key_simps local_emit val_def
        own_def proj_simps split: option.splits)
  then show ?thesis using keeps_setTTL [OF assms, of x e] u' by (simp add: runs_I)
qed

lemma runs_clearTTL:
  assumes "ctx_inv u" "cmd_ok c"
  shows "runs c u (clearTTL (cmd_NS c) (cmd_Coll c) x u) () (val c u)"
proof -
  obtain old where old: "ttlExpiryOf (u_s u) (cmd_NS c) (cmd_Coll c) x = Inr old" by (rule ttl_read [OF assms])
  then obtain u' where u': "clearTTL (cmd_NS c) (cmd_Coll c) x u = (Inr (), u')"
    by (cases old) (simp_all add: clearTTL_def on_read_def Let_def)
  have "local c u u'" "val c u' = val c u"
    using u' old assms(2) by (auto simp: clearTTL_def on_read_def Let_def key_simps local_emit val_def
        own_def proj_simps split: option.splits)
  then show ?thesis using keeps_clearTTL [OF assms, of x] u' by (simp add: runs_I)
qed

text \<open>The operations, from the change they make to the rows of the collection.\<close>

lemma keeps_run:
  assumes "keeps c u r" "r = (Inr n, u')" "local c u u'" "val c u' = v"
  shows "runs c u r n v"
  using assms by (simp add: runs_def)

lemma runs_then:
  assumes "runs c v r a w" "local c u v" "ctype c v = ctype c u"
  shows "runs c u (on_ok r (\<lambda>_ w. (Inr n, w))) n w"
  using assms local_trans by (auto simp: runs_def on_ok_def)

lemma runs_sadd:
  assumes inv: "ctx_inv u" "cmd_ok c" "ctype c u = typeSet"
  shows "runs c u (apply_sadd c it u) (if item_Key it \<in> elems (c_rows (own c u)) then 0 else 1)
    (SetValue (insert (item_Key it) (elems (c_rows (own c u)))))"
proof -
  let ?x = "item_Key it" and ?S = "elems (c_rows (own c u))"
  define v where "v = (if ?x \<in> ?S then u
     else add_card (ctx_card c u) 1 (set_exists (ctx_elem c it u) True (emit_put (ctx_elem c it u) [] u)))"
  define n :: i64 where "n = (if ?x \<in> ?S then 0 else 1)"
  have r: "elemExists (ctx_elem c it u) u = Inr (?x \<in> ?S)"
    using read_elem [OF inv(1,2)] inv(3) by (simp add: elems_def)
  have l: "local c u v" using inv(2) by (simp add: v_def ctx_elem_def ctx_card_def key_simps local_emit)
  have o: "val c v = SetValue (insert ?x ?S)"
  proof (cases "?x \<in> ?S")
    case True
    then show ?thesis using inv(3) by (simp add: v_def val_def value_of_def ctype_def insert_absorb)
  next
    case False
    have "c_rows (own c v) = (c_rows (own c u))(scopeElem := (c_rows (own c u) scopeElem)(?x \<mapsto> []))"
      using False inv(2) by (simp add: v_def ctx_elem_def ctx_card_def own_simps del: fun_upd_apply proj_sel)
    then show ?thesis using inv(3) by (auto simp: val_def value_of_def ctype_def row_type_def elems_def)
  qed
  have a: "apply_sadd c it u = (if sint (item_ExpiryMs it) > 0
      then on_ok (setTTL (cmd_NS c) (cmd_Coll c) ?x (item_ExpiryMs it) v) (\<lambda>_ w. (Inr n, w)) else (Inr n, v))"
    using r by (simp add: apply_sadd_def on_read_def Let_def v_def n_def)
  have v: "ctx_inv v" "ctype c v = ctype c u"
    using inv step_set_put [OF inv _ refl, of it] by (simp_all add: v_def elems_def)
  show ?thesis unfolding a n_def [symmetric]
  proof (split if_split, intro conjI impI)
    assume "sint (item_ExpiryMs it) > 0"
    show "runs c u (on_ok (setTTL (cmd_NS c) (cmd_Coll c) ?x (item_ExpiryMs it) v) (\<lambda>_ w. (Inr n, w))) n
      (SetValue (insert ?x ?S))"
      using runs_then [OF runs_setTTL [OF v(1) inv(2)] l v(2)] v(2) inv(3) o by simp
  qed (use v l o in \<open>simp add: runs_def\<close>)
qed

lemma runs_remove_elem:
  assumes inv: "ctx_inv u" "cmd_ok c" "ctype c u = typeSet \<or> ctype c u = typeHash"
    and v: "w = (if ctype c u = typeSet then SetValue (elems (c_rows (own c u)) - {item_Key it})
                 else HashValue ((c_rows (own c u) scopeElem)(item_Key it := None)))"
  shows "runs c u (remove_elem c it u) (if item_Key it \<in> elems (c_rows (own c u)) then 1 else 0) w"
proof -
  let ?x = "item_Key it" and ?S = "elems (c_rows (own c u))"
  define v where "v = (if ?x \<in> ?S then add_card (ctx_card c u) (- 1) (set_vals (ctx_elem c it u) None
     (set_exists (ctx_elem c it u) False (emit_del (ctx_elem c it u) u))) else u)"
  define n :: i64 where "n = (if ?x \<in> ?S then 1 else 0)"
  have "ctype c u \<noteq> typeZSet" using inv(3) by auto
  then have a: "remove_elem c it u = on_ok (clearTTL (cmd_NS c) (cmd_Coll c) ?x v) (\<lambda>_ w. (Inr n, w))"
    using read_elem [OF inv(1,2), of it] by (simp add: remove_elem_def on_read_def Let_def v_def n_def elems_def)
  have l: "local c u v" using inv(2) by (simp add: v_def ctx_elem_def ctx_card_def key_simps local_emit)
  have rows: "c_rows (own c v) = (c_rows (own c u))(scopeElem := (c_rows (own c u) scopeElem)(?x := None))"
  proof (cases "?x \<in> ?S")
    case True
    then show ?thesis
      using inv(2) by (simp add: v_def ctx_elem_def ctx_card_def own_simps del: fun_upd_apply proj_sel)
  next
    case False
    then have "c_rows (own c u) scopeElem ?x = None" by (simp add: elems_def)
    then have "(c_rows (own c u) scopeElem)(?x := None) = c_rows (own c u) scopeElem" by (rule fun_upd_idem)
    then show ?thesis using False by (simp only: v_def if_False fun_upd_triv)
  qed
  have vi: "ctx_inv v" "ctype c v = ctype c u"
    using inv(1) step_remove [OF inv _ _ refl, of it True] by (simp_all add: v_def elems_def Let_def)
  have "val c v = w"
    using inv(3) rows by (auto simp: val_def value_of_def ctype_def row_type_def elems_def v)
  then show ?thesis
    using runs_then [OF runs_clearTTL [OF vi(1) inv(2)] l vi(2), of ?x n] unfolding a n_def [symmetric] by simp
qed

lemma runs_hset:
  assumes inv: "ctx_inv u" "cmd_ok c" "ctype c u = typeHash"
  shows "runs c u (apply_hset c it u) (if c_rows (own c u) scopeElem (item_Key it) \<noteq> None then 0 else 1)
    (HashValue ((c_rows (own c u) scopeElem)(item_Key it \<mapsto> item_Val it)))"
proof -
  let ?x = "item_Key it"
  define d where "d = set_vals (ctx_elem c it u) (Some (item_Val it))
    (set_exists (ctx_elem c it u) True (emit_put (ctx_elem c it u) (item_Val it) u))"
  define v where "v = (if c_rows (own c u) scopeElem ?x \<noteq> None then d else add_card (ctx_card c u) 1 d)"
  define n :: i64 where "n = (if c_rows (own c u) scopeElem ?x \<noteq> None then 0 else 1)"
  have "ctx_card c d = ctx_card c u" by (simp add: d_def ctx_card_def)
  then have a: "apply_hset c it u = (Inr n, v)"
    using read_elem [OF inv(1,2), of it] inv(3)
    by (simp add: apply_hset_def on_read_def Let_def v_def n_def d_def [symmetric])
  have l: "local c u v" using inv(2) by (simp add: v_def d_def ctx_elem_def ctx_card_def key_simps local_emit)
  have "c_rows (own c v) = (c_rows (own c u))(scopeElem := (c_rows (own c u) scopeElem)(?x \<mapsto> item_Val it))"
    using inv(2) by (simp add: v_def d_def ctx_elem_def ctx_card_def own_simps del: fun_upd_apply proj_sel)
  then have "val c v = HashValue ((c_rows (own c u) scopeElem)(?x \<mapsto> item_Val it))"
    using inv(3) by (simp add: val_def value_of_def ctype_def row_type_def)
  then show ?thesis using keeps_run [OF keeps_hset [OF inv, of it] a l] unfolding n_def [symmetric] by simp
qed

lemma runs_zadd:
  assumes inv: "ctx_inv u" "cmd_ok c" "ctype c u = typeZSet" and z: "val c u = ZSetValue z"
  shows "runs c u (apply_zadd c it u) (if z (item_Key it) \<noteq> None then 0 else 1) (ZSetValue (z(item_Key it \<mapsto> item_Score it)))"
proof -
  let ?x = "item_Key it"
  have z': "z = (\<lambda>x. map_option Uint64 (c_rows (own c u) scopeZPtr x))"
    using z inv(3) by (simp add: val_def value_of_def ctype_def)
  define n :: i64 where "n = (if z ?x \<noteq> None then 0 else 1)"
  define w where "w = (case z ?x of Some g \<Rightarrow> emit_del (zscoreKey (u_s u) (cmd_NS c) (cmd_Coll c) g ?x) u
                       | None \<Rightarrow> add_card (ctx_card c u) 1 u)"
  define v where "v = set_zscore (zptrKey (u_s u) (cmd_NS c) (cmd_Coll c) ?x) (Some (item_Score it))
       (emit_put (zptrKey (u_s u) (cmd_NS c) (cmd_Coll c) ?x) (bitsOf (item_Score it))
         (emit_put (zscoreKey (u_s u) (cmd_NS c) (cmd_Coll c) (item_Score it) ?x) [] w))"
  have "zScore (cmd_NS c) (cmd_Coll c) ?x u = Inr (z ?x)" using read_zscore [OF inv(1,2)] z' by simp
  then have a: "apply_zadd c it u = (Inr n, v)"
    by (cases "z ?x") (simp_all add: apply_zadd_def on_read_def Let_def v_def w_def n_def)
  have l: "local c u v"
    using inv(2) by (cases "z ?x") (simp_all add: v_def w_def ctx_card_def key_simps local_emit)
  have "c_rows (own c v) scopeZPtr = (c_rows (own c u) scopeZPtr)(?x \<mapsto> PutUint64 (item_Score it))"
    using inv(2) by (cases "z ?x") (simp_all add: v_def w_def ctx_card_def bitsOf_def own_simps fun_upd_same fun_upd_other del: fun_upd_apply proj_sel)
  moreover have "ctype c v = typeZSet" using keeps_zadd [OF inv, of it] a inv(3) by simp
  ultimately have "val c v = ZSetValue (z(?x \<mapsto> item_Score it))"
    by (auto simp: val_def value_of_def ctype_def z' fun_eq_iff)
  then show ?thesis using keeps_run [OF keeps_zadd [OF inv, of it] a l] unfolding n_def [symmetric] by simp
qed

lemma runs_remove_z:
  assumes inv: "ctx_inv u" "cmd_ok c" "ctype c u = typeZSet" and z: "val c u = ZSetValue z"
  shows "runs c u (remove_z c it u) (if z (item_Key it) \<noteq> None then 1 else 0) (ZSetValue (z(item_Key it := None)))"
proof -
  let ?x = "item_Key it"
  have z': "z = (\<lambda>x. map_option Uint64 (c_rows (own c u) scopeZPtr x))"
    using z inv(3) by (simp add: val_def value_of_def ctype_def)
  have zs: "zScore (cmd_NS c) (cmd_Coll c) ?x u = Inr (z ?x)" using read_zscore [OF inv(1,2)] z' by simp
  show ?thesis
  proof (cases "z ?x")
    case None
    then have "z(?x := None) = z" by (simp add: fun_upd_idem)
    then show ?thesis using None zs inv z by (simp add: remove_z_def on_read_def Let_def runs_def)
  next
    case (Some g)
    define v where "v = add_card (ctx_card c u) (- 1) (set_zscore (zptrKey (u_s u) (cmd_NS c) (cmd_Coll c) ?x) None
     (emit_del (zptrKey (u_s u) (cmd_NS c) (cmd_Coll c) ?x)
       (emit_del (zscoreKey (u_s u) (cmd_NS c) (cmd_Coll c) g ?x) u)))"
    have a: "remove_z c it u = (Inr 1, v)"
      using Some zs by (simp add: remove_z_def on_read_def Let_def v_def ctx_card_def)
    have l: "local c u v" using inv(2) by (simp add: v_def ctx_card_def key_simps local_emit)
    have "c_rows (own c v) scopeZPtr = (c_rows (own c u) scopeZPtr)(?x := None)"
      using inv(2) by (simp add: v_def ctx_card_def own_simps fun_upd_same fun_upd_other del: fun_upd_apply proj_sel)
    moreover have "ctype c v = typeZSet" using keeps_remove_z [OF inv, of it] a inv(3) by simp
    ultimately have "val c v = ZSetValue (z(?x := None))"
      by (auto simp: val_def value_of_def ctype_def z' fun_eq_iff)
    then show ?thesis using keeps_run [OF keeps_remove_z [OF inv, of it] a l] Some by simp
  qed
qed

lemma local_htype:
  "cmd_ok c \<Longrightarrow> local c u (u\<lparr>u_htype := (u_htype u)(collScope (u_s u) (cmd_NS c) (cmd_Coll c) \<mapsto> t)\<rparr>)"
  by (rule local_I) (auto simp: proj_simps)

lemma runs_typeOf:
  assumes inv: "ctx_inv u" "cmd_ok c"
  shows "runs c u (typeOf (cmd_NS c) (cmd_Coll c) u) (ctype c u) (val c u)"
proof -
  have h: "healthy (u_s u)" using inv(1) by (simp add: ctx_inv_def)
  have "\<exists>t v. typeOf (cmd_NS c) (cmd_Coll c) u = (Inr t, v)"
    using getData_base [OF h] by (simp add: typeOf_def Let_def split: option.split list.split)
  then obtain t v where tv: "typeOf (cmd_NS c) (cmd_Coll c) u = (Inr t, v)" by blast
  have "local c u v" "val c v = val c u"
    using tv h inv(2) by (auto simp: typeOf_def Let_def key_simps getData_base val_def own_def proj_simps local_htype
        split: option.splits list.splits)
  then show ?thesis using read_type [OF inv tv] tv by (simp add: runs_def)
qed

lemma val_type: "ctype c u = typeSet \<Longrightarrow> val c u = SetValue (elems (c_rows (own c u)))"
  "ctype c u = typeHash \<Longrightarrow> val c u = HashValue (c_rows (own c u) scopeElem)"
  "ctype c u = typeZSet \<Longrightarrow> val c u = ZSetValue (\<lambda>x. map_option Uint64 (c_rows (own c u) scopeZPtr x))"
  by (simp_all add: val_def value_of_def ctype_def)

lemma runs_trans:
  assumes "runs c u r a w" "\<And>v. ctx_inv v \<Longrightarrow> ctype c v = ctype c u \<Longrightarrow> val c v = w \<Longrightarrow> runs c v (f a v) b w'"
  shows "runs c u (on_ok r f) b w'"
proof -
  obtain v where v: "r = (Inr a, v)" "ctx_inv v" "local c u v" "ctype c v = ctype c u" "val c v = w"
    using assms(1) by (auto simp: runs_def)
  then obtain u' where "f a v = (Inr b, u')" "ctx_inv u'" "local c v u'" "ctype c u' = ctype c v" "val c u' = w'"
    using assms(2) by (auto simp: runs_def)
  then show ?thesis using v local_trans by (auto simp: runs_def on_ok_def)
qed

lemma runs_rem:
  assumes inv: "ctx_inv u" "cmd_ok c" and op: "is_rem op"
  shows "ctype c u = typeSet \<or> ctype c u = typeHash \<Longrightarrow>
      runs c u (remove_elem c it u) (of_nat (fst (spec_item op it (val c u)))) (snd (spec_item op it (val c u)))"
    "ctype c u = typeZSet \<Longrightarrow>
      runs c u (remove_z c it u) (of_nat (fst (spec_item op it (val c u)))) (snd (spec_item op it (val c u)))"
proof -
  assume t: "ctype c u = typeSet \<or> ctype c u = typeHash"
  show "runs c u (remove_elem c it u) (of_nat (fst (spec_item op it (val c u)))) (snd (spec_item op it (val c u)))"
    using runs_remove_elem [OF inv t refl, of it] t op
    by (auto simp: val_type Let_def elems_def split: if_splits)
next
  assume t: "ctype c u = typeZSet"
  show "runs c u (remove_z c it u) (of_nat (fst (spec_item op it (val c u)))) (snd (spec_item op it (val c u)))"
    using runs_remove_z [OF inv t val_type(3) [OF t], of it] op by (auto simp: val_type(3) [OF t] Let_def split: if_splits)
qed

lemma value_none: "ctype c u \<notin> {typeSet, typeHash, typeZSet} \<Longrightarrow> spec_item op it (val c u) = (0, val c u)"
  by (auto simp: val_def value_of_def ctype_def)

lemma runs_remove:
  assumes inv: "ctx_inv u" "cmd_ok c"
  shows "runs c u (apply_remove c it u) (of_nat (fst (spec_item opRemove it (val c u)))) (snd (spec_item opRemove it (val c u)))"
  unfolding apply_remove_def
proof (rule runs_trans [OF runs_typeOf [OF inv]])
  fix v assume v: "ctx_inv v" "ctype c v = ctype c u" "val c v = val c u"
  have rem: "is_rem opRemove" by (simp add: is_rem_def)
  have "runs c v (if ctype c v = typeSet \<or> ctype c v = typeHash then remove_elem c it v
      else if ctype c v = typeZSet then remove_z c it v else (Inr 0, v))
     (of_nat (fst (spec_item opRemove it (val c v)))) (snd (spec_item opRemove it (val c v)))"
    using runs_rem [OF v(1) inv(2) rem, of it] value_none [of c v opRemove it] v(1) by (auto simp: runs_def)
  then show "runs c v (if ctype c u = typeSet \<or> ctype c u = typeHash then remove_elem c it v
      else if ctype c u = typeZSet then remove_z c it v else (Inr 0, v))
     (of_nat (fst (spec_item opRemove it (val c u)))) (snd (spec_item opRemove it (val c u)))"
    by (simp only: v(2,3))
qed

lemma elem_op_types:
  "typeForOp opSAdd = typeSet" "typeForOp opSRem = typeSet" "typeForOp opHSet = typeHash"
  "typeForOp opHDel = typeHash" "typeForOp opZAdd = typeZSet" "typeForOp opZRem = typeZSet"
  "\<not> is_rem opSAdd" "\<not> is_rem opHSet" "\<not> is_rem opZAdd"
  by (simp_all add: typeForOp_def op_defs is_rem_def)

lemma runs_item:
  assumes inv: "ctx_inv u" "cmd_ok c" and op: "elem_op (cmd_Op c)"
    and t: "cmd_Op c \<noteq> opRemove \<Longrightarrow> ctype c u = typeForOp (cmd_Op c)"
  shows "runs c u (apply_item c it u) (of_nat (fst (spec_item (cmd_Op c) it (val c u))))
    (snd (spec_item (cmd_Op c) it (val c u)))"
proof -
  have neq: "opSAdd \<noteq> opRemove" "opSRem \<noteq> opRemove" "opHSet \<noteq> opRemove" "opHDel \<noteq> opRemove" "opZAdd \<noteq> opRemove"
    "opZRem \<noteq> opRemove" by (simp_all add: op_defs)
  have rem: "is_rem opSRem" "is_rem opHDel" "is_rem opZRem" by (simp_all add: is_rem_def)
  have ops: "apply_item c it u = (if cmd_Op c = opSAdd then apply_sadd c it u
      else if cmd_Op c = opSRem \<or> cmd_Op c = opHDel then remove_elem c it u
      else if cmd_Op c = opHSet then apply_hset c it u else if cmd_Op c = opZAdd then apply_zadd c it u
      else if cmd_Op c = opZRem then remove_z c it u else apply_remove c it u)"
    using op by (auto simp: apply_item_def Let_def elem_op_def op_defs)
  consider "cmd_Op c = opSAdd" | "cmd_Op c = opSRem" | "cmd_Op c = opHDel" | "cmd_Op c = opHSet" | "cmd_Op c = opZAdd"
    | "cmd_Op c = opZRem" | "cmd_Op c = opRemove" using op by (auto simp: elem_op_def)
  then show ?thesis
  proof cases
    case 1
    then have "ctype c u = typeSet" using t neq elem_op_types by simp
    then show ?thesis using 1 ops runs_sadd [OF inv, of it] elem_op_types by (auto simp: val_type Let_def split: if_splits)
  next
    case 2
    then have "ctype c u = typeSet" using t neq elem_op_types by simp
    then show ?thesis using 2 ops runs_rem(1) [OF inv rem(1)] by (simp add: op_defs)
  next
    case 3
    then have "ctype c u = typeHash" using t neq elem_op_types by simp
    then show ?thesis using 3 ops runs_rem(1) [OF inv rem(2)] by (simp add: op_defs)
  next
    case 4
    then have "ctype c u = typeHash" using t neq elem_op_types by simp
    then show ?thesis using 4 ops runs_hset [OF inv, of it] elem_op_types
      by (auto simp: val_type Let_def op_defs split: if_splits)
  next
    case 5
    then have z: "ctype c u = typeZSet" using t neq elem_op_types by simp
    show ?thesis using 5 z ops runs_zadd [OF inv z val_type(3) [OF z], of it] elem_op_types
      by (auto simp: val_type Let_def op_defs split: if_splits)
  next
    case 6
    then have "ctype c u = typeZSet" using t neq elem_op_types by simp
    then show ?thesis using 6 ops runs_rem(2) [OF inv rem(3)] by (simp add: op_defs)
  next
    case 7
    then show ?thesis using ops runs_remove [OF inv, of it] by (simp add: op_defs)
  qed
qed

lemma runs_items:
  assumes "ctx_inv u" "cmd_ok c" "elem_op (cmd_Op c)" "cmd_Op c \<noteq> opRemove \<Longrightarrow> ctype c u = typeForOp (cmd_Op c)"
  shows "runs c u (apply_items c n its u) (n + of_nat (fst (spec_items (cmd_Op c) its (val c u))))
    (snd (spec_items (cmd_Op c) its (val c u)))"
  using assms
proof (induction its arbitrary: n u)
  case Nil
  then show ?case by (simp add: runs_def)
next
  case (Cons it its)
  obtain d v where sp: "spec_item (cmd_Op c) it (val c u) = (d, v)" by fastforce
  obtain m w where sp': "spec_items (cmd_Op c) its v = (m, w)" by fastforce
  have "runs c u (on_ok (apply_item c it u) (\<lambda>d u. apply_items c (n + d) its u)) (n + of_nat (d + m)) w"
  proof (rule runs_trans)
    show "runs c u (apply_item c it u) (of_nat d) v" using runs_item [OF Cons.prems, of it] sp by simp
    fix x assume x: "ctx_inv x" "ctype c x = ctype c u" "val c x = v"
    then show "runs c x (apply_items c (n + of_nat d) its x) (n + of_nat (d + m)) w"
      using Cons.IH [of x "n + of_nat d"] Cons.prems sp' by (simp add: add.assoc)
  qed
  then show ?case using sp sp' by simp
qed

section \<open>Whole commands\<close>

definition yields :: "coll_command \<Rightarrow> update_ctx \<Rightarrow> 'a upd \<Rightarrow> 'a \<Rightarrow> coll_value \<Rightarrow> bool" where
  "yields c u r a v \<longleftrightarrow> (\<exists>u'. r = (Inr a, u') \<and> ctx_inv u' \<and> local c u u' \<and> val c u' = v)"

lemma runs_yields: "runs c u r a v \<Longrightarrow> yields c u r a v"
  by (auto simp: runs_def yields_def)

lemma yields_Inr: "ctx_inv u \<Longrightarrow> yields c u (Inr a, u) a (val c u)"
  by (simp add: yields_def)

lemma yields_on_ok:
  assumes "yields c u r a w" "\<And>v. r = (Inr a, v) \<Longrightarrow> ctx_inv v \<Longrightarrow> val c v = w \<Longrightarrow> yields c v (f a v) b w'"
  shows "yields c u (on_ok r f) b w'"
proof -
  obtain v where v: "r = (Inr a, v)" "ctx_inv v" "local c u v" "val c v = w"
    using assms(1) by (auto simp: yields_def)
  then show ?thesis using assms(2) [OF v(1,2,4)] local_trans by (auto simp: yields_def on_ok_def)
qed

definition opened :: "collType \<Rightarrow> coll_value \<Rightarrow> coll_value" where
  "opened t v = (if v = NoValue then empty_value t else v)"

lemma val_NoValue: "val c u = NoValue \<longleftrightarrow> ctype c u = 0"
  by (simp add: val_def value_of_def ctype_def type_defs)

lemma value_type_val: "want \<in> {typeSet, typeHash, typeZSet} \<Longrightarrow> value_type (val c u) = want \<longleftrightarrow> ctype c u = want"
  by (auto simp: val_def value_of_def ctype_def type_defs)

lemma value_of_new:
  assumes "m scopeElem = Map.empty" "m scopeZPtr = Map.empty" "want \<in> {typeSet, typeHash, typeZSet}"
  shows "value_of (m(scopeType := (m scopeType)([] \<mapsto> [want]))) = empty_value want"
  using assms by (auto simp: value_of_def row_type_def empty_value_def elems_def)

lemma yields_ensureType:
  assumes inv: "ctx_inv u" "cmd_ok c" and want: "want \<in> {typeSet, typeHash, typeZSet}"
  shows "yields c u (ensureType (cmd_NS c) (cmd_Coll c) want u) (value_type (opened want (val c u)) = want) (opened want (val c u))"
proof -
  let ?cs = "collScope (u_s u) (cmd_NS c) (cmd_Coll c)"
  let ?k = "scope_key (u_s u) (cmd_NS c) (cmd_Coll c) scopeType []"
  have h: "healthy (u_s u)" using inv(1) by (simp add: ctx_inv_def)
  have ci: "typed (base_rows u (cmd_NS c) (cmd_Coll c))" "typed (c_rows (own c u))"
    "coh_type (base_rows u (cmd_NS c) (cmd_Coll c)) (own c u)"
    using own_inv [OF inv] by (simp_all add: coll_inv_def coherent_def)
  have w0: "want \<noteq> 0" using want by (auto simp: type_defs)
  consider (cached) t where "u_htype u ?cs = Some t" | (stored) t x where "u_htype u ?cs = None" "base (u_s u) ?k = Some (t # x)"
    | (new) "u_htype u ?cs = None" "base (u_s u) ?k = None \<or> base (u_s u) ?k = Some []"
    by (metis neq_Nil_conv option.exhaust)
  then show ?thesis
  proof cases
    case cached
    then have "t = ctype c u" "t \<noteq> 0" using ci(3) unfolding coh_type_def own_def ctype_def by auto
    then have "opened want (val c u) = val c u" "(t = want) = (value_type (val c u) = want)"
      using val_NoValue value_type_val [OF want] by (auto simp: opened_def)
    then show ?thesis using cached inv(1) yields_Inr [OF inv(1), of c "t = want"]
      by (simp add: ensureType_def Let_def)
  next
    case (stored t x)
    then have "t = ctype c u" "t \<noteq> 0"
      using ci by (simp_all add: coh_type_def ctype_def own_def row_type_def typed_def)
    then have o: "opened want (val c u) = val c u" "(t = want) = (value_type (val c u) = want)"
      using val_NoValue value_type_val [OF want] by (auto simp: opened_def)
    let ?v = "u\<lparr>u_htype := (u_htype u)(?cs \<mapsto> t)\<rparr>"
    have "ctx_inv ?v" "local c u ?v" "val c ?v = val c u"
      using ctx_inv_htype [OF inv \<open>t = ctype c u\<close> \<open>t \<noteq> 0\<close>] local_htype [OF inv(2)] inv(2)
      by (simp_all add: val_def own_def proj_simps)
    then show ?thesis using stored h o by (simp add: ensureType_def Let_def key_simps getData_base yields_def)
  next
    case new
    let ?v = "emit_put ?k [want] u"
    let ?w = "?v\<lparr>u_htype := (u_htype ?v)(collScope (u_s ?v) (cmd_NS c) (cmd_Coll c) \<mapsto> want)\<rparr>"
    have e: "ensureType (cmd_NS c) (cmd_Coll c) want u = (Inr True, ?w)"
      using new h by (auto simp: ensureType_def Let_def key_simps getData_base)
    have t: "ctype c u = 0" using new ci(3) by (auto simp: coh_type_def ctype_def own_def row_type_def)
    have l: "local c u ?w" by (rule local_I [OF inv(2)]) (auto simp: proj_simps)
    have r: "c_rows (own c ?w) = (c_rows (own c u))(scopeType := (c_rows (own c u) scopeType)([] \<mapsto> [want]))"
      using inv(2) by (simp add: own_def proj_simps set_row_def del: fun_upd_apply proj_sel)
    have none: "c_rows (own c u) scopeElem = Map.empty" "c_rows (own c u) scopeZPtr = Map.empty"
      using ci(2) t want by (fastforce simp: typed_def ctype_def elems_def fun_eq_iff type_defs)+
    have "val c ?w = empty_value want"
      unfolding val_def r by (rule value_of_new [OF none want])
    moreover have "value_type (empty_value want) = want" using want by (auto simp: empty_value_def)
    ultimately show ?thesis
      using e l ensure_type [OF inv e w0] t val_NoValue [of c u] by (simp add: opened_def yields_def)
  qed
qed

lemma elem_op_type: "elem_op op \<Longrightarrow> op \<noteq> opRemove \<Longrightarrow> typeForOp op \<in> {typeSet, typeHash, typeZSet}"
  using elem_op_types by (auto simp: elem_op_def)

lemma elem_op_not:
  "elem_op op \<Longrightarrow> op \<noteq> opHIncrBy \<and> op \<noteq> opHIncrByFloat \<and> op \<noteq> opExpire \<and> \<not> is_budget_op op \<and> typeForOp op \<noteq> typeBudget \<and> mutates op"
  by (auto simp: elem_op_def is_budget_op_def op_defs typeForOp_def type_defs mutates_def)

lemma spec_command_opened:
  "spec_command c v = (let w = opened (typeForOp (cmd_Op c)) v in
     if cmd_Op c \<noteq> opRemove \<and> value_type w \<noteq> typeForOp (cmd_Op c) then (result 0 wrongType, w)
     else let (n, w) = spec_items (cmd_Op c) (cmd_Items c) w in (result (of_nat n) [], w))"
  by (simp add: spec_command_def opened_def Let_def)

lemma yields_command:
  assumes inv: "ctx_inv u" "cmd_ok c" "elem_op (cmd_Op c)" "cmd_Op c \<noteq> opRemove \<Longrightarrow> ctype c u = typeForOp (cmd_Op c)"
  shows "yields c u (on_ok (applyCommand c u) (\<lambda>n u. (Inr (result n []), u)))
    (result (of_nat (fst (spec_items (cmd_Op c) (cmd_Items c) (val c u)))) [])
    (snd (spec_items (cmd_Op c) (cmd_Items c) (val c u)))"
  using runs_yields [OF runs_items [OF inv, of 0 "cmd_Items c"]] unfolding applyCommand_def
  by (rule yields_on_ok) (auto simp: yields_def)

lemma yields_fresh:
  assumes inv: "ctx_inv u" "cmd_ok c" and op: "elem_op (cmd_Op c)"
  shows "yields c u (apply_fresh fl False c u) (fst (spec_command c (val c u))) (snd (spec_command c (val c u)))"
proof (cases "cmd_Op c = opRemove")
  case True
  have "opened (typeForOp opRemove) (val c u) = val c u"
    using typeForOp_untyped by (simp add: opened_def empty_value_def type_defs)
  then show ?thesis
    using yields_command [OF inv op] elem_op_not [OF op] True
    by (simp add: apply_fresh_def spec_command_opened Let_def on_ok_def [of "(Inr True, u)"] split_beta)
next
  case False
  let ?t = "typeForOp (cmd_Op c)" and ?w = "opened (typeForOp (cmd_Op c)) (val c u)"
  note t = elem_op_type [OF op False]
  have a: "apply_fresh fl False c u = on_ok (ensureType (cmd_NS c) (cmd_Coll c) ?t u) (\<lambda>ok u.
      if \<not> ok then (Inr (result 0 wrongType), u) else on_ok (applyCommand c u) (\<lambda>n u. (Inr (result n []), u)))"
    using elem_op_not [OF op] False by (simp add: apply_fresh_def cong: if_cong)
  show ?thesis unfolding a
  proof (rule yields_on_ok [OF yields_ensureType [OF inv t]])
    fix v assume v: "ctx_inv v" "val c v = ?w"
    show "yields c v (if \<not> (value_type ?w = ?t) then (Inr (result 0 wrongType), v)
        else on_ok (applyCommand c v) (\<lambda>n u. (Inr (result n []), u)))
      (fst (spec_command c (val c u))) (snd (spec_command c (val c u)))"
    proof (cases "value_type ?w = ?t")
      case True
      then have "ctype c v = ?t" using v(2) value_type_val [OF t, of c v] by simp
      then show ?thesis
        using yields_command [OF v(1) inv(2) op] True v(2) by (simp add: spec_command_opened Let_def split_beta)
    next
      case F: False
      then show ?thesis using yields_Inr [OF v(1), of c] v(2) False by (simp add: spec_command_opened Let_def)
    qed
  qed
qed

section \<open>Shards as a map of collections\<close>

type_synonym coll_map = "bytes \<Rightarrow> bytes \<Rightarrow> coll_value"

definition abs_shard :: "base_sm \<Rightarrow> coll_map" where
  "abs_shard s ns coll = (if name_ok ns \<and> name_ok coll then value_of (coll_rows s ns coll) else NoValue)"

definition abs_ctx :: "update_ctx \<Rightarrow> coll_map" where
  "abs_ctx u ns coll = (if name_ok ns \<and> name_ok coll then value_of (c_rows (proj u ns coll)) else NoValue)"

fun spec_run :: "coll_command list \<Rightarrow> coll_map \<Rightarrow> propose_result list \<times> coll_map" where
  "spec_run [] A = ([], A)"
| "spec_run (c # cs) A =
     (let (r, v) = spec_command c (A (cmd_NS c) (cmd_Coll c));
          (rs, A) = spec_run cs (A(cmd_NS c := (A (cmd_NS c))(cmd_Coll c := v))) in (r # rs, A))"

text \<open>An entry that carries one element command without an idempotency key.\<close>

definition plain :: "entry \<Rightarrow> coll_command \<Rightarrow> bool" where
  "plain e c \<longleftrightarrow> decodeCommandInto (e_Cmd e) = Inr c \<and> elem_op (cmd_Op c) \<and> cmd_Idem c = []"

lemma plain_hd:
  assumes "plain e c"
  shows "e_Cmd e \<noteq> []" "hd (e_Cmd e) = cmd_Op c" "cmd_ok c"
proof -
  have d: "decodeCommandInto (e_Cmd e) = Inr c" using assms by (simp add: plain_def)
  then show "cmd_ok c" by (rule decode_cmd_ok)
  show "e_Cmd e \<noteq> []" "hd (e_Cmd e) = cmd_Op c"
    using d by (auto simp: decodeCommandInto_def split: list.splits if_splits sum.splits prod.splits)
qed

lemma elem_op_plain:
  "elem_op op \<Longrightarrow> op \<noteq> opIngest \<and> op \<noteq> opPurge \<and> op \<noteq> opFreeze \<and> op \<noteq> opUnfreeze \<and> op \<noteq> opBatch"
  by (auto simp: elem_op_def op_defs)

lemma plain_no_migrate: "plain e c \<Longrightarrow> no_migrate e"
  using plain_hd elem_op_plain by (auto simp: no_migrate_def plain_def)

lemma yields_abs:
  assumes "yields c u r a v" "cmd_ok c"
  obtains u' where "r = (Inr a, u')" "ctx_inv u'" "abs_ctx u' = (abs_ctx u)(cmd_NS c := (abs_ctx u (cmd_NS c))(cmd_Coll c := v))"
proof -
  obtain u' where u': "r = (Inr a, u')" "ctx_inv u'" "local c u u'" "val c u' = v" using assms(1) by (auto simp: yields_def)
  have "abs_ctx u' ns coll = ((abs_ctx u)(cmd_NS c := (abs_ctx u (cmd_NS c))(cmd_Coll c := v))) ns coll" for ns coll
    using u'(3,4) assms(2) by (auto simp: abs_ctx_def local_def val_def own_def cmd_ok_def)
  then show thesis using that [OF u'(1,2)] by blast
qed

lemma plain_entry:
  assumes "ctx_inv u" "plain e c" "spec_command c (abs_ctx u (cmd_NS c) (cmd_Coll c)) = (r, v)"
  obtains u' where "applyEntrySafe fl [] e u = (Inr r, u')" "ctx_inv u'"
    "abs_ctx u' = (abs_ctx u)(cmd_NS c := (abs_ctx u (cmd_NS c))(cmd_Coll c := v))"
proof -
  note p = plain_hd [OF assms(2)]
  have op: "elem_op (cmd_Op c)" "cmd_Idem c = []" "decodeCommandInto (e_Cmd e) = Inr c"
    using assms(2) by (simp_all add: plain_def)
  have "val c u = abs_ctx u (cmd_NS c) (cmd_Coll c)" using p(3) by (simp add: val_def own_def abs_ctx_def cmd_ok_def)
  then have y: "yields c u (apply_fresh fl False c u) r v" using yields_fresh [OF assms(1) p(3) op(1), of fl] assms(3) by simp
  obtain u' where u': "apply_fresh fl False c u = (Inr r, u')" "ctx_inv u'"
    "abs_ctx u' = (abs_ctx u)(cmd_NS c := (abs_ctx u (cmd_NS c))(cmd_Coll c := v))"
    by (rule yields_abs [OF y p(3)])
  have "applyOne fl [] (e_Cmd e) u = (Inr r, u')" using op u'(1) by (simp add: applyOne_def on_read_def Let_def)
  then have "applyEntrySafe fl [] e u = (Inr r, u')"
    using p elem_op_plain [OF op(1)] by (simp add: applyEntrySafe_def applyEntry_def wrap_upd_def Let_def)
  then show thesis using that u'(2,3) by blast
qed

lemma plain_entries:
  assumes "list_all2 plain entries cs" "ctx_inv u" "spec_run cs (abs_ctx u) = (rs, A)"
  shows "\<exists>es u'. apply_entries fl [] entries u = (Inr es, u') \<and> map e_Result es = rs \<and> abs_ctx u' = A"
  using assms
proof (induction entries cs arbitrary: u rs A rule: list_all2_induct)
  case Nil
  then show ?case by simp
next
  case (Cons e entries c cs)
  obtain r v where rv: "spec_command c (abs_ctx u (cmd_NS c) (cmd_Coll c)) = (r, v)" by fastforce
  obtain u' where u': "applyEntrySafe fl [] e u = (Inr r, u')" "ctx_inv u'"
    "abs_ctx u' = (abs_ctx u)(cmd_NS c := (abs_ctx u (cmd_NS c))(cmd_Coll c := v))"
    by (rule plain_entry [OF Cons.prems(1) Cons.hyps(1) rv])
  obtain rs' where rs': "spec_run cs (abs_ctx u') = (rs', A)" "rs = r # rs'"
    using Cons.prems(2) rv u'(3) by (auto simp: Let_def split: prod.splits)
  then show ?case using Cons.IH [OF u'(2) rs'(1)] u'(1) by (auto simp: on_ok_def)
qed

lemma value_of_cong:
  "(\<And>sc x. sc \<noteq> scopeCard \<Longrightarrow> r sc x = r' sc x) \<Longrightarrow> value_of r = value_of r'"
proof -
  assume "\<And>sc x. sc \<noteq> scopeCard \<Longrightarrow> r sc x = r' sc x"
  then have "r scopeElem = r' scopeElem" "r scopeZPtr = r' scopeZPtr" "r scopeType = r' scopeType" by (auto simp: fun_eq_iff)
  then show ?thesis by (simp add: value_of_def elems_def row_type_def)
qed

lemma Update_spec:
  assumes "shard_inv s" "loadFrozen s = Inr []" "list_all2 plain entries cs"
  shows "\<exists>es s'. Update fl s entries = (Inr es, s') \<and>
    (map e_Result es, abs_shard s') = spec_run cs (abs_shard s)"
proof (cases "entries = []")
  case True
  then show ?thesis using assms(3) by (simp add: Update_def)
next
  case ne: False
  let ?s = "snd (Update fl s entries)"
  have nm: "list_all no_migrate entries"
    using assms(3) plain_no_migrate by (auto simp: list_all2_conv_all_nth list_all_length)
  obtain seq es u where run: "apply_entries fl [] entries (new_ctx s seq) = (Inr es, u)"
    and res: "fst (Update fl s entries) = Inr es"
    and rows: "\<And>ns coll sc x. name_ok ns \<Longrightarrow> name_ok coll \<Longrightarrow> sc \<noteq> scopeCard \<Longrightarrow>
        coll_rows ?s ns coll sc x = c_rows (proj u ns coll) sc x"
    by (rule Update_rows [OF assms(1) ne nm refl, of fl]) (use assms(2) in auto)
  have a0: "abs_ctx (new_ctx s seq) = abs_shard s"
    by (simp add: fun_eq_iff abs_ctx_def abs_shard_def coll_rows_def proj_def)
  have a1: "abs_ctx u = abs_shard ?s"
    using rows by (auto simp: fun_eq_iff abs_ctx_def abs_shard_def intro!: value_of_cong)
  obtain rs A where sp: "spec_run cs (abs_shard s) = (rs, A)" by fastforce
  from plain_entries [OF assms(3) shard_inv_ctx [OF assms(1), of seq] sp [folded a0], of fl]
  have "map e_Result es = rs" "abs_ctx u = A" using run by simp_all
  then show ?thesis using res sp a1 by (cases "Update fl s entries") simp
qed

text \<open>C1: The shard refines the abstract collections: on a shard that keeps its invariant and has no frozen range,
  committing element commands on sets, hashes and sorted sets answers what the abstract commands answer and leaves
  exactly the values they leave, for every collection of the shard.\<close>

theorem Update_refines:
  assumes "shard_inv s" "loadFrozen s = Inr []" "list_all2 plain entries cs"
  shows "\<exists>es s'. Update fl s entries = (Inr es, s') \<and>
    (map e_Result es, abs_shard s') = spec_run cs (abs_shard s)"
  by (rule Update_spec [OF assms])

definition card_command :: coll_command where
  "card_command = \<lparr>cmd_Op = opSAdd, cmd_NS = [1], cmd_Coll = [2], cmd_Idem = [],
     cmd_Items = [\<lparr>item_Key = [7], item_Val = [], item_Score = 0, item_ExpiryMs = 0\<rparr>]\<rparr>"

lemma card_command_plain: "plain card_entry card_command"
  by code_simp

lemma demo_shard_not_frozen: "loadFrozen demo_shard = Inr []"
  by code_simp

lemma demo_shard_inv: "shard_inv demo_shard"
  by (rule shard_inv_empty) (simp_all add: fun_eq_iff)

lemma demo_shard_abs: "abs_shard demo_shard ns coll = NoValue"
  by (simp add: abs_shard_def coll_rows_def rows_of_def value_of_def row_type_def type_defs)

theorem Update_refines_witness:
  "\<exists>es s'. Update demo_float demo_shard [card_entry] = (Inr es, s') \<and> map e_Result es = [result 1 []] \<and>
     abs_shard s' [1] [2] = SetValue {[7]}"
proof -
  obtain es s' where u: "Update demo_float demo_shard [card_entry] = (Inr es, s')"
    "(map e_Result es, abs_shard s') = spec_run [card_command] (abs_shard demo_shard)"
    using Update_refines [OF demo_shard_inv demo_shard_not_frozen, of "[card_entry]" "[card_command]" demo_float]
      card_command_plain by auto
  have "spec_command card_command NoValue = (result 1 [], SetValue {[7]})"
    by (simp add: card_command_def spec_command_def empty_value_def elem_op_types Let_def)
  moreover have "cmd_NS card_command = [1]" "cmd_Coll card_command = [2]" by (simp_all add: card_command_def)
  ultimately show ?thesis using u by (simp add: demo_shard_abs)
qed

end
