(* ===== verification/Coll_Reads.thy ===== *)
theory Coll_Reads
  imports Coll_Refine
begin

text \<open>
  The reads of the collections of a shard, \<open>Lookup\<close> of \<open>src/internal/collections/statemachine.go\<close>: they
  return the abstract value of the collection, members and fields in byte order, sorted sets in score order.
\<close>

section \<open>Reads\<close>

lemma elem_row: "coll_rows s ns coll scopeElem x = base s (elemPrefix s ns coll @ x)"
  by (simp add: coll_rows_def rows_of_def elemPrefix_key scope_key_def sub_key_def)

lemma elem_rows:
  assumes "healthy s"
  obtains ks where "snap_rows (cfs (sm_store s)) (elemPrefix s ns coll) (prefixEnd (elemPrefix s ns coll)) 0 =
      Inr (map (\<lambda>x. (elemPrefix s ns coll @ x, the (coll_rows s ns coll scopeElem x))) ks)"
    "sorted_wrt (<) ks" "set ks = elems (coll_rows s ns coll)"
proof (rule prefix_rows [OF assms, of "elemPrefix s ns coll"])
  fix ks
  assume "snap_rows (cfs (sm_store s)) (elemPrefix s ns coll) (prefixEnd (elemPrefix s ns coll)) 0 =
      Inr (map (\<lambda>x. (elemPrefix s ns coll @ x, the (base s (elemPrefix s ns coll @ x)))) ks)"
    "sorted_wrt (<) ks" "set ks = {x. base s (elemPrefix s ns coll @ x) \<noteq> None}"
  then show thesis using that by (simp add: elem_row elems_def)
qed

lemma abs_shard_value:
  assumes "name_ok ns" "name_ok coll"
  shows "abs_shard s ns coll = SetValue S \<Longrightarrow> S = elems (coll_rows s ns coll)"
    "abs_shard s ns coll = HashValue h \<Longrightarrow> h = coll_rows s ns coll scopeElem"
    "abs_shard s ns coll = ZSetValue z \<Longrightarrow>
       z = (\<lambda>x. map_option Uint64 (coll_rows s ns coll scopeZPtr x)) \<and> row_type (coll_rows s ns coll) = typeZSet"
  using assms by (auto simp: abs_shard_def value_of_def split: if_splits)

lemma Lookup_card:
  assumes "shard_inv s" "name_ok ns" "name_ok coll"
  shows "Lookup s (cardQuery ns coll) = Inr (AnsCard (of_nat (card (elems (coll_rows s ns coll)))))"
proof -
  have h: "healthy s" "cards_ok s" "stored_card (coll_rows s ns coll) = of_nat (card (elems (coll_rows s ns coll)))"
    using assms by (simp_all add: shard_inv_def)
  have "snapCard s (cfs (sm_store s)) ns coll = Inr (of_nat (card (elems (coll_rows s ns coll))))"
    using cards_ok_len [OF h(2) assms(2,3)] h(3)
    by (auto simp: snapCard_def snap_get_base stored_card_def coll_rows_def rows_of_def key_simps split: option.splits)
  then show ?thesis by (simp add: Lookup_snap [OF h(1)] lookup_snap_def)
qed

text \<open>C31: The set reads return the abstract set: membership, cardinality, and the members in byte order without
  duplicates.\<close>

theorem Lookup_set:
  assumes "shard_inv s" "name_ok ns" "name_ok coll" "abs_shard s ns coll = SetValue S"
  shows "Lookup s (isMemberQuery ns coll x) = Inr (AnsBool (x \<in> S)) \<and>
    Lookup s (cardQuery ns coll) = Inr (AnsCard (of_nat (card S))) \<and>
    (\<exists>xs. Lookup s (membersQuery ns coll 0) = Inr (AnsKeys xs) \<and> sorted_wrt (<) xs \<and> set xs = S)"
proof -
  have S: "S = elems (coll_rows s ns coll)" using abs_shard_value(1) [OF assms(2-4)] .
  have h: "healthy s" using assms(1) by (simp add: shard_inv_def)
  obtain ks where ks: "snap_rows (cfs (sm_store s)) (elemPrefix s ns coll) (prefixEnd (elemPrefix s ns coll)) 0 =
      Inr (map (\<lambda>x. (elemPrefix s ns coll @ x, the (coll_rows s ns coll scopeElem x))) ks)"
    "sorted_wrt (<) ks" "set ks = elems (coll_rows s ns coll)" by (rule elem_rows [OF h])
  have "Lookup s (membersQuery ns coll 0) = Inr (AnsKeys ks)"
    using ks(1) by (simp add: Lookup_snap [OF h] lookup_snap_def scanSuffixes_def comp_def)
  moreover have "Lookup s (isMemberQuery ns coll x) = Inr (AnsBool (x \<in> S))"
    by (simp add: Lookup_snap [OF h] lookup_snap_def snap_get_base S elems_def coll_rows_def rows_of_def key_simps)
  ultimately show ?thesis using ks Lookup_card [OF assms(1-3)] S by auto
qed

lemma Lookup_hash:
  assumes "shard_inv s" "name_ok ns" "name_ok coll" "abs_shard s ns coll = HashValue h"
  shows "Lookup s (hGetQuery ns coll x) = Inr (AnsValue (h x)) \<and>
    (\<exists>fs. Lookup s (hGetAllQuery ns coll 0) = Inr (AnsFields fs) \<and> sorted_wrt (<) (map fst fs) \<and> map_of fs = h)"
proof -
  have h: "h = coll_rows s ns coll scopeElem" using abs_shard_value(2) [OF assms(2-4)] .
  have hs: "healthy s" using assms(1) by (simp add: shard_inv_def)
  obtain ks where ks: "snap_rows (cfs (sm_store s)) (elemPrefix s ns coll) (prefixEnd (elemPrefix s ns coll)) 0 =
      Inr (map (\<lambda>x. (elemPrefix s ns coll @ x, the (coll_rows s ns coll scopeElem x))) ks)"
    "sorted_wrt (<) ks" "set ks = elems (coll_rows s ns coll)" by (rule elem_rows [OF hs])
  let ?fs = "map (\<lambda>x. (x, the (h x))) ks"
  have "Lookup s (hGetAllQuery ns coll 0) = Inr (AnsFields ?fs)"
    using ks(1) by (simp add: Lookup_snap [OF hs] lookup_snap_def h comp_def)
  moreover have "map_of ?fs = h"
    using ks(3) by (auto simp: fun_eq_iff map_of_map_restrict restrict_map_def h elems_def)
  moreover have "Lookup s (hGetQuery ns coll x) = Inr (AnsValue (h x))"
    by (simp add: Lookup_snap [OF hs] lookup_snap_def snap_get_base h coll_rows_def rows_of_def key_simps)
  ultimately show ?thesis using ks(2) by (auto simp: comp_def)
qed

definition zdec :: "bytes \<Rightarrow> bytes \<times> float64" where
  "zdec k = (drop 8 k, unsortableScore (take 8 k))"

lemma zdec_append [simp]: "zdec (sortableScore f @ x) = (x, f)"
  by (simp add: zdec_def unsortableScore_sortableScore)

lemma zindex_E:
  assumes "k \<in> zindex r"
  obtains f x where "k = sortableScore f @ x" "map_option Uint64 (r scopeZPtr x) = Some f"
  using assms by (auto simp: zindex_def)

lemma zdec_mem: "(x, f) \<in> zdec ` zindex r \<longleftrightarrow> map_option Uint64 (r scopeZPtr x) = Some f"
proof
  assume "(x, f) \<in> zdec ` zindex r"
  then show "map_option Uint64 (r scopeZPtr x) = Some f" by (auto elim!: zindex_E)
next
  assume "map_option Uint64 (r scopeZPtr x) = Some f"
  then have "sortableScore f @ x \<in> zindex r" by (simp only: zindex_iff)
  then show "(x, f) \<in> zdec ` zindex r" by (metis imageI zdec_append)
qed

lemma zindex_order:
  assumes "k \<in> zindex r" "k' \<in> zindex r" "k < k'"
  shows "float_scaled (snd (zdec k)) \<le> float_scaled (snd (zdec k'))"
proof -
  obtain f x g y where k: "k = sortableScore f @ x" "k' = sortableScore g @ y" using assms(1,2) by (elim zindex_E)
  then have "sortableScore f \<le> sortableScore g" using assms(3) by (auto simp: append_less_append_length)
  then have "\<not> float_scaled g < float_scaled f" using sortableScore_less [of g f] by auto
  then show ?thesis by (simp add: k)
qed

lemma zindex_fst_inj: "inj_on (fst \<circ> zdec) (zindex r)"
  by (rule inj_onI) (auto elim!: zindex_E)

text \<open>C32: The sorted-set reads return the abstract sorted set: a member's score, and the range as exactly the
  members with their scores, each once, in increasing order of the numeric score.\<close>

theorem Lookup_zset:
  assumes "shard_inv s" "name_ok ns" "name_ok coll" "abs_shard s ns coll = ZSetValue z"
  shows "Lookup s (zScoreQuery ns coll x) = Inr (AnsScore (z x)) \<and>
    (\<exists>ms. Lookup s (zRangeQuery ns coll 0) = Inr (AnsScored ms) \<and> sorted (map (float_scaled \<circ> snd) ms) \<and>
       distinct (map fst ms) \<and> map_of ms = z)"
proof -
  let ?r = "coll_rows s ns coll"
  have z: "z = (\<lambda>x. map_option Uint64 (?r scopeZPtr x))" "row_type ?r = typeZSet"
    using abs_shard_value(3) [OF assms(2-4)] by simp_all
  have hs: "healthy s" "typed ?r" using assms by (simp_all add: shard_inv_def)
  obtain ks where ks: "snap_rows (cfs (sm_store s)) (elemPrefix s ns coll) (prefixEnd (elemPrefix s ns coll)) 0 =
      Inr (map (\<lambda>x. (elemPrefix s ns coll @ x, the (?r scopeElem x))) ks)"
    "sorted_wrt (<) ks" "set ks = elems ?r" by (rule elem_rows [OF hs(1)])
  have zi: "set ks = zindex ?r" using ks(3) hs(2) z(2) by (simp add: typed_def)
  have dist: "distinct (map fst (map zdec ks))"
    using ks(2) zindex_fst_inj [of ?r] by (simp add: zi distinct_map strict_sorted_iff)
  have "sorted_wrt (\<lambda>k k'. float_scaled (snd (zdec k)) \<le> float_scaled (snd (zdec k'))) ks"
    by (rule sorted_wrt_mono_rel [OF _ ks(2)]) (use zindex_order zi in blast)
  then have sorted: "sorted (map (float_scaled \<circ> snd) (map zdec ks))" by (simp add: sorted_wrt_map comp_def)
  have mem: "(y, f) \<in> set (map zdec ks) \<longleftrightarrow> z y = Some f" for y f using zdec_mem [of y f ?r] zi z(1) by simp
  have "map_of (map zdec ks) y = z y" for y
    by (metis mem dist map_of_SomeD map_of_is_SomeI option.exhaust)
  then have mo: "map_of (map zdec ks) = z" by blast
  have long: "length k \<ge> 8" if "k \<in> set ks" for k using that zi by (auto elim!: zindex_E)
  have "List.map_filter (\<lambda>(k, v). let k = drop (length (elemPrefix s ns coll)) k in
      if length k \<ge> 8 then Some (drop 8 k, unsortableScore (take 8 k)) else None)
      (map (\<lambda>x. (elemPrefix s ns coll @ x, the (?r scopeElem x))) ks) = map zdec ks"
    using long by (induction ks) (simp_all add: List.map_filter_def zdec_def)
  then have "Lookup s (zRangeQuery ns coll 0) = Inr (AnsScored (map zdec ks))"
    using ks(1) by (simp add: Lookup_snap [OF hs(1)] lookup_snap_def)
  moreover have "Lookup s (zScoreQuery ns coll x) = Inr (AnsScore (z x))"
    using hs(2) by (auto simp: Lookup_snap [OF hs(1)] lookup_snap_def snap_get_base z(1) coll_rows_def rows_of_def key_simps
        typed_def float64FromBits_def split: option.split)
  ultimately show ?thesis using dist sorted mo by blast
qed

definition zset_entry :: entry where
  "zset_entry = \<lparr>e_Index = 1, e_Cmd = encodeCommand \<lparr>cmd_Op = opZAdd, cmd_NS = [1], cmd_Coll = [2], cmd_Idem = [],
     cmd_Items = [\<lparr>item_Key = [7], item_Val = [], item_Score = 3, item_ExpiryMs = 0\<rparr>]\<rparr>, e_Result = result 0 []\<rparr>"

definition zset_command :: coll_command where
  "zset_command = \<lparr>cmd_Op = opZAdd, cmd_NS = [1], cmd_Coll = [2], cmd_Idem = [],
     cmd_Items = [\<lparr>item_Key = [7], item_Val = [], item_Score = 3, item_ExpiryMs = 0\<rparr>]\<rparr>"

lemma zset_entry_plain: "plain zset_entry zset_command"
  by code_simp

lemma zset_entry_small: "length (cfs (sm_store (snd (Update demo_float demo_shard [zset_entry]))) CFReplData) = 5"
  by code_simp

lemma demo_update:
  assumes "plain e c" "length (cfs (sm_store (snd (Update demo_float demo_shard [e]))) CFReplData) < 2 ^ 63"
  shows "shard_inv (snd (Update demo_float demo_shard [e]))"
    "abs_shard (snd (Update demo_float demo_shard [e])) (cmd_NS c) (cmd_Coll c) = snd (spec_command c NoValue)"
proof -
  show "shard_inv (snd (Update demo_float demo_shard [e]))"
    by (rule Update_shard_inv [OF demo_shard_inv]) (use plain_no_migrate assms in \<open>auto simp: small_def\<close>)
  obtain es s' where "Update demo_float demo_shard [e] = (Inr es, s')"
    "(map e_Result es, abs_shard s') = spec_run [c] (abs_shard demo_shard)"
    using Update_spec [OF demo_shard_inv demo_shard_not_frozen, of "[e]" "[c]" demo_float] assms(1) by auto
  then show "abs_shard (snd (Update demo_float demo_shard [e])) (cmd_NS c) (cmd_Coll c) = snd (spec_command c NoValue)"
    by (simp add: demo_shard_abs split_beta Let_def)
qed

theorem Lookup_set_witness:
  "Lookup (snd (Update demo_float demo_shard [card_entry])) (isMemberQuery [1] [2] [7]) = Inr (AnsBool True)"
proof -
  have "snd (spec_command card_command NoValue) = SetValue {[7]}" "cmd_NS card_command = [1]" "cmd_Coll card_command = [2]"
    by (simp_all add: card_command_def spec_command_def empty_value_def elem_op_types Let_def)
  then have "abs_shard (snd (Update demo_float demo_shard [card_entry])) [1] [2] = SetValue {[7]}"
    using demo_update(2) [OF card_command_plain] by (simp add: card_entry_small)
  with demo_update(1) [OF card_command_plain] Lookup_set [of "snd (Update demo_float demo_shard [card_entry])" "[1]" "[2]" "{[7]}" "[7]"]
  show ?thesis by (simp add: card_entry_small name_ok_def)
qed

theorem Lookup_zset_witness:
  "Lookup (snd (Update demo_float demo_shard [zset_entry])) (zScoreQuery [1] [2] [7]) = Inr (AnsScore (Some 3))"
proof -
  have "snd (spec_command zset_command NoValue) = ZSetValue [[7] \<mapsto> 3]" "cmd_NS zset_command = [1]" "cmd_Coll zset_command = [2]"
    by (simp_all add: zset_command_def spec_command_def empty_value_def elem_op_types Let_def type_defs)
  then have "abs_shard (snd (Update demo_float demo_shard [zset_entry])) [1] [2] = ZSetValue [[7] \<mapsto> 3]"
    using demo_update(2) [OF zset_entry_plain] by (simp add: zset_entry_small)
  with demo_update(1) [OF zset_entry_plain]
    Lookup_zset [of "snd (Update demo_float demo_shard [zset_entry])" "[1]" "[2]" "[[7] \<mapsto> 3]" "[7]"]
  show ?thesis by (simp add: zset_entry_small name_ok_def)
qed

end
