(* ===== verification/Coll_Ledger.thy ===== *)
theory Coll_Ledger
  imports Coll_Card
begin

text \<open>
  The ledger behind a leased budget of \<open>src/internal/collections/budget.go\<close>: signed arithmetic without
  overflow, the record codecs, and what a grant, a report, a return and an expiry do to the pool and the leases
  as integers.
\<close>

section \<open>Signed arithmetic without overflow\<close>

lemma sint_add_64:
  fixes a b :: i64
  shows "- (2 ^ 63) \<le> sint a + sint b \<Longrightarrow> sint a + sint b < 2 ^ 63 \<Longrightarrow> sint (a + b) = sint a + sint b"
  by (simp add: signed_take_bit_int_eq_self sint_word_ariths)

lemma sint_diff_64:
  fixes a b :: i64
  shows "- (2 ^ 63) \<le> sint a - sint b \<Longrightarrow> sint a - sint b < 2 ^ 63 \<Longrightarrow> sint (a - b) = sint a - sint b"
  by (simp add: signed_take_bit_int_eq_self sint_word_ariths)

lemma sint_64_less: "sint (a :: i64) < 2 ^ 63" "- (2 ^ 63) \<le> sint (a :: i64)"
  using sint_lt [of a] sint_ge [of a] by simp_all

lemma sint_64_inject: "sint (a :: i64) = sint b \<longleftrightarrow> a = b"
  by (rule word_eq_iff_signed [symmetric])

section \<open>Record codecs\<close>

lemma getI64_putI64 [simp]: "getI64 (putI64 w @ rest) = w" "getI64 (putI64 w) = w" "length (putI64 w) = 8"
  by (simp_all add: getI64_def putI64_def)

lemma drop_putI64 [simp]: "8 \<le> n \<Longrightarrow> drop n (putI64 w @ rest) = drop (n - 8) rest"
  "8 \<le> n \<Longrightarrow> drop n (PutUint64 w @ rest) = drop (n - 8) rest"
  by simp_all

lemma decodePool_encodePool: "decodePool (encodePool p) = Inr p"
  by (simp add: decodePool_def encodePool_def Let_def nth_append)

lemma decodeLease_encodeLease:
  "length (ls_Holder l) + 24 < 2 ^ 32 \<Longrightarrow> decodeLease (encodeLease l) = Inr l"
  by (simp add: decodeLease_def encodeLease_def Let_def appendChunk_chunk)

lemma decodeTomb_encodeTomb: "decodeTomb (encodeTomb t) = Inr t"
  by (simp add: decodeTomb_def encodeTomb_def nth_append)

section \<open>The ledger of a budget\<close>

definition lease_ok :: "lease_rec \<Rightarrow> bool" where
  "lease_ok l \<longleftrightarrow> 0 \<le> sint (ls_Spent l) \<and> sint (ls_Spent l) \<le> sint (ls_Amount l) \<and> length (ls_Holder l) + 24 < 2 ^ 32"

definition owed :: "lease_rec \<Rightarrow> int" where
  "owed l = sint (ls_Amount l) - sint (ls_Spent l)"

definition leased :: "(bytes \<Rightarrow> lease_rec option) \<Rightarrow> int" where
  "leased L = (\<Sum>x \<in> dom L. owed (the (L x)))"

definition ledger :: "pool_rec \<Rightarrow> (bytes \<Rightarrow> lease_rec option) \<Rightarrow> bool" where
  "ledger p L \<longleftrightarrow> finite (dom L) \<and> (\<forall>x l. L x = Some l \<longrightarrow> lease_ok l) \<and> sint (pl_LeasedOut p) = leased L \<and>
     0 \<le> sint (pl_Available p) \<and> 0 \<le> sint (pl_Spent p) \<and>
     sint (pl_Cap p) = sint (pl_Available p) + sint (pl_LeasedOut p) + sint (pl_Spent p)"

lemma leased_upd:
  assumes "finite (dom L)"
  shows "leased (L(x := v)) = leased L - (case L x of None \<Rightarrow> 0 | Some l \<Rightarrow> owed l) + (case v of None \<Rightarrow> 0 | Some l \<Rightarrow> owed l)"
proof -
  let ?rest = "\<Sum>y \<in> dom L - {x}. owed (the (L y))"
  have "leased L = ?rest + (case L x of None \<Rightarrow> 0 | Some l \<Rightarrow> owed l)"
  proof (cases "L x")
    case None
    then have "dom L - {x} = dom L" by auto
    then show ?thesis using None by (simp add: leased_def)
  next
    case (Some l)
    then show ?thesis unfolding leased_def using assms by (subst sum.remove [of _ x]) auto
  qed
  moreover have "leased (L(x := v)) = ?rest + (case v of None \<Rightarrow> 0 | Some l \<Rightarrow> owed l)"
  proof (cases v)
    case None
    then show ?thesis unfolding leased_def by (auto intro!: sum.cong)
  next
    case (Some l)
    have d: "dom (L(x \<mapsto> l)) = insert x (dom L - {x})" by auto
    have "(\<Sum>y \<in> dom L - {x}. owed (the ((L(x \<mapsto> l)) y))) = ?rest" by (rule sum.cong) auto
    then show ?thesis unfolding leased_def Some d using assms by (subst sum.insert) auto
  qed
  ultimately show ?thesis by simp
qed

lemma leased_ge:
  assumes "ledger p L" "L x = Some l"
  shows "0 \<le> owed l" "owed l \<le> leased L"
proof -
  have pos: "0 \<le> owed l'" if "L y = Some l'" for y l' using assms(1) that by (auto simp: ledger_def lease_ok_def owed_def)
  then show "0 \<le> owed l" using assms(2) .
  have "finite (dom L)" using assms(1) by (simp add: ledger_def)
  then have "owed (the (L x)) \<le> (\<Sum>y \<in> dom L. owed (the (L y)))"
    by (intro member_le_sum) (use assms(2) pos in auto)
  then show "owed l \<le> leased L" using assms(2) by (simp add: leased_def)
qed

lemma leased_nonneg: "ledger p L \<Longrightarrow> 0 \<le> leased L"
  unfolding leased_def by (rule sum_nonneg) (auto dest: leased_ge(1))

text \<open>A change of the pool and of one lease, given by its effect on the integers.\<close>

lemma ledger_step:
  assumes "ledger p L" "\<forall>l. v = Some l \<longrightarrow> lease_ok l"
    "sint (pl_LeasedOut q) = leased (L(x := v))" "0 \<le> sint (pl_Available q)" "0 \<le> sint (pl_Spent q)" "pl_Cap q = pl_Cap p"
    "sint (pl_Cap p) = sint (pl_Available q) + sint (pl_LeasedOut q) + sint (pl_Spent q)"
  shows "ledger q (L(x := v))"
  using assms by (auto simp: ledger_def)

lemma ledger_grant:
  assumes p: "ledger p L" "L x = None" and g: "0 < sint g" "sint g \<le> sint (pl_Available p)"
    and l: "ls_Amount l = g" "ls_Spent l = 0" "length (ls_Holder l) + 24 < 2 ^ 32"
    and q: "pl_Cap q = pl_Cap p" "pl_Spent q = pl_Spent p" "pl_Available q = pl_Available p - g" "pl_LeasedOut q = pl_LeasedOut p + g"
  shows "ledger q (L(x \<mapsto> l))"
proof -
  have fin: "finite (dom L)" and i: "sint (pl_LeasedOut p) = leased L" "0 \<le> sint (pl_Spent p)"
    "sint (pl_Cap p) = sint (pl_Available p) + sint (pl_LeasedOut p) + sint (pl_Spent p)"
    using p(1) by (simp_all add: ledger_def)
  have a: "sint (pl_Available q) = sint (pl_Available p) - sint g"
    unfolding q by (rule sint_diff_64) (use g sint_64_less [of "pl_Available p"] in linarith)+
  have b: "sint (pl_LeasedOut q) = sint (pl_LeasedOut p) + sint g"
    unfolding q by (rule sint_add_64) (use g i leased_nonneg [OF p(1)] sint_64_less [of "pl_Cap p"] in linarith)+
  show ?thesis
    by (rule ledger_step [OF p(1)]) (use p(2) l g q i a b leased_upd [OF fin, of x "Some l"] in \<open>simp_all add: lease_ok_def owed_def\<close>)
qed

lemma ledger_report:
  assumes p: "ledger p L" "L x = Some l" and r: "sint (ls_Spent l) < sint r" and f: "fold_report r l p = (l', q)"
  shows "ledger q (L(x \<mapsto> l'))" "pl_DedupRetryWindowMs q = pl_DedupRetryWindowMs p" "ls_ReclaimNotBeforeMs l' = ls_ReclaimNotBeforeMs l"
proof -
  define r' where "r' = (if sint r > sint (ls_Amount l) then ls_Amount l else r)"
  have lq: "l' = l\<lparr>ls_Spent := r'\<rparr>" "q = p\<lparr>pl_LeasedOut := pl_LeasedOut p - (r' - ls_Spent l), pl_Spent := pl_Spent p + (r' - ls_Spent l),
      pl_SpentReported := pl_SpentReported p + (r' - ls_Spent l)\<rparr>"
    using f by (auto simp: fold_report_def Let_def r'_def)
  then show "pl_DedupRetryWindowMs q = pl_DedupRetryWindowMs p" "ls_ReclaimNotBeforeMs l' = ls_ReclaimNotBeforeMs l" by simp_all
  have fin: "finite (dom L)" and lo: "lease_ok l" and i: "sint (pl_LeasedOut p) = leased L" "0 \<le> sint (pl_Spent p)" "0 \<le> sint (pl_Available p)"
    "sint (pl_Cap p) = sint (pl_Available p) + sint (pl_LeasedOut p) + sint (pl_Spent p)"
    using p by (auto simp: ledger_def)
  have r': "sint (ls_Spent l) \<le> sint r'" "sint r' \<le> sint (ls_Amount l)" using r lo by (auto simp: r'_def lease_ok_def)
  have d: "sint (r' - ls_Spent l) = sint r' - sint (ls_Spent l)"
    by (rule sint_diff_64) (use r' lo sint_64_less [of r'] in \<open>auto simp: lease_ok_def\<close>)
  note ge = leased_ge [OF p]
  have b: "sint (pl_LeasedOut q) = sint (pl_LeasedOut p) - (sint r' - sint (ls_Spent l))"
    using sint_diff_64 [of "pl_LeasedOut p" "r' - ls_Spent l"] d r' ge i sint_64_less [of "pl_LeasedOut p"]
    by (simp add: lq owed_def)
  have c: "sint (pl_Spent q) = sint (pl_Spent p) + (sint r' - sint (ls_Spent l))"
    using sint_add_64 [of "pl_Spent p" "r' - ls_Spent l"] d r' ge i sint_64_less [of "pl_Cap p"]
    by (simp add: lq owed_def)
  show "ledger q (L(x \<mapsto> l'))"
    by (rule ledger_step [OF p(1)])
      (use p(2) lo r' i b c leased_upd [OF fin, of x "Some l'"] in \<open>simp_all add: lq lease_ok_def owed_def\<close>)
qed

lemma ledger_settle:
  assumes p: "ledger p L" "L x = Some l" and rem: "rem = ls_Amount l - ls_Spent l"
    and q: "pl_Cap q = pl_Cap p" "pl_LeasedOut q = pl_LeasedOut p - rem"
      "pl_Available q = pl_Available p + rem \<and> pl_Spent q = pl_Spent p \<or>
       pl_Available q = pl_Available p \<and> pl_Spent q = pl_Spent p + rem"
  shows "ledger q (L(x := None))"
proof -
  have fin: "finite (dom L)" and lo: "lease_ok l" and i: "sint (pl_LeasedOut p) = leased L" "0 \<le> sint (pl_Spent p)" "0 \<le> sint (pl_Available p)"
    "sint (pl_Cap p) = sint (pl_Available p) + sint (pl_LeasedOut p) + sint (pl_Spent p)"
    using p by (auto simp: ledger_def)
  note ge = leased_ge [OF p]
  have d: "sint rem = owed l" unfolding rem owed_def
    by (rule sint_diff_64) (use lo sint_64_less [of "ls_Amount l"] in \<open>auto simp: lease_ok_def\<close>)
  have b: "sint (pl_LeasedOut q) = sint (pl_LeasedOut p) - owed l"
    using sint_diff_64 [of "pl_LeasedOut p" rem] d ge i sint_64_less [of "pl_LeasedOut p"] by (simp add: q)
  have "sint (pl_Available p + rem) = sint (pl_Available p) + owed l" "sint (pl_Spent p + rem) = sint (pl_Spent p) + owed l"
    using sint_add_64 [of "pl_Available p" rem] sint_add_64 [of "pl_Spent p" rem] d ge i sint_64_less [of "pl_Cap p"] by simp_all
  then have c: "0 \<le> sint (pl_Available q)" "0 \<le> sint (pl_Spent q)"
    "sint (pl_Available q) + sint (pl_Spent q) = sint (pl_Available p) + sint (pl_Spent p) + owed l"
    using q(3) i ge by auto
  show ?thesis
    by (rule ledger_step [OF p(1)]) (use p(2) i b c q leased_upd [OF fin, of x None] in simp_all)
qed

end
