(* ===== verification/Coll_Conserve.thy ===== *)
theory Coll_Conserve
  imports Coll_Ledger
begin

text \<open>
  Conservation of the leased budgets of \<open>src/internal/collections/budget.go\<close>: which operations leave the budget
  rows of a shard alone (\<open>frame\<close>), that the budget operations other than reconcile keep the ledger
  (\<open>bgood\<close>), and that every shard reached by updates passes its own conservation probe.
\<close>

section \<open>The budget rows of a context\<close>

definition bud_scopes :: "byte set" where
  "bud_scopes = {scopeBudPool, scopeBudLease, scopeBudTomb}"

definition bud_key :: "base_sm \<Rightarrow> bytes \<Rightarrow> bool" where
  "bud_key s k \<longleftrightarrow> (\<exists>ns coll sc x. name_ok ns \<and> name_ok coll \<and> sc \<in> bud_scopes \<and> k = scope_key s ns coll sc x)"

definition lease_of :: "(byte \<Rightarrow> bytes \<Rightarrow> bytes option) \<Rightarrow> bytes \<Rightarrow> lease_rec option" where
  "lease_of r x = (case r scopeBudLease x of None \<Rightarrow> None
     | Some v \<Rightarrow> (case decodeLease v of Inl e \<Rightarrow> None | Inr l \<Rightarrow> Some l))"

definition bud_ok :: "(byte \<Rightarrow> bytes \<Rightarrow> bytes option) \<Rightarrow> bool" where
  "bud_ok r \<longleftrightarrow> (\<forall>x v. r scopeBudLease x = Some v \<longrightarrow> (\<exists>l. decodeLease v = Inr l)) \<and>
     (r scopeBudPool [] = None \<longrightarrow> (\<forall>x. r scopeBudLease x = None)) \<and>
     (\<forall>v. r scopeBudPool [] = Some v \<longrightarrow> (\<exists>p. decodePool v = Inr p \<and> ledger p (lease_of r)))"

definition bud_inv :: "update_ctx \<Rightarrow> bool" where
  "bud_inv u \<longleftrightarrow> healthy (u_s u) \<and>
     (\<forall>k. bud_key (u_s u) k \<longrightarrow> (u_vals u k = None \<longrightarrow> base (u_s u) k = eff u k) \<and> (\<forall>v. u_vals u k = Some v \<longrightarrow> v = eff u k)) \<and>
     (\<forall>ns coll. name_ok ns \<longrightarrow> name_ok coll \<longrightarrow> bud_ok (rows_of (u_s u) (eff u) ns coll))"

text \<open>Operations on elements, types, expiries and idempotency keys leave the budget rows alone.\<close>

definition bud_same :: "update_ctx \<Rightarrow> update_ctx \<Rightarrow> bool" where
  "bud_same u u' \<longleftrightarrow> u_s u' = u_s u \<and> (\<forall>k. bud_key (u_s u) k \<longrightarrow> eff u' k = eff u k \<and> u_vals u' k = u_vals u k)"

lemma bud_key_iff [simp]:
  "name_ok ns \<Longrightarrow> name_ok coll \<Longrightarrow> bud_key s (scope_key s ns coll sc x) \<longleftrightarrow> sc \<in> bud_scopes"
  "sub \<noteq> subData \<Longrightarrow> \<not> bud_key s (sub_key s sub x)"
  by (auto simp: bud_key_def key_simps) 

lemma bud_scopes_iff [simp]: "scopeElem \<notin> bud_scopes" "scopeZPtr \<notin> bud_scopes" "scopeType \<notin> bud_scopes"
  "scopeTTLPtr \<notin> bud_scopes" "scopeCard \<notin> bud_scopes" "scopeBudPool \<in> bud_scopes" "scopeBudLease \<in> bud_scopes" "scopeBudTomb \<in> bud_scopes"
  by (simp_all add: bud_scopes_def)

lemma u_vals_over [simp]:
  "u_vals (set_exists k b u) = u_vals u" "u_vals (set_zscore k z u) = u_vals u" "u_vals (add_card k d u) = u_vals u"
  "u_vals (emit_put k w u) = u_vals u" "u_vals (emit_del k u) = u_vals u" "u_vals (set_vals k v u) = (u_vals u)(k \<mapsto> v)"
  by (simp_all add: set_exists_def set_zscore_def add_card_def emit_put_def emit_del_def set_vals_def)

lemma bud_ok_cong:
  assumes "\<And>sc x. sc \<in> bud_scopes \<Longrightarrow> r sc x = r' sc x"
  shows "bud_ok r = bud_ok r'"
proof -
  have "r scopeBudPool [] = r' scopeBudPool []" "r scopeBudLease = r' scopeBudLease" using assms by (auto simp: bud_scopes_def fun_eq_iff)
  moreover from this have "lease_of r = lease_of r'" by (simp add: fun_eq_iff lease_of_def)
  ultimately show ?thesis by (simp add: bud_ok_def)
qed

lemma bud_inv_same:
  assumes "bud_inv u" "bud_same u u'"
  shows "bud_inv u'"
proof -
  have "bud_ok (rows_of (u_s u') (eff u') ns coll)" if "name_ok ns" "name_ok coll" for ns coll
  proof -
    have "bud_ok (rows_of (u_s u') (eff u') ns coll) = bud_ok (rows_of (u_s u) (eff u) ns coll)"
      by (rule bud_ok_cong) (use assms(2) that in \<open>simp add: bud_same_def rows_of_def\<close>)
    then show ?thesis using assms(1) that by (simp add: bud_inv_def)
  qed
  then show ?thesis using assms by (simp add: bud_inv_def bud_same_def)
qed

lemma bud_same_refl [simp, intro]: "bud_same u u"
  by (simp add: bud_same_def)

lemma bud_same_u_s: "bud_same u v \<Longrightarrow> u_s v = u_s u"
  by (simp add: bud_same_def)

lemma bud_same_emit [intro]:
  assumes "bud_same u v" "\<not> bud_key (u_s u) k"
  shows "bud_same u (emit_put k b v)" "bud_same u (emit_del k v)" "bud_same u (set_vals k w v)"
  using assms by (auto simp: bud_same_def eff_simps)

lemma bud_same_over [simp, intro]:
  assumes "bud_same u v"
  shows "bud_same u (set_exists k b v)" "bud_same u (set_zscore k z v)" "bud_same u (add_card k d v)"
    "bud_same u (v\<lparr>u_htype := h\<rparr>)" "bud_same u (v\<lparr>u_inBatchDedup := ib\<rparr>)" "bud_same u (v\<lparr>u_dedupSeq := n\<rparr>)"
  using assms by (auto simp: bud_same_def eff_simps)


text \<open>A step that leaves the budget rows alone, whether it fails or not.\<close>

definition frame :: "update_ctx \<Rightarrow> 'a upd \<Rightarrow> bool" where
  "frame u r \<longleftrightarrow> bud_same u (snd r)"

lemma frame_pair [simp]: "frame u (x, v) \<longleftrightarrow> bud_same u v"
  by (simp add: frame_def)

lemma frame_on_ok: "frame u r \<Longrightarrow> (\<And>a v. bud_same u v \<Longrightarrow> frame u (f a v)) \<Longrightarrow> frame u (on_ok r f)"
  by (cases r) (auto simp: on_ok_def frame_def split: sum.splits)

lemma frame_on_read: "bud_same u v \<Longrightarrow> (\<And>a. r = Inr a \<Longrightarrow> frame u (f a)) \<Longrightarrow> frame u (on_read r v f)"
  by (cases r) (auto simp: on_read_def)

lemma frame_cases:
  "(b \<Longrightarrow> frame u x) \<Longrightarrow> (\<not> b \<Longrightarrow> frame u y) \<Longrightarrow> frame u (if b then x else y)"
  "(m = None \<Longrightarrow> frame u x) \<Longrightarrow> (\<And>a. m = Some a \<Longrightarrow> frame u (g a)) \<Longrightarrow> frame u (case m of None \<Rightarrow> x | Some a \<Rightarrow> g a)"
  "(\<And>a b. q = (a, b) \<Longrightarrow> frame u (h a b)) \<Longrightarrow> frame u (case q of (a, b) \<Rightarrow> h a b)"
  by (auto split: option.split prod.split)

lemmas frame_rules = frame_cases frame_on_read frame_on_ok

lemma bud_same_keys [intro]:
  assumes "bud_same u v" "cmd_ok c" "sc \<notin> bud_scopes" "s = u_s v"
  shows "bud_same u (emit_put (scope_key s (cmd_NS c) (cmd_Coll c) sc x) b v)"
    "bud_same u (emit_del (scope_key s (cmd_NS c) (cmd_Coll c) sc x) v)"
    "bud_same u (set_vals (scope_key s (cmd_NS c) (cmd_Coll c) sc x) w v)"
  using assms by (auto simp: cmd_ok_def bud_same_u_s intro!: bud_same_emit)

lemma bud_same_subs [intro]:
  assumes "bud_same u v" "sub \<noteq> subData" "s = u_s v"
  shows "bud_same u (emit_put (sub_key s sub x) b v)" "bud_same u (emit_del (sub_key s sub x) v)"
  using assms by (auto simp: bud_same_u_s intro!: bud_same_emit)

lemmas bud_same_rules = bud_same_keys bud_same_subs

lemma frame_types:
  assumes "bud_same u v" "cmd_ok c"
  shows "frame u (typeOf (cmd_NS c) (cmd_Coll c) v)" "frame u (ensureType (cmd_NS c) (cmd_Coll c) t v)"
  using assms by (auto simp: typeOf_def ensureType_def Let_def key_simps bud_same_rules
      split: option.split sum.split list.split)

lemma frame_TTL:
  assumes "bud_same u v" "cmd_ok c"
  shows "frame u (setTTL (cmd_NS c) (cmd_Coll c) m e v)" "frame u (clearTTL (cmd_NS c) (cmd_Coll c) m v)"
  unfolding setTTL_def clearTTL_def Let_def key_simps
  by ((intro frame_rules; use assms in \<open>auto simp: bud_same_rules split: option.split\<close>)+)

lemma frame_dedupRecord: "bud_same u v \<Longrightarrow> frame u (dedupRecord k w d v)"
  unfolding dedupRecord_def Let_def key_simps
  by (intro frame_rules) (auto simp: bud_same_rules split: option.split)

lemma frame_hincr:
  assumes "bud_same u v" "cmd_ok c"
  shows "frame u (applyHIncrInt c it v)" "frame u (applyHIncrFloat fl c it v)"
  unfolding applyHIncrInt_def applyHIncrFloat_def setFieldVal_def touchField_def Let_def key_simps
  by ((intro frame_rules; use assms in \<open>auto simp: bud_same_rules split: if_splits\<close>)+)

lemma frame_elems:
  assumes "bud_same u v" "cmd_ok c"
  shows "frame u (apply_sadd c it v)" "frame u (remove_elem c it v)" "frame u (apply_hset c it v)"
  unfolding apply_sadd_def remove_elem_def apply_hset_def Let_def key_simps ctx_elem_def
  by ((intro frame_rules frame_TTL; use assms in \<open>auto simp: bud_same_rules split: if_splits\<close>)+)

lemma frame_expire: "bud_same u v \<Longrightarrow> cmd_ok c \<Longrightarrow> frame u (apply_expire c it v)"
  unfolding apply_expire_def Let_def key_simps ctx_elem_def
  by (intro frame_rules frame_TTL) (auto simp: bud_same_rules split: if_splits)

lemma frame_zelems:
  assumes "bud_same u v" "cmd_ok c"
  shows "frame u (apply_zadd c it v)" "frame u (remove_z c it v)"
  unfolding apply_zadd_def remove_z_def Let_def key_simps
  by ((intro frame_rules; use assms in \<open>auto simp: bud_same_rules split: option.splits\<close>)+)

lemma frame_remove: "bud_same u v \<Longrightarrow> cmd_ok c \<Longrightarrow> frame u (apply_remove c it v)"
  unfolding apply_remove_def by (intro frame_rules frame_types frame_elems frame_zelems) auto

lemma frame_item: "bud_same u v \<Longrightarrow> cmd_ok c \<Longrightarrow> frame u (apply_item c it v)"
  by (simp add: apply_item_def Let_def frame_elems frame_expire frame_zelems frame_remove)

lemma frame_items: "bud_same u v \<Longrightarrow> cmd_ok c \<Longrightarrow> frame u (apply_items c n its v)"
  by (induction its arbitrary: n v) (auto intro!: frame_on_ok frame_item)

lemma frame_command: "bud_same u v \<Longrightarrow> cmd_ok c \<Longrightarrow> frame u (applyCommand c v)"
  by (simp add: applyCommand_def frame_items)

lemma frame_record_result: "bud_same u v \<Longrightarrow> frame u (record_result c r v)"
  unfolding record_result_def by (intro frame_rules frame_dedupRecord) auto

lemma frame_apply_hincr: "bud_same u v \<Longrightarrow> cmd_ok c \<Longrightarrow> frame u (apply_hincr fl d c v)"
  unfolding apply_hincr_def
  by (intro frame_rules frame_hincr) (auto intro: frame_record_result split: prod.split)

lemma frame_freeze: "bud_same u v \<Longrightarrow> frame u (applyFreeze cmd v)"
  unfolding applyFreeze_def key_simps by (intro frame_rules) (auto simp: bud_same_rules)

section \<open>The budget operations\<close>

definition brows :: "coll_command \<Rightarrow> update_ctx \<Rightarrow> byte \<Rightarrow> bytes \<Rightarrow> bytes option" where
  "brows c u = rows_of (u_s u) (eff u) (cmd_NS c) (cmd_Coll c)"

definition bgood :: "'a upd \<Rightarrow> bool" where
  "bgood r \<longleftrightarrow> (\<forall>a u'. r = (Inr a, u') \<longrightarrow> bud_inv u')"

lemma bgood_simps [simp]: "bgood (Inl e, u)" "bgood (Inr a, u) \<longleftrightarrow> bud_inv u"
  by (simp_all add: bgood_def)

lemma bgood_on_ok: "bgood r \<Longrightarrow> (\<And>a v. r = (Inr a, v) \<Longrightarrow> bud_inv v \<Longrightarrow> bgood (f a v)) \<Longrightarrow> bgood (on_ok r f)"
  by (cases r; cases "fst r") (auto simp: on_ok_def)

lemma bgood_cases:
  "(b \<Longrightarrow> bgood x) \<Longrightarrow> (\<not> b \<Longrightarrow> bgood y) \<Longrightarrow> bgood (if b then x else y)"
  "(m = None \<Longrightarrow> bgood x) \<Longrightarrow> (\<And>a. m = Some a \<Longrightarrow> bgood (g a)) \<Longrightarrow> bgood (case m of None \<Rightarrow> x | Some a \<Rightarrow> g a)"
  "(\<And>a b. q = (a, b) \<Longrightarrow> bgood (h a b)) \<Longrightarrow> bgood (case q of (a, b) \<Rightarrow> h a b)"
  "(\<And>a. r = Inr a \<Longrightarrow> bgood (f a)) \<Longrightarrow> bgood (on_read r v f)"
  by (auto simp: on_read_def split: option.split prod.split sum.split)

lemma bgood_frame: "bud_inv u \<Longrightarrow> frame u r \<Longrightarrow> bgood r"
  by (cases r) (auto intro: bud_inv_same simp: bgood_def)

lemma get_rec_row:
  assumes "bud_inv u" "cmd_ok c" "sc \<in> bud_scopes"
  shows "get_rec decode (scope_key (u_s u) (cmd_NS c) (cmd_Coll c) sc x) u =
    (case brows c u sc x of None \<Rightarrow> Inr None | Some v \<Rightarrow> map_sum id Some (decode v))"
proof -
  let ?k = "scope_key (u_s u) (cmd_NS c) (cmd_Coll c) sc x"
  have "bud_key (u_s u) ?k" using assms(2,3) by (simp add: cmd_ok_def)
  then have "u_vals u ?k = None \<Longrightarrow> base (u_s u) ?k = eff u ?k" "\<And>v. u_vals u ?k = Some v \<Longrightarrow> v = eff u ?k" "healthy (u_s u)"
    using assms(1) by (simp_all add: bud_inv_def)
  then show ?thesis
    by (cases "u_vals u ?k") (auto simp: get_rec_def getData_base brows_def rows_of_def split: option.split)
qed

lemma bud_rows:
  assumes "bud_inv u" "cmd_ok c"
  shows "bud_ok (brows c u)"
  using assms by (simp add: bud_inv_def brows_def cmd_ok_def)

lemma getLease_row:
  assumes "bud_inv u" "cmd_ok c"
  shows "getLease (cmd_NS c) (cmd_Coll c) x u = Inr (lease_of (brows c u) x)"
proof -
  have "\<And>v. brows c u scopeBudLease x = Some v \<Longrightarrow> \<exists>l. decodeLease v = Inr l"
    using bud_rows [OF assms] by (simp add: bud_ok_def)
  then show ?thesis
    by (auto simp: getLease_def key_simps get_rec_row [OF assms] lease_of_def split: option.split)
qed

lemma getPool_row:
  assumes "bud_inv u" "cmd_ok c"
  shows "getPool (cmd_NS c) (cmd_Coll c) u = Inr None \<Longrightarrow> brows c u scopeBudPool [] = None \<and> lease_of (brows c u) = Map.empty"
    "getPool (cmd_NS c) (cmd_Coll c) u = Inr (Some p) \<Longrightarrow> ledger p (lease_of (brows c u))"
proof -
  have ok: "bud_ok (brows c u)" by (rule bud_rows [OF assms])
  have g: "getPool (cmd_NS c) (cmd_Coll c) u =
      (case brows c u scopeBudPool [] of None \<Rightarrow> Inr None | Some v \<Rightarrow> map_sum id Some (decodePool v))"
    by (simp add: getPool_def key_simps get_rec_row [OF assms])
  show "brows c u scopeBudPool [] = None \<and> lease_of (brows c u) = Map.empty" if "getPool (cmd_NS c) (cmd_Coll c) u = Inr None"
  proof -
    have none: "brows c u scopeBudPool [] = None"
      using that ok unfolding g by (auto simp: bud_ok_def split: option.splits)
    then have "\<And>x. brows c u scopeBudLease x = None" using ok by (simp add: bud_ok_def)
    then show ?thesis using none by (simp add: lease_of_def fun_eq_iff)
  qed
  show "ledger p (lease_of (brows c u))" if "getPool (cmd_NS c) (cmd_Coll c) u = Inr (Some p)"
    using that ok unfolding g by (auto simp: bud_ok_def split: option.splits)
qed

text \<open>Writes to the budget of \<open>c\<close>.\<close>

definition bcoh :: "update_ctx \<Rightarrow> bool" where
  "bcoh u \<longleftrightarrow> (\<forall>k. bud_key (u_s u) k \<longrightarrow> (u_vals u k = None \<longrightarrow> base (u_s u) k = eff u k) \<and> (\<forall>v. u_vals u k = Some v \<longrightarrow> v = eff u k))"

definition bstep :: "coll_command \<Rightarrow> update_ctx \<Rightarrow> update_ctx \<Rightarrow> bool" where
  "bstep c u v \<longleftrightarrow> u_s v = u_s u \<and> (bcoh u \<longrightarrow> bcoh v) \<and> (\<forall>ns coll sc x. name_ok ns \<longrightarrow> name_ok coll \<longrightarrow>
     \<not> (ns = cmd_NS c \<and> coll = cmd_Coll c) \<longrightarrow> rows_of (u_s u) (eff v) ns coll sc x = rows_of (u_s u) (eff u) ns coll sc x)"

lemma bstep_inv:
  assumes "bud_inv u" "bstep c u v" "bud_ok (brows c v)"
  shows "bud_inv v"
proof -
  have "bud_ok (rows_of (u_s v) (eff v) ns coll)" if n: "name_ok ns" "name_ok coll" for ns coll
  proof (cases "ns = cmd_NS c \<and> coll = cmd_Coll c")
    case True
    then show ?thesis using assms(3) by (simp add: brows_def)
  next
    case False
    have "bud_ok (rows_of (u_s u) (eff u) ns coll)" using assms(1) n by (simp add: bud_inv_def)
    moreover have "rows_of (u_s v) (eff v) ns coll = rows_of (u_s u) (eff u) ns coll"
      using assms(2) n False by (auto simp: bstep_def fun_eq_iff)
    ultimately show ?thesis by simp
  qed
  then show ?thesis using assms(1,2) by (auto simp: bud_inv_def bstep_def bcoh_def)
qed

lemma bstep_refl [simp]: "bstep c u u"
  by (simp add: bstep_def)

lemma bstep_put:
  assumes "bstep c u v" "cmd_ok c" "k = scope_key (u_s v) (cmd_NS c) (cmd_Coll c) sc x"
  shows "bstep c u (emit_put k b (set_vals k (Some b) v))" "bstep c u (emit_del k (set_vals k None v))"
  using assms by (auto simp: bstep_def bcoh_def rows_of_def eff_simps cmd_ok_def)

lemma bstep_sub:
  assumes "bstep c u v" "sub \<noteq> subData" "k = sub_key (u_s v) sub x"
  shows "bstep c u (emit_put k b v)" "bstep c u (emit_del k v)"
  using assms by (auto simp: bstep_def bcoh_def rows_of_def eff_simps)

lemma bstep_ops [simp]:
  assumes "bstep c u v" "cmd_ok c"
  shows "bstep c u (setPool (cmd_NS c) (cmd_Coll c) p v)" "bstep c u (setLease (cmd_NS c) (cmd_Coll c) m l v)"
    "bstep c u (delLease (cmd_NS c) (cmd_Coll c) m v)" "bstep c u (setTomb (cmd_NS c) (cmd_Coll c) m tb v)"
    "bstep c u (delTomb (cmd_NS c) (cmd_Coll c) m v)" "bstep c u (setBudExp (cmd_NS c) (cmd_Coll c) m e v)"
    "bstep c u (delBudExp (cmd_NS c) (cmd_Coll c) m e v)" "bstep c u (setBudTombGC (cmd_NS c) (cmd_Coll c) m e v)"
    "bstep c u (delBudTombGC (cmd_NS c) (cmd_Coll c) m e v)"
  unfolding setPool_def setLease_def delLease_def setTomb_def delTomb_def setBudExp_def delBudExp_def setBudTombGC_def
    delBudTombGC_def Let_def key_simps
  by (rule bstep_put [OF assms refl] bstep_sub [OF assms(1) _ refl], simp?)+

lemma brows_ops [simp]:
  assumes "cmd_ok c"
  shows "brows c (setPool (cmd_NS c) (cmd_Coll c) p v) = (brows c v)(scopeBudPool := (brows c v scopeBudPool)([] \<mapsto> encodePool p))"
    "brows c (setLease (cmd_NS c) (cmd_Coll c) m l v) = (brows c v)(scopeBudLease := (brows c v scopeBudLease)(m \<mapsto> encodeLease l))"
    "brows c (delLease (cmd_NS c) (cmd_Coll c) m v) = (brows c v)(scopeBudLease := (brows c v scopeBudLease)(m := None))"
    "brows c (setTomb (cmd_NS c) (cmd_Coll c) m tb v) = (brows c v)(scopeBudTomb := (brows c v scopeBudTomb)(m \<mapsto> encodeTomb tb))"
    "brows c (delTomb (cmd_NS c) (cmd_Coll c) m v) = (brows c v)(scopeBudTomb := (brows c v scopeBudTomb)(m := None))"
    "brows c (setBudExp (cmd_NS c) (cmd_Coll c) m e v) = brows c v" "brows c (delBudExp (cmd_NS c) (cmd_Coll c) m e v) = brows c v"
    "brows c (setBudTombGC (cmd_NS c) (cmd_Coll c) m e v) = brows c v" "brows c (delBudTombGC (cmd_NS c) (cmd_Coll c) m e v) = brows c v"
  using assms by (simp_all add: fun_eq_iff brows_def rows_of_def setPool_def setLease_def delLease_def setTomb_def delTomb_def
      setBudExp_def delBudExp_def setBudTombGC_def delBudTombGC_def Let_def key_simps eff_simps cmd_ok_def)

lemma ledger_lease: "ledger q L \<Longrightarrow> L x = Some l \<Longrightarrow> lease_ok l"
  by (simp add: ledger_def)

lemma bud_ok_write:
  assumes "bud_ok r" "ledger q ((lease_of r)(x := v))" "r' scopeBudPool [] = Some (encodePool q)"
    "r' scopeBudLease = (r scopeBudLease)(x := map_option encodeLease v)"
  shows "bud_ok r'"
proof -
  have v: "decodeLease (encodeLease l) = Inr l" if "v = Some l" for l
    using ledger_lease [OF assms(2), of x l] that by (intro decodeLease_encodeLease) (simp add: lease_ok_def)
  then have "lease_of r' = (lease_of r)(x := v)"
    by (cases v) (auto simp: fun_eq_iff lease_of_def assms(4))
  then have "ledger q (lease_of r')" using assms(2) by simp
  moreover have "\<exists>l. decodeLease w = Inr l" if "r' scopeBudLease y = Some w" for y w
    using that assms(1) v by (auto simp: assms(4) bud_ok_def split: if_splits)
  ultimately show ?thesis using assms(3) by (simp add: bud_ok_def decodePool_encodePool)
qed

lemma bud_ok_new:
  assumes "bud_ok r" "r scopeBudPool [] = None" "0 \<le> sint (pl_Cap q)" "pl_Available q = pl_Cap q" "pl_LeasedOut q = 0" "pl_Spent q = 0"
    "r' scopeBudPool [] = Some (encodePool q)" "r' scopeBudLease = r scopeBudLease"
  shows "bud_ok r'"
proof -
  have none: "r scopeBudLease x = None" for x using assms(1,2) by (simp add: bud_ok_def)
  then have "lease_of r = Map.empty" by (simp add: fun_eq_iff lease_of_def)
  then have "ledger q ((lease_of r)([] := None))" using assms by (simp add: ledger_def leased_def)
  from bud_ok_write [OF assms(1) this, of r'] show ?thesis using assms(7,8) none by (simp add: fun_upd_idem)
qed

lemma bud_ok_tomb [simp]: "bud_ok (r(scopeBudTomb := f)) = bud_ok r"
proof -
  have "lease_of (r(scopeBudTomb := f)) = lease_of r" by (simp add: fun_eq_iff lease_of_def)
  then show ?thesis by (simp add: bud_ok_def)
qed

lemma bud_same_brows: "bud_same u v \<Longrightarrow> cmd_ok c \<Longrightarrow> sc \<in> bud_scopes \<Longrightarrow> brows c v sc x = brows c u sc x"
  by (simp add: bud_same_def brows_def rows_of_def cmd_ok_def)

lemma bgood_budInit:
  assumes "bud_inv u" "cmd_ok c"
  shows "bgood (applyBudInit c u)"
  unfolding applyBudInit_def Let_def
proof (intro bgood_cases bgood_on_ok)
  show "bgood (ensureType (cmd_NS c) (cmd_Coll c) typeBudget u)"
    by (rule bgood_frame [OF assms(1) frame_types(2) [OF bud_same_refl assms(2)]])
  fix a1 b1 a2 b2 a3 b3 found ok v
  assume mode: "\<not> (item_Key (hd (cmd_Items c)) ! 0 \<noteq> modeStrict \<or> sint (getI64 (drop 1 (item_Key (hd (cmd_Items c))))) < 0)"
    and pool: "getPool (cmd_NS c) (cmd_Coll c) u = Inr found" "\<not> found \<noteq> None"
    and v: "ensureType (cmd_NS c) (cmd_Coll c) typeBudget u = (Inr ok, v)" "bud_inv v"
  have same: "bud_same u v"
    using frame_types(2) [OF bud_same_refl assms(2), of u typeBudget] v(1) by simp
  have none: "brows c v scopeBudPool [] = None"
    using getPool_row(1) [OF assms] pool bud_same_brows [OF same assms(2)] by simp
  let ?p = "\<lparr>pl_Cap = getI64 (drop 1 (item_Key (hd (cmd_Items c)))), pl_Available = getI64 (drop 1 (item_Key (hd (cmd_Items c)))), pl_LeasedOut = 0, pl_Spent = 0,
      pl_Epoch = 1, pl_Mode = item_Key (hd (cmd_Items c)) ! 0, pl_Rate = getI64 (drop 9 (item_Key (hd (cmd_Items c)))), pl_Burst = getI64 (drop 17 (item_Key (hd (cmd_Items c)))),
      pl_LastRefillMs = 0, pl_Tokens = (if sint (getI64 (drop 9 (item_Key (hd (cmd_Items c))))) > 0 then getI64 (drop 17 (item_Key (hd (cmd_Items c)))) else 0),
      pl_SelfGuardMs = a1, pl_MaxPauseMs = a2, pl_DefaultTTLMs = a3, pl_DedupRetryWindowMs = b3, pl_SpentReported = 0\<rparr>"
  show "bgood (Inr (result 1 []), setPool (cmd_NS c) (cmd_Coll c) ?p v)"
    unfolding bgood_simps
    by (rule bstep_inv [OF v(2), of c]) (use assms(2) bud_ok_new [OF bud_rows [OF v(2) assms(2)] none, of ?p] mode in simp_all)
qed (use assms in simp_all)

lemma min64_le: "sint (min64 a b) \<le> sint a" "sint (min64 a b) \<le> sint b"
  by (simp_all add: min64_def)

lemma refill_fields [simp]:
  "pl_Cap (refill g p) = pl_Cap p" "pl_Available (refill g p) = pl_Available p" "pl_LeasedOut (refill g p) = pl_LeasedOut p"
  "pl_Spent (refill g p) = pl_Spent p"
  by (simp_all add: refill_def Let_def)

lemma grant_amount_le: "sint (grant_amount a p) \<le> sint (pl_Available p)"
  by (simp add: grant_amount_def Let_def)

lemma ledger_refill: "ledger (refill g p) L \<longleftrightarrow> ledger p L"
  by (simp add: ledger_def)

text \<open>Writing the pool and one lease.\<close>

lemma bud_inv_write:
  assumes "bud_inv u" "cmd_ok c" "bstep c u v" "ledger q ((lease_of (brows c u))(x := w))"
    "brows c v scopeBudPool [] = Some (encodePool q)" "brows c v scopeBudLease = (brows c u scopeBudLease)(x := map_option encodeLease w)"
  shows "bud_inv v"
  by (rule bstep_inv [OF assms(1,3)]) (rule bud_ok_write [OF bud_rows [OF assms(1,2)] assms(4-6)])

lemma grant_lease_inv:
  assumes "bud_inv u" "cmd_ok c" "ledger p (lease_of (brows c u))" "lease_of (brows c u) (item_Key (hd (cmd_Items c))) = None"
    "0 < sint g" "sint g \<le> sint (pl_Available p)" "length holder + 24 < 2 ^ 32"
  shows "bgood (grant_lease c g grantedMs holder ttl p u)"
proof -
  let ?x = "item_Key (hd (cmd_Items c))"
  define q where "q = (let p = p\<lparr>pl_Available := pl_Available p - g, pl_LeasedOut := pl_LeasedOut p + g\<rparr>
    in if sint (pl_Rate p) > 0 then p\<lparr>pl_Tokens := pl_Tokens p - g\<rparr> else p)"
  have q: "pl_Cap q = pl_Cap p" "pl_Spent q = pl_Spent p" "pl_Available q = pl_Available p - g" "pl_LeasedOut q = pl_LeasedOut p + g"
    by (simp_all add: q_def Let_def)
  obtain l e u' where r: "grant_lease c g grantedMs holder ttl p u = (Inr e, setLease (cmd_NS c) (cmd_Coll c) ?x l u')"
    and l: "ls_Amount l = g" "ls_Spent l = 0" "ls_Holder l = holder"
    and u': "u' = setPool (cmd_NS c) (cmd_Coll c) q u \<or> (\<exists>d. u' = setBudExp (cmd_NS c) (cmd_Coll c) ?x d (setPool (cmd_NS c) (cmd_Coll c) q u))"
    unfolding grant_lease_def Let_def by (cases "sint ttl > 0") (fastforce simp: q_def Let_def)+
  have "ledger q ((lease_of (brows c u))(?x \<mapsto> l))" by (rule ledger_grant [OF assms(3-6)]) (use l q assms(7) in simp_all)
  then show ?thesis unfolding r bgood_simps
    by (rule bud_inv_write [OF assms(1,2), rotated]) (use u' assms(2) in auto)
qed

lemma bgood_budGrant:
  assumes "bud_inv u" "cmd_ok c" "\<forall>it \<in> set (cmd_Items c). length (item_Val it) < 2 ^ 32"
  shows "bgood (applyBudGrant c u)"
  unfolding applyBudGrant_def Let_def
proof (intro bgood_cases)
  fix settled found pool p
  let ?v = "item_Val (hd (cmd_Items c))"
  let ?g = "grant_amount (getI64 ?v) (refill (getI64 (drop 8 ?v)) p)"
  assume items: "\<not> (cmd_Items c = [] \<or> length (item_Key (hd (cmd_Items c))) = 0 \<or> length ?v < 24)"
    and found: "getLease (cmd_NS c) (cmd_Coll c) (item_Key (hd (cmd_Items c))) u = Inr found" "found = None"
    and pool: "getPool (cmd_NS c) (cmd_Coll c) u = Inr pool" "pool = Some p" and g: "\<not> sint ?g \<le> 0"
  have "length ?v < 2 ^ 32" using items assms(3) by simp
  then have "length (drop 24 ?v) + 24 < 2 ^ 32" using items by simp
  then show "bgood (grant_lease c ?g (getI64 (drop 8 ?v)) (drop 24 ?v)
      (if getI64 (drop 16 ?v) = 0 then pl_DefaultTTLMs p else getI64 (drop 16 ?v)) (refill (getI64 (drop 8 ?v)) p) u)"
    using getPool_row(2) [OF assms(1,2)] getLease_row [OF assms(1,2)] found pool g
      grant_amount_le [of "getI64 ?v" "refill (getI64 (drop 8 ?v)) p"]
    by (intro grant_lease_inv assms(1,2)) (simp_all add: ledger_refill)
qed (use assms in simp_all)

lemma bgood_budReport:
  assumes "bud_inv u" "cmd_ok c"
  shows "bgood (applyBudReport c u)"
  unfolding applyBudReport_def Let_def
proof (intro bgood_cases)
  fix found l pool p l' q
  let ?x = "item_Key (hd (cmd_Items c))" and ?v = "item_Val (hd (cmd_Items c))"
  assume found: "getLease (cmd_NS c) (cmd_Coll c) ?x u = Inr found" "found = Some l"
    and new: "\<not> sint (getI64 ?v) \<le> sint (ls_Spent l)"
    and pool: "getPool (cmd_NS c) (cmd_Coll c) u = Inr pool" "pool = Some p" and f: "fold_report (getI64 ?v) l p = (l', q)"
  have "ledger q ((lease_of (brows c u))(?x \<mapsto> l'))"
    by (rule ledger_report(1) [OF getPool_row(2) [OF assms] _ _ f]) (use getLease_row [OF assms] found pool new in simp_all)
  then show "bgood (Inr (result (ls_Amount l' - ls_Spent l') []),
      setLease (cmd_NS c) (cmd_Coll c) ?x l' (setPool (cmd_NS c) (cmd_Coll c) q u))"
    unfolding bgood_simps by (rule bud_inv_write [OF assms, rotated]) (use assms(2) in auto)
qed (use assms in simp_all)

text \<open>Settling a lease: the pool takes the remainder back as available or as spent, the lease goes.\<close>

lemma settle_inv:
  assumes "bud_inv u" "cmd_ok c" "ledger p L" "L x = Some l" "L(x := None) = (lease_of (brows c u))(x := None)"
    "rem = ls_Amount l - ls_Spent l" "pl_Cap q = pl_Cap p" "pl_LeasedOut q = pl_LeasedOut p - rem"
    "pl_Available q = pl_Available p + rem \<and> pl_Spent q = pl_Spent p \<or> pl_Available q = pl_Available p \<and> pl_Spent q = pl_Spent p + rem"
    "bstep c u v" "brows c v scopeBudPool [] = Some (encodePool q)" "brows c v scopeBudLease = (brows c u scopeBudLease)(x := None)"
  shows "bud_inv v"
proof -
  have "ledger q (L(x := None))" by (rule ledger_settle [OF assms(3,4,6-9)])
  then have "ledger q ((lease_of (brows c u))(x := None))" using assms(5) by simp
  then show ?thesis by (rule bud_inv_write [OF assms(1,2,10)]) (use assms in simp_all)
qed

lemma bgood_budReturn:
  assumes "bud_inv u" "cmd_ok c"
  shows "bgood (applyBudReturn c u)"
  unfolding applyBudReturn_def Let_def
proof (intro bgood_cases)
  fix settled found l pool p and l' :: lease_rec and p' :: pool_rec
  let ?x = "item_Key (hd (cmd_Items c))" and ?v = "item_Val (hd (cmd_Items c))"
  let ?q = "p'\<lparr>pl_Available := pl_Available p' + (ls_Amount l' - ls_Spent l'), pl_LeasedOut := pl_LeasedOut p' - (ls_Amount l' - ls_Spent l')\<rparr>"
  assume found: "getLease (cmd_NS c) (cmd_Coll c) ?x u = Inr found" "found = Some l"
    and pool: "getPool (cmd_NS c) (cmd_Coll c) u = Inr pool" "pool = Some p"
    and f: "(if length ?v \<ge> 8 \<and> sint (getI64 ?v) > sint (ls_Spent l) then fold_report (getI64 ?v) l p else (l, p)) = (l', p')"
  let ?L = "lease_of (brows c u)"
  have L: "ledger p ?L" "?L ?x = Some l" using getPool_row(2) [OF assms] getLease_row [OF assms] found pool by simp_all
  have L': "ledger p' (?L(?x \<mapsto> l'))"
  proof (cases "length ?v \<ge> 8 \<and> sint (getI64 ?v) > sint (ls_Spent l)")
    case True
    then show ?thesis using ledger_report(1) [OF L, of "getI64 ?v" l' p'] f by simp
  next
    case False
    then have "l' = l" "p' = p" using f by (auto split: if_splits)
    then show ?thesis using L by (simp add: fun_upd_idem)
  qed
  let ?w = "delLease (cmd_NS c) (cmd_Coll c) ?x (setPool (cmd_NS c) (cmd_Coll c) ?q u)"
  show "bgood (Inr (result (ls_Amount l' - ls_Spent l') []),
     if sint (ls_ReclaimNotBeforeMs l') > 0 then
       setBudTombGC (cmd_NS c) (cmd_Coll c) ?x (ls_ReclaimNotBeforeMs l' + pl_DedupRetryWindowMs ?q)
        (setTomb (cmd_NS c) (cmd_Coll c) ?x \<lparr>tb_FinalSpent = ls_Spent l', tb_Reason = reasonReturn\<rparr>
          (delBudExp (cmd_NS c) (cmd_Coll c) ?x (ls_ReclaimNotBeforeMs l') ?w)) else ?w)"
    unfolding bgood_simps
    by (rule settle_inv [OF assms L', of ?x l' "ls_Amount l' - ls_Spent l'" ?q]) (use assms(2) in auto)
qed (use assms in simp_all)

lemma bgood_budExpire:
  assumes "bud_inv u" "cmd_ok c"
  shows "bgood (applyBudExpire c u)"
  unfolding applyBudExpire_def Let_def
proof (intro bgood_cases)
  let ?x = "item_Key (hd (cmd_Items c))" and ?t = "getI64 (item_Val (hd (cmd_Items c)))"
  fix settled found and pool :: "pool_rec option"
  let ?tomb = "setTomb (cmd_NS c) (cmd_Coll c) ?x \<lparr>tb_FinalSpent = 0, tb_Reason = reasonExpire\<rparr> u"
  show "bgood (Inr (result 0 []), case pool of None \<Rightarrow> ?tomb
      | Some p \<Rightarrow> setBudTombGC (cmd_NS c) (cmd_Coll c) ?x (?t + pl_DedupRetryWindowMs p) ?tomb)"
    unfolding bgood_simps
    by (rule bstep_inv [OF assms(1), of c]) (use assms bud_rows [OF assms] in \<open>auto split: option.split\<close>)
  fix l :: lease_rec and p :: pool_rec
  assume found: "getLease (cmd_NS c) (cmd_Coll c) ?x u = Inr found" "found = Some l"
    and pool: "getPool (cmd_NS c) (cmd_Coll c) u = Inr pool" "pool = Some p"
  let ?rem = "ls_Amount l - ls_Spent l"
  let ?q = "p\<lparr>pl_Spent := pl_Spent p + ?rem, pl_LeasedOut := pl_LeasedOut p - ?rem\<rparr>"
  let ?w = "delLease (cmd_NS c) (cmd_Coll c) ?x (setPool (cmd_NS c) (cmd_Coll c) ?q u)"
  have L: "ledger p (lease_of (brows c u))" "lease_of (brows c u) ?x = Some l"
    using getPool_row(2) [OF assms] getLease_row [OF assms] found pool by simp_all
  show "bgood (Inr (result ?rem []),
      setBudTombGC (cmd_NS c) (cmd_Coll c) ?x (ls_ReclaimNotBeforeMs l + pl_DedupRetryWindowMs ?q)
        (setTomb (cmd_NS c) (cmd_Coll c) ?x \<lparr>tb_FinalSpent = ls_Spent l, tb_Reason = reasonExpire\<rparr>
          (if sint (ls_ReclaimNotBeforeMs l) > 0 then delBudExp (cmd_NS c) (cmd_Coll c) ?x (ls_ReclaimNotBeforeMs l) ?w else ?w)))"
    unfolding bgood_simps
    by (rule settle_inv [OF assms L refl refl, of ?q]) (use assms(2) in auto)
qed (use assms in simp_all)

lemma bgood_budTombGC:
  assumes "bud_inv u" "cmd_ok c"
  shows "bgood (applyBudTombGC c u)"
  unfolding applyBudTombGC_def Let_def
proof (intro bgood_cases)
  show "bgood (Inr (result 0 []), delBudTombGC (cmd_NS c) (cmd_Coll c) (item_Key (hd (cmd_Items c)))
      (getI64 (item_Val (hd (cmd_Items c)))) (delTomb (cmd_NS c) (cmd_Coll c) (item_Key (hd (cmd_Items c))) u))"
    unfolding bgood_simps by (rule bstep_inv [OF assms(1), of c]) (use assms bud_rows [OF assms] in auto)
qed simp

section \<open>Entries and updates\<close>

lemma bgood_budget:
  assumes "bud_inv u" "cmd_ok c" "\<forall>it \<in> set (cmd_Items c). length (item_Val it) < 2 ^ 32"
    "is_budget_op (cmd_Op c)" "cmd_Op c \<noteq> opBudReconcile"
  shows "bgood (apply_budget c u)"
  using assms by (auto simp: apply_budget_def is_budget_op_def intro: bgood_budInit bgood_budGrant bgood_budReport
      bgood_budReturn bgood_budExpire bgood_budTombGC)

lemma bgood_fresh:
  assumes "bud_inv u" "cmd_ok c" "\<forall>it \<in> set (cmd_Items c). length (item_Val it) < 2 ^ 32" "cmd_Op c \<noteq> opBudReconcile"
  shows "bgood (apply_fresh fl d c u)"
proof -
  have f: "bgood (typeOf (cmd_NS c) (cmd_Coll c) v)" "bgood (ensureType (cmd_NS c) (cmd_Coll c) t v)" "bgood (apply_hincr fl d c v)"
    "bgood (applyCommand c v)" "bgood (record_result c r v)" if "bud_inv v" for v t r
    using that assms(2) by (auto intro!: bgood_frame frame_types frame_apply_hincr frame_command frame_record_result)
  show ?thesis unfolding apply_fresh_def
    by (intro bgood_on_ok bgood_cases f bgood_budget) (use assms in simp_all)
qed

definition no_reconcile :: "bytes \<Rightarrow> bool" where
  "no_reconcile cmd \<longleftrightarrow> (cmd \<noteq> [] \<longrightarrow> hd cmd \<noteq> opBudReconcile)"

lemma decode_no_reconcile: "decodeCommandInto b = Inr c \<Longrightarrow> no_reconcile b \<Longrightarrow> cmd_Op c \<noteq> opBudReconcile"
  by (cases b) (auto simp: decodeCommandInto_def no_reconcile_def split: if_splits sum.splits prod.splits)

lemma bgood_applyOne:
  assumes "bud_inv u" "no_reconcile cmd"
  shows "bgood (applyOne fl frozen cmd u)"
proof -
  have "bgood (apply_fresh fl d c u)" if c: "decodeCommandInto cmd = Inr c" for c d
  proof (rule bgood_fresh [OF assms(1) decode_cmd_ok [OF c]])
    show "\<forall>it \<in> set (cmd_Items c). length (item_Val it) < 2 ^ 32"
      using decodeCommand_ok(6) [of cmd c] c by (simp add: decodeCommand_def)
    show "cmd_Op c \<noteq> opBudReconcile" by (rule decode_no_reconcile [OF c assms(2)])
  qed
  then show ?thesis unfolding applyOne_def Let_def
    by (intro bgood_cases) (use assms in simp_all)
qed

lemma bgood_subs: "bud_inv u \<Longrightarrow> list_all no_reconcile cmds \<Longrightarrow> bgood (apply_subs fl frozen rs cmds u)"
  by (induction cmds arbitrary: rs u) (auto intro!: bgood_on_ok bgood_applyOne)

text \<open>An entry that carries no budget reconcile, alone or in a batch.\<close>

definition plain_budget :: "entry \<Rightarrow> bool" where
  "plain_budget e \<longleftrightarrow> no_migrate e \<and> no_reconcile (e_Cmd e) \<and>
     (case decodeBatch (e_Cmd e) of Inl _ \<Rightarrow> True | Inr cmds \<Rightarrow> list_all no_reconcile cmds)"

lemma bgood_wrap: "bgood r \<Longrightarrow> bgood (wrap_upd i r)"
  by (cases r; cases "fst r") (auto simp: wrap_upd_def)

lemma bgood_entry:
  assumes "bud_inv u" "plain_budget e"
  shows "bgood (applyEntry fl frozen e u)"
  unfolding applyEntry_def Let_def
  by (intro bgood_wrap bgood_cases bgood_on_ok bgood_subs bgood_applyOne bgood_frame [OF assms(1) frame_freeze])
    (use assms in \<open>auto simp: plain_budget_def no_migrate_def\<close>)

lemma bgood_entrySafe:
  assumes "bud_inv u" "plain_budget e"
  shows "bgood (applyEntrySafe fl frozen e u)"
  using bgood_entry [OF assms, of fl frozen] unfolding applyEntrySafe_def
  by (cases "applyEntry fl frozen e u"; cases "fst (applyEntry fl frozen e u)") (auto split: coll_error.splits)

lemma bgood_entries: "bud_inv u \<Longrightarrow> list_all plain_budget es \<Longrightarrow> bgood (apply_entries fl frozen es u)"
proof (induction es arbitrary: u)
  case Nil
  then show ?case by simp
next
  case (Cons e es)
  obtain x u' where x: "applyEntrySafe fl frozen e u = (x, u')" by fastforce
  have v: "ctx_restore (ctx_snapshot u) u' = u"
    using safe_applyEntrySafe [OF ctx_ext_refl, of u fl frozen e] x by (intro restore_snapshot) (simp add: safe_def)
  show ?case
  proof (cases x)
    case (Inl err)
    then show ?thesis using Cons.IH [of u] Cons.prems x v by (auto intro!: bgood_on_ok)
  next
    case (Inr r)
    then have "bud_inv u'" using bgood_entrySafe [OF Cons.prems(1), of e fl frozen] Cons.prems(2) x by simp
    then show ?thesis using Cons.IH [of u'] Cons.prems x Inr by (auto intro!: bgood_on_ok)
  qed
qed

definition shard_bud :: "base_sm \<Rightarrow> bool" where
  "shard_bud s \<longleftrightarrow> (\<forall>ns coll. name_ok ns \<longrightarrow> name_ok coll \<longrightarrow> bud_ok (coll_rows s ns coll))"

lemma shard_bud_ctx: "shard_inv s \<Longrightarrow> shard_bud s \<Longrightarrow> bud_inv (new_ctx s n)"
  by (simp add: bud_inv_def shard_inv_def shard_bud_def coll_rows_def) (simp add: new_ctx_def)

lemma Update_shard_bud:
  assumes "shard_inv s" "shard_bud s" "list_all plain_budget entries"
  shows "shard_bud (snd (Update fl s entries))"
proof (cases "entries = []")
  case True
  then show ?thesis using assms(2) by (simp add: Update_def)
next
  case ne: False
  let ?s = "snd (Update fl s entries)"
  have nm: "list_all no_migrate entries" using assms(3) by (auto simp: list_all_iff plain_budget_def)
  obtain frozen seq es u where run: "apply_entries fl frozen entries (new_ctx s seq) = (Inr es, u)" "u_s u = s"
    and rows: "\<And>ns coll sc x. name_ok ns \<Longrightarrow> name_ok coll \<Longrightarrow> sc \<noteq> scopeCard \<Longrightarrow>
        coll_rows ?s ns coll sc x = c_rows (proj u ns coll) sc x"
    by (rule Update_rows [OF assms(1) ne nm refl, of fl]) blast
  have u: "bud_inv u" using bgood_entries [OF shard_bud_ctx [OF assms(1,2), of seq] assms(3), of fl frozen] run(1) by simp
  have "bud_ok (coll_rows ?s ns coll)" if n: "name_ok ns" "name_ok coll" for ns coll
  proof -
    have "bud_ok (coll_rows ?s ns coll) = bud_ok (rows_of (u_s u) (eff u) ns coll)"
      by (rule bud_ok_cong) (use rows [OF n] in \<open>auto simp: rows_of_def bud_scopes_def\<close>)
    then show ?thesis using u n by (simp add: bud_inv_def)
  qed
  then show ?thesis by (simp add: shard_bud_def)
qed

text \<open>The shards that committed entries without migration and without reconcile lead to.\<close>

inductive budget_reach :: "float_lib \<Rightarrow> base_sm \<Rightarrow> base_sm \<Rightarrow> bool" for fl s0 where
  budget_start: "budget_reach fl s0 s0"
| budget_update: "\<lbrakk>budget_reach fl s0 s; list_all plain_budget entries; small (snd (Update fl s entries))\<rbrakk> \<Longrightarrow>
    budget_reach fl s0 (snd (Update fl s entries))"

lemma budget_reach_inv: "budget_reach fl s0 s \<Longrightarrow> shard_inv s0 \<Longrightarrow> shard_bud s0 \<Longrightarrow> shard_inv s \<and> shard_bud s"
proof (induction rule: budget_reach.induct)
  case (budget_update s entries)
  have "list_all no_migrate entries" using budget_update.hyps(2) by (auto simp: list_all_iff plain_budget_def)
  then show ?case using budget_update Update_shard_inv Update_shard_bud by blast
qed simp

lemma shard_bud_empty: "base s = Map.empty \<Longrightarrow> shard_bud s"
  by (simp add: shard_bud_def bud_ok_def coll_rows_def rows_of_def)

lemma pool_check_ledger:
  assumes "ledger p L"
  shows "pool_check p"
proof -
  have i: "0 \<le> sint (pl_LeasedOut p)" "0 \<le> sint (pl_Available p)" "0 \<le> sint (pl_Spent p)"
    "sint (pl_Cap p) = sint (pl_Available p) + sint (pl_LeasedOut p) + sint (pl_Spent p)"
    using assms leased_nonneg [OF assms] by (simp_all add: ledger_def)
  have "sint (pl_Available p + pl_LeasedOut p) = sint (pl_Available p) + sint (pl_LeasedOut p)"
    by (rule sint_add_64) (use i sint_64_less [of "pl_Cap p"] in linarith)+
  then have "sint (pl_Available p + pl_LeasedOut p + pl_Spent p) = sint (pl_Cap p)"
    using sint_add_64 [of "pl_Available p + pl_LeasedOut p" "pl_Spent p"] i sint_64_less [of "pl_Cap p"] by simp
  then have "pl_Available p + pl_LeasedOut p + pl_Spent p = pl_Cap p" by (simp only: sint_64_inject)
  then show ?thesis using i by (simp add: pool_check_def)
qed

text \<open>C2: A budget never over-commits: on every shard that committed entries without subrange migration and without
  reconcile lead to from an empty one, the conservation probe of every budget answers OK (available, leased out
  and spent are non-negative and add up to the cap, as 64-bit numbers), and what is leased out is the sum of what
  the live leases have not spent.\<close>

theorem budget_conserved:
  assumes "healthy s0" "base s0 = Map.empty" "budget_reach fl s0 s" "name_ok ns" "name_ok coll"
  shows "\<exists>b. Lookup s (budCheckQuery ns coll) = Inr (AnsBudCheck b) \<and>
    (bc_Exists b \<longrightarrow> bc_OK b \<and> sint (bc_LeasedOut b) = leased (lease_of (coll_rows s ns coll)))"
proof -
  have s: "shard_inv s" "shard_bud s"
    using budget_reach_inv [OF assms(3) shard_inv_empty shard_bud_empty] assms(1,2) by simp_all
  have h: "healthy s" and ok: "bud_ok (coll_rows s ns coll)" using s assms(4,5) by (simp_all add: shard_inv_def shard_bud_def)
  have row: "base s (budPoolKey s ns coll) = coll_rows s ns coll scopeBudPool []"
    by (simp add: coll_rows_def rows_of_def key_simps)
  show ?thesis
  proof (cases "coll_rows s ns coll scopeBudPool []")
    case None
    then show ?thesis by (simp add: Lookup_snap [OF h] lookup_snap_def lookupBudCheck_def snap_get_base row)
  next
    case (Some v)
    then obtain p where p: "decodePool v = Inr p" "ledger p (lease_of (coll_rows s ns coll))" using ok by (auto simp: bud_ok_def)
    then have "sint (pl_LeasedOut p) = leased (lease_of (coll_rows s ns coll))" by (simp add: ledger_def)
    then show ?thesis
      using Some p(1) pool_check_ledger [OF p(2)]
      by (simp add: Lookup_snap [OF h] lookup_snap_def lookupBudCheck_def snap_get_base row)
  qed
qed

definition bud_entry :: "opKind \<Rightarrow> bytes \<Rightarrow> bytes \<Rightarrow> entry" where
  "bud_entry op k v = \<lparr>e_Index = 1, e_Cmd = encodeCommand \<lparr>cmd_Op = op, cmd_NS = [1], cmd_Coll = [2], cmd_Idem = [],
     cmd_Items = [\<lparr>item_Key = k, item_Val = v, item_Score = 0, item_ExpiryMs = 0\<rparr>]\<rparr>, e_Result = result 0 []\<rparr>"

definition demo_budget :: "entry list" where
  "demo_budget = [bud_entry opBudInit ([modeStrict] @ putI64 100 @ putI64 0 @ putI64 0) [],
     bud_entry opBudGrant [7] (putI64 80 @ putI64 5 @ putI64 0)]"

lemma demo_budget_plain: "list_all plain_budget demo_budget"
  by code_simp

lemma demo_budget_small: "length (cfs (sm_store (snd (Update demo_float demo_shard demo_budget))) CFReplData) = 4"
  by code_simp

theorem budget_conserved_witness:
  "\<exists>b. Lookup (snd (Update demo_float demo_shard demo_budget)) (budCheckQuery [1] [2]) = Inr (AnsBudCheck b) \<and>
     (bc_Exists b \<longrightarrow> bc_OK b)"
proof -
  let ?s = "snd (Update demo_float demo_shard demo_budget)"
  have "budget_reach demo_float demo_shard ?s"
    by (rule budget_update [OF budget_start]) (simp_all add: demo_budget_plain small_def demo_budget_small)
  moreover have "base demo_shard = Map.empty" by (simp add: fun_eq_iff)
  ultimately show ?thesis using budget_conserved [of demo_shard demo_float ?s "[1]" "[2]"] by (auto simp: name_ok_def)
qed

end
