(* ===== verification/Coll_Directory.thy ===== *)
theory Coll_Directory
  imports Coll_Card
begin

text \<open>
  Routing of collections to shards: hash routing (\<open>src/internal/collections/directory.go\<close>), the meta shard's
  state machine and the range directory that caches it (meta.go), and the re-routing of stored rows to a new
  number of shards (reshard.go).

  The locale \<open>directory\<close> is the interface \<open>Directory\<close> with what the cross-shard enumeration relies on; the three
  implementations interpret it.  \<open>Refresh\<close> of the range directory takes the linearizable read of the Raft engine
  as an argument.
\<close>

section \<open>Hash routing\<close>

unbundle bit_operations_syntax

definition MetaShardID :: u64 where "MetaShardID = 1"
definition firstDataShard :: u64 where "firstDataShard = 2"

text \<open>FNV-1a on 64 bits, of the standard library.\<close>

definition fnv64a :: "bytes \<Rightarrow> u64" where
  "fnv64a b = foldl (\<lambda>h x. (h XOR ucast x) * 0x100000001b3) 0xcbf29ce484222325 b"

definition ShardForKey :: "bytes \<Rightarrow> bytes \<Rightarrow> u64 \<Rightarrow> u64" where
  "ShardForKey ns coll dataShards =
     (let dataShards = (if dataShards < 1 then 1 else dataShards)
      in firstDataShard + fnv64a (routeKey ns coll) mod dataShards)"

record single_shard =
  sg_id :: u64

definition SingleShardDirectory :: "u64 \<Rightarrow> single_shard" where
  "SingleShardDirectory i = \<lparr>sg_id = i\<rparr>"

definition singleShard_ShardFor :: "single_shard \<Rightarrow> bytes \<Rightarrow> bytes \<Rightarrow> u64" where
  "singleShard_ShardFor s ns coll = sg_id s"

definition singleShard_Shards :: "single_shard \<Rightarrow> u64 list" where
  "singleShard_Shards s = [sg_id s]"

record hash_directory =
  hd_n :: u64
  hd_shards :: "u64 list"

definition NewHashDirectory :: "u64 \<Rightarrow> hash_directory" where
  "NewHashDirectory n =
     (let n = (if n < 1 then 1 else n)
      in \<lparr>hd_n = n, hd_shards = map (\<lambda>i. firstDataShard + of_nat i) [0..<unat n]\<rparr>)"

definition HashDirectory_ShardFor :: "hash_directory \<Rightarrow> bytes \<Rightarrow> bytes \<Rightarrow> u64" where
  "HashDirectory_ShardFor h ns coll = ShardForKey ns coll (hd_n h)"

definition HashDirectory_Shards :: "hash_directory \<Rightarrow> u64 list" where
  "HashDirectory_Shards h = hd_shards h"

definition DataShardCount :: "hash_directory \<Rightarrow> u64" where
  "DataShardCount h = hd_n h"

text \<open>The replica id of a spot node, from its member id.\<close>

definition SpotReplicaID :: "bytes \<Rightarrow> u64" where
  "SpotReplicaID nodeID = (push_bit 40 1) OR (fnv64a nodeID AND (push_bit 40 1 - 1))"

section \<open>Re-routing stored rows\<close>

datatype reshard_error = errEmptySuffix | errUnknownSub byte | errShortSuffix byte | errUndecodable byte

definition nsCollOfSuffix :: "bytes \<Rightarrow> (bytes \<times> bytes) option" where
  "nsCollOfSuffix sfx =
     (case sfx of
        [] \<Rightarrow> None
      | b # rest \<Rightarrow>
        (case (if b = subData then Some rest
               else if b = subTTL \<or> b = subBudExp \<or> b = subBudTombGC
               then (if length sfx < 9 then None else Some (drop 9 sfx))
               else None) of
           None \<Rightarrow> None
         | Some body \<Rightarrow>
           (case takeChunk body of
              Inl _ \<Rightarrow> None
            | Inr (ns, rest) \<Rightarrow>
              (case takeChunk rest of Inl _ \<Rightarrow> None | Inr (coll, _) \<Rightarrow> Some (ns, coll)))))"

text \<open>The result is the target shard, \<open>None\<close> for a row that is dropped.\<close>

definition RerouteSuffix :: "bytes \<Rightarrow> u64 \<Rightarrow> reshard_error + u64 option" where
  "RerouteSuffix sfx newN =
     (if length sfx = 0 then Inl errEmptySuffix
      else let b = hd sfx in
        if b = subMeta \<or> b = subDedup \<or> b = subDedupRing then Inr None
        else if \<not> (b = subData \<or> b = subTTL \<or> b = subBudExp \<or> b = subBudTombGC) then Inl (errUnknownSub b)
        else if (b = subTTL \<or> b = subBudExp \<or> b = subBudTombGC) \<and> length sfx < 9 then Inl (errShortSuffix b)
        else (case nsCollOfSuffix sfx of
                None \<Rightarrow> Inl (errUndecodable b)
              | Some (ns, coll) \<Rightarrow> Inr (Some (ShardForKey ns coll newN))))"

definition NamespaceCollectionOfKey :: "bytes \<Rightarrow> (bytes \<times> bytes) option" where
  "NamespaceCollectionOfKey key =
     (if length key < 8 then None
      else if Uint64 (take 8 key) < firstDataShard then None
      else nsCollOfSuffix (drop 8 key))"

section \<open>The meta commands\<close>

type_synonym metaOp = byte

definition opMetaPut :: metaOp where "opMetaPut = 1"
definition opMetaDelete :: metaOp where "opMetaDelete = 2"
definition opBackupPut :: metaOp where "opBackupPut = 3"
definition opBackupDelete :: metaOp where "opBackupDelete = 4"
definition subBackup :: byte where "subBackup = 0x07"

lemmas meta_op_defs = opMetaPut_def opMetaDelete_def opBackupPut_def opBackupDelete_def

record meta_command =
  mc_Op :: metaOp
  mc_Start :: bytes
  mc_End :: bytes
  mc_ShardID :: u64

definition encodeMetaCommand :: "meta_command \<Rightarrow> bytes" where
  "encodeMetaCommand c =
     (let buf = [mc_Op c];
          buf = appendChunk buf (mc_Start c);
          buf = appendChunk buf (mc_End c)
      in buf @ PutUint64 (mc_ShardID c))"

definition decodeMetaCommand :: "bytes \<Rightarrow> coll_error + meta_command" where
  "decodeMetaCommand b =
     (if length b < 1 then Inl errShortCommand
      else
       (case takeChunk (drop 1 b) of Inl e \<Rightarrow> Inl e | Inr (start, rest) \<Rightarrow>
        (case takeChunk rest of Inl e \<Rightarrow> Inl e | Inr (stop, rest) \<Rightarrow>
          if length rest < 8 then Inl errShortCommand
          else Inr \<lparr>mc_Op = b ! 0, mc_Start = start, mc_End = stop, mc_ShardID = Uint64 (take 8 rest)\<rparr>)))"

section \<open>The meta state machine\<close>

record range_entry =
  re_Start :: bytes
  re_End :: bytes
  re_ShardID :: u64

definition newMetaSM :: "mem_store \<Rightarrow> u64 \<Rightarrow> base_sm" where
  "newMetaSM store shardID = newBaseSM store shardID"

definition rangeSpace :: "base_sm \<Rightarrow> bytes" where
  "rangeSpace m = sm_prefix m @ [subData]"

definition rangeKey :: "base_sm \<Rightarrow> bytes \<Rightarrow> bytes" where
  "rangeKey m start = rangeSpace m @ start"

definition backupSpace :: "base_sm \<Rightarrow> bytes" where
  "backupSpace m = sm_prefix m @ [subBackup]"

definition backupKey :: "base_sm \<Rightarrow> bytes \<Rightarrow> bytes" where
  "backupKey m key = backupSpace m @ key"

definition meta_op_row :: "base_sm \<Rightarrow> meta_command \<Rightarrow> coll_error + store_op" where
  "meta_op_row m c =
     (if mc_Op c = opMetaPut
      then Inr (put_op CFReplData (rangeKey m (mc_Start c)) (appendChunk [] (mc_End c) @ PutUint64 (mc_ShardID c)))
      else if mc_Op c = opMetaDelete then Inr (del_op CFReplData (rangeKey m (mc_Start c)))
      else if mc_Op c = opBackupPut then Inr (put_op CFReplData (backupKey m (mc_Start c)) (mc_End c))
      else if mc_Op c = opBackupDelete then Inr (del_op CFReplData (backupKey m (mc_Start c)))
      else Inl errUnknownMetaOp)"

fun meta_entries :: "base_sm \<Rightarrow> entry list \<Rightarrow> coll_error + (entry list \<times> store_op list)" where
  "meta_entries m [] = Inr ([], [])"
| "meta_entries m (e # es) =
     (case decodeMetaCommand (e_Cmd e) of
        Inl err \<Rightarrow> Inl err
      | Inr c \<Rightarrow>
        (case meta_op_row m c of
           Inl err \<Rightarrow> Inl err
         | Inr op \<Rightarrow>
           (case meta_entries m es of
              Inl err \<Rightarrow> Inl err
            | Inr (es, ops) \<Rightarrow> Inr (e\<lparr>e_Result := result 1 []\<rparr> # es, op # ops))))"

definition metaSM_Update :: "base_sm \<Rightarrow> entry list \<Rightarrow> (coll_error + entry list) \<times> base_sm" where
  "metaSM_Update m entries =
     (if entries = [] then (Inr entries, m)
      else case meta_entries m entries of
        Inl e \<Rightarrow> (Inl e, m)
      | Inr (es, ops) \<Rightarrow>
        (case MemStore_BatchRC (sm_store m) (ops @ [put_op CFReplData (appliedKey m) (PutUint64 (e_Index (last entries)))]) of
           (st, Some e) \<Rightarrow> (Inl (errStorage e), m\<lparr>sm_store := st\<rparr>)
         | (st, None) \<Rightarrow> (Inr es, m\<lparr>sm_store := st\<rparr>)))"

datatype meta_query = metaListQuery | metaBackupGetQuery bytes | metaBackupListQuery

datatype meta_answer =
    MetaRanges "range_entry list" | MetaBlob "bytes option" | MetaBlobs "(bytes \<times> bytes) list"

definition range_row :: "bytes \<Rightarrow> bytes \<times> bytes \<Rightarrow> range_entry option" where
  "range_row rs kv =
     (case takeChunk (snd kv) of
        Inl _ \<Rightarrow> None
      | Inr (stop, rest) \<Rightarrow>
        if length rest \<ge> 8
        then Some \<lparr>re_Start = drop (length rs) (fst kv), re_End = stop, re_ShardID = Uint64 (take 8 rest)\<rparr>
        else None)"

text \<open>A copy of an empty blob is \<open>nil\<close>, like an absent one.\<close>

definition metaSM_Lookup :: "base_sm \<Rightarrow> meta_query \<Rightarrow> coll_error + meta_answer" where
  "metaSM_Lookup m q =
     (case q of
        metaListQuery \<Rightarrow>
          (case MemStore_Snapshot (sm_store m) of
             Inl e \<Rightarrow> Inl (errStorage e)
           | Inr snap \<Rightarrow>
             (let rs = rangeSpace m in
              case memSnapshot_Scan snap CFReplData (Some rs) (prefixEnd rs) 0 of
                Inl e \<Rightarrow> Inl (errStorage e)
              | Inr rows \<Rightarrow> Inr (MetaRanges (List.map_filter (range_row rs) rows))))
      | metaBackupGetQuery key \<Rightarrow>
          (case MemStore_Get (sm_store m) CFReplData (backupKey m key) of
             Inl e \<Rightarrow> Inl (errStorage e)
           | Inr v \<Rightarrow> Inr (MetaBlob (if v = Some [] then None else v)))
      | metaBackupListQuery \<Rightarrow>
          (case MemStore_Snapshot (sm_store m) of
             Inl e \<Rightarrow> Inl (errStorage e)
           | Inr snap \<Rightarrow>
             (let bs = backupSpace m in
              case memSnapshot_Scan snap CFReplData (Some bs) (prefixEnd bs) 0 of
                Inl e \<Rightarrow> Inl (errStorage e)
              | Inr rows \<Rightarrow> Inr (MetaBlobs (map (\<lambda>(k, v). (drop (length bs) k, v)) rows)))))"

section \<open>The range directory\<close>

record range_directory =
  rd_metaShard :: u64
  rd_ranges :: "range_entry list"

definition NewRangeDirectory :: "u64 \<Rightarrow> range_directory" where
  "NewRangeDirectory metaShard = \<lparr>rd_metaShard = metaShard, rd_ranges = []\<rparr>"

text \<open>\<open>read\<close> is the linearizable \<open>Read\<close> of the Raft engine; an answer of another type leaves no ranges.\<close>

definition RangeDirectory_Refresh ::
  "(u64 \<Rightarrow> meta_query \<Rightarrow> coll_error + meta_answer) \<Rightarrow> range_directory \<Rightarrow> range_directory \<times> coll_error option" where
  "RangeDirectory_Refresh read d =
     (case read (rd_metaShard d) metaListQuery of
        Inl e \<Rightarrow> (d, Some e)
      | Inr (MetaRanges rs) \<Rightarrow> (d\<lparr>rd_ranges := rs\<rparr>, None)
      | Inr _ \<Rightarrow> (d\<lparr>rd_ranges := []\<rparr>, None))"

fun covering :: "range_entry list \<Rightarrow> bytes \<Rightarrow> range_entry option" where
  "covering [] key = None"
| "covering (r # rs) key = (if inRoute key (re_Start r) (re_End r) then Some r else covering rs key)"

definition RangeDirectory_ShardFor :: "range_directory \<Rightarrow> bytes \<Rightarrow> bytes \<Rightarrow> u64" where
  "RangeDirectory_ShardFor d ns coll =
     (case covering (rd_ranges d) (routeKey ns coll) of Some r \<Rightarrow> re_ShardID r | None \<Rightarrow> 0)"

definition rangeContaining :: "range_directory \<Rightarrow> bytes \<Rightarrow> range_entry option" where
  "rangeContaining d key = covering (rd_ranges d) key"

definition RangeDirectory_all :: "range_directory \<Rightarrow> range_entry list" where
  "RangeDirectory_all d = rd_ranges d"

fun distinct_shards :: "u64 set \<Rightarrow> range_entry list \<Rightarrow> u64 list" where
  "distinct_shards seen [] = []"
| "distinct_shards seen (r # rs) =
     (if re_ShardID r \<in> seen then distinct_shards seen rs
      else re_ShardID r # distinct_shards (insert (re_ShardID r) seen) rs)"

definition RangeDirectory_Shards :: "range_directory \<Rightarrow> u64 list" where
  "RangeDirectory_Shards d = distinct_shards {} (rd_ranges d)"

definition maxShardID :: "range_directory \<Rightarrow> u64" where
  "maxShardID d = foldl (\<lambda>mx r. if re_ShardID r > mx then re_ShardID r else mx) 0 (rd_ranges d)"

section \<open>The interface\<close>

text \<open>
  A directory that is \<open>ready\<close> routes every collection to one of its shards and lists no shard twice, so an
  enumeration over \<open>Shards\<close> meets the shard of each collection exactly once.
\<close>

locale directory =
  fixes ready :: "'d \<Rightarrow> bool"
    and shardFor :: "'d \<Rightarrow> bytes \<Rightarrow> bytes \<Rightarrow> u64"
    and shards :: "'d \<Rightarrow> u64 list"
  assumes routed: "ready d \<Longrightarrow> shardFor d ns coll \<in> set (shards d)"
    and no_repeat: "ready d \<Longrightarrow> distinct (shards d)"
begin

lemma enumerated_once: "ready d \<Longrightarrow> filter (\<lambda>s. s = shardFor d ns coll) (shards d) = [shardFor d ns coll]"
proof -
  assume r: "ready d"
  then obtain xs ys where xy: "shards d = xs @ shardFor d ns coll # ys"
    using routed split_list by metis
  then have "shardFor d ns coll \<notin> set xs" "shardFor d ns coll \<notin> set ys"
    using no_repeat [OF r] by auto
  then have "filter (\<lambda>s. s = shardFor d ns coll) xs = []" "filter (\<lambda>s. s = shardFor d ns coll) ys = []"
    by (auto simp: filter_empty_conv)
  then show ?thesis by (simp add: xy)
qed

end

lemma clamp: "(if n < 1 then 1 else n) = max n (1 :: u64)"
  by (metis max.absorb1 max.absorb4 not_less)

lemma NewHashDirectory_alt:
  "NewHashDirectory n = \<lparr>hd_n = max n 1, hd_shards = map (\<lambda>i. firstDataShard + of_nat i) [0..<unat (max n 1)]\<rparr>"
  unfolding NewHashDirectory_def clamp Let_def ..

lemma ShardForKey_range:
  "\<exists>i < unat (max n 1). ShardForKey ns coll n = firstDataShard + of_nat i"
proof (intro exI conjI)
  have pos: "0 < max n 1" by (simp add: less_max_iff_disj)
  show "unat (fnv64a (routeKey ns coll) mod max n 1) < unat (max n 1)"
    using word_mod_less_divisor [OF pos] by (simp add: word_less_nat_alt)
  show "ShardForKey ns coll n = firstDataShard + of_nat (unat (fnv64a (routeKey ns coll) mod max n 1))"
    unfolding ShardForKey_def clamp by simp
qed

lemma ShardForKey_max: "ShardForKey ns coll (max n 1) = ShardForKey ns coll n"
  unfolding ShardForKey_def clamp by simp

lemma of_nat_below_inj:
  "\<lbrakk>(of_nat x :: u64) = of_nat y; x < unat n; y < unat (n :: u64)\<rbrakk> \<Longrightarrow> x = y"
  using unsigned_less [of n] by (metis less_trans of_nat_inverse)

definition hash_ready :: "hash_directory \<Rightarrow> bool" where
  "hash_ready h \<longleftrightarrow> (\<exists>n. h = NewHashDirectory n)"

definition covers_all :: "range_entry list \<Rightarrow> bool" where
  "covers_all rs \<longleftrightarrow> (\<forall>key. covering rs key \<noteq> None)"

definition range_ready :: "range_directory \<Rightarrow> bool" where
  "range_ready d \<longleftrightarrow> covers_all (rd_ranges d)"

lemma set_distinct_shards: "set (distinct_shards seen rs) = re_ShardID ` set rs - seen"
  by (induction rs arbitrary: seen) auto

lemma distinct_distinct_shards: "distinct (distinct_shards seen rs)"
  by (induction rs arbitrary: seen) (simp_all add: set_distinct_shards)

lemma covering_Some: "covering rs key = Some r \<Longrightarrow> r \<in> set rs \<and> inRoute key (re_Start r) (re_End r)"
  by (induction rs) (auto split: if_splits)

interpretation single: directory "\<lambda>_. True" singleShard_ShardFor singleShard_Shards
  by unfold_locales (simp_all add: singleShard_ShardFor_def singleShard_Shards_def)

interpretation hash: directory hash_ready HashDirectory_ShardFor HashDirectory_Shards
proof unfold_locales
  fix d :: hash_directory and ns coll
  assume "hash_ready d"
  then obtain n where d: "d = NewHashDirectory n" by (auto simp: hash_ready_def)
  have m: "hd_n d = max n 1" "hd_shards d = map (\<lambda>i. firstDataShard + of_nat i) [0..<unat (max n 1)]"
    by (simp_all add: d NewHashDirectory_alt)
  show "HashDirectory_ShardFor d ns coll \<in> set (HashDirectory_Shards d)"
    using ShardForKey_range [of "max n 1" ns coll] by (auto simp: HashDirectory_ShardFor_def HashDirectory_Shards_def m)
  show "distinct (HashDirectory_Shards d)"
    using of_nat_below_inj by (auto simp: HashDirectory_Shards_def m distinct_map inj_on_def)
qed

interpretation range: directory range_ready RangeDirectory_ShardFor RangeDirectory_Shards
proof unfold_locales
  fix d :: range_directory and ns coll
  assume "range_ready d"
  then obtain r where r: "covering (rd_ranges d) (routeKey ns coll) = Some r"
    by (auto simp: range_ready_def covers_all_def)
  show "RangeDirectory_ShardFor d ns coll \<in> set (RangeDirectory_Shards d)"
    using covering_Some [OF r] by (auto simp: RangeDirectory_ShardFor_def RangeDirectory_Shards_def r set_distinct_shards)
  show "distinct (RangeDirectory_Shards d)"
    by (simp add: RangeDirectory_Shards_def distinct_distinct_shards)
qed

section \<open>Every row finds its shard\<close>

text \<open>The keys of the rows of one collection, and the bookkeeping keys of a shard.\<close>

definition collection_keys :: "base_sm \<Rightarrow> bytes \<Rightarrow> bytes \<Rightarrow> bytes set" where
  "collection_keys s ns coll =
     {cardKey s ns coll, typeKey s ns coll, budPoolKey s ns coll} \<union>
     {elemKey s ns coll m | m. length m < 2 ^ 31} \<union> {zscoreKey s ns coll f m | f m. length m < 2 ^ 31} \<union>
     {zptrKey s ns coll m | m. length m < 2 ^ 31} \<union> {ttlPtrKey s ns coll m | m. length m < 2 ^ 31} \<union>
     {budLeaseKey s ns coll m | m. length m < 2 ^ 31} \<union> {budTombKey s ns coll m | m. length m < 2 ^ 31} \<union>
     {ttlIndexKey s t ns coll m | t m. length m < 2 ^ 31} \<union>
     {budExpKey s t ns coll m | t m. length m < 2 ^ 31} \<union> {budTombGCKey s t ns coll m | t m. length m < 2 ^ 31}"

definition local_keys :: "base_sm \<Rightarrow> bytes set" where
  "local_keys s = {appliedKey s, dedupSeqKey s} \<union> range (dedupKey s) \<union> range (dedupRingKey s) \<union> range (frozenKey s)"

lemma nsCollOfSuffix_keys:
  assumes "length ns + length coll + length m < 2 ^ 32 - 32"
  shows "nsCollOfSuffix (subData # chunk ns @ chunk coll @ m) = Some (ns, coll)"
    "b \<in> {subTTL, subBudExp, subBudTombGC} \<Longrightarrow> nsCollOfSuffix (b # PutUint64 t @ chunk ns @ chunk coll @ m) = Some (ns, coll)"
  using assms by (auto simp: nsCollOfSuffix_def sub_defs drop_Suc)

lemma length_sub_key [simp]: "length (sub_key s b rest) = Suc (length (sm_prefix s) + length rest)"
  by (simp add: sub_key_def)

lemma sub_key_suffix [simp]: "drop (length (sm_prefix s)) (sub_key s b rest) = b # rest"
  by (simp add: sub_key_def)

lemma collection_key_cases:
  assumes "k \<in> collection_keys s ns coll"
  shows "(\<exists>m. k = sub_key s subData (chunk ns @ chunk coll @ m) \<and> length m < 2 ^ 31 + 16) \<or>
    (\<exists>b t m. b \<in> {subTTL, subBudExp, subBudTombGC} \<and> length m < 2 ^ 31 \<and>
       k = sub_key s b (PutUint64 t @ chunk ns @ chunk coll @ m))"
  using assms by (auto simp: collection_keys_def key_simps scope_key_def length_sortableScore)

text \<open>C34: Re-routing a stored row to \<open>n\<close> data shards sends every row of a collection, whatever its kind, to the
  shard that the hash directory over \<open>n\<close> shards routes the collection to, one of the listed shards, and drops
  exactly the bookkeeping rows of the shard.
\<close>

theorem RerouteSuffix_routes:
  assumes "length ns + length coll < 2 ^ 31 - 64"
  shows "(\<forall>k \<in> collection_keys s ns coll. RerouteSuffix (drop (length (sm_prefix s)) k) n =
      Inr (Some (HashDirectory_ShardFor (NewHashDirectory n) ns coll))) \<and>
    (\<forall>k \<in> local_keys s. RerouteSuffix (drop (length (sm_prefix s)) k) n = Inr None) \<and>
    HashDirectory_ShardFor (NewHashDirectory n) ns coll \<in> set (HashDirectory_Shards (NewHashDirectory n))"
proof (intro conjI ballI)
  have sf: "HashDirectory_ShardFor (NewHashDirectory n) ns coll = ShardForKey ns coll n"
    by (simp add: HashDirectory_ShardFor_def NewHashDirectory_alt ShardForKey_max)
  fix k
  show "RerouteSuffix (drop (length (sm_prefix s)) k) n =
      Inr (Some (HashDirectory_ShardFor (NewHashDirectory n) ns coll))" if "k \<in> collection_keys s ns coll"
    using collection_key_cases [OF that] assms
    by (elim disjE exE conjE) (auto simp: RerouteSuffix_def nsCollOfSuffix_keys sf)
  show "RerouteSuffix (drop (length (sm_prefix s)) k) n = Inr None" if "k \<in> local_keys s"
    using that by (auto simp: local_keys_def key_simps RerouteSuffix_def)
  show "HashDirectory_ShardFor (NewHashDirectory n) ns coll \<in> set (HashDirectory_Shards (NewHashDirectory n))"
    by (rule hash.routed) (auto simp: hash_ready_def)
qed

section \<open>The meta shard as a map\<close>

lemma encodeMetaCommand_bytes:
  "encodeMetaCommand c = mc_Op c # chunk (mc_Start c) @ chunk (mc_End c) @ PutUint64 (mc_ShardID c)"
  by (simp add: encodeMetaCommand_def appendChunk_chunk)

lemma decodeMeta_encodeMeta:
  "length (encodeMetaCommand c) < 2 ^ 32 \<Longrightarrow> decodeMetaCommand (encodeMetaCommand c) = Inr c"
  by (simp add: decodeMetaCommand_def encodeMetaCommand_bytes)

definition range_value :: "bytes \<Rightarrow> (bytes \<times> u64) option" where
  "range_value v =
     (case takeChunk v of Inl _ \<Rightarrow> None
      | Inr (stop, rest) \<Rightarrow> if length rest \<ge> 8 then Some (stop, Uint64 (take 8 rest)) else None)"

definition meta_abs :: "base_sm \<Rightarrow> (bytes \<Rightarrow> (bytes \<times> u64) option) \<times> (bytes \<Rightarrow> bytes option)" where
  "meta_abs m = (\<lambda>start. Option.bind (base m (rangeKey m start)) range_value, \<lambda>key. base m (backupKey m key))"

text \<open>A meta command on the directory and the backup catalog.\<close>

definition spec_meta ::
  "(bytes \<Rightarrow> (bytes \<times> u64) option) \<times> (bytes \<Rightarrow> bytes option) \<Rightarrow> meta_command \<Rightarrow>
     (bytes \<Rightarrow> (bytes \<times> u64) option) \<times> (bytes \<Rightarrow> bytes option)" where
  "spec_meta a c = (case a of (R, B) \<Rightarrow>
     if mc_Op c = opMetaPut then (R(mc_Start c \<mapsto> (mc_End c, mc_ShardID c)), B)
     else if mc_Op c = opMetaDelete then (R(mc_Start c := None), B)
     else if mc_Op c = opBackupPut then (R, B(mc_Start c \<mapsto> mc_End c))
     else (R, B(mc_Start c := None)))"

definition meta_ok :: "meta_command \<Rightarrow> bool" where
  "meta_ok c \<longleftrightarrow> mc_Op c \<in> {opMetaPut, opMetaDelete, opBackupPut, opBackupDelete} \<and> length (encodeMetaCommand c) < 2 ^ 32"

lemma meta_keys [key_simps]:
  "rangeKey m start = sub_key m subData start" "backupKey m key = sub_key m subBackup key"
  by (simp_all add: rangeKey_def rangeSpace_def backupKey_def backupSpace_def sub_key_def)

lemma subBackup_neq [simp]: "subBackup \<noteq> subData" "subData \<noteq> subBackup" "subBackup \<noteq> subMeta" "subMeta \<noteq> subBackup"
  by (simp_all add: subBackup_def sub_defs)

lemma range_value_put: "length b + 8 < 2 ^ 32 \<Longrightarrow> range_value (chunk b @ PutUint64 w) = Some (b, w)"
  by (simp add: range_value_def)

definition rows_abs :: "base_sm \<Rightarrow> (bytes \<Rightarrow> bytes option) \<Rightarrow> (bytes \<Rightarrow> (bytes \<times> u64) option) \<times> (bytes \<Rightarrow> bytes option)" where
  "rows_abs m v = (\<lambda>start. Option.bind (v (rangeKey m start)) range_value, \<lambda>key. v (backupKey m key))"

lemma meta_abs_rows: "meta_abs m = rows_abs m (base m)"
  by (simp add: meta_abs_def rows_abs_def)

lemma op_CF_row: "op_CF (put_op cf k v) = cf" "op_CF (del_op cf k) = cf"
  by (simp_all add: put_op_def del_op_def)

lemma meta_op_row_abs:
  assumes "meta_ok c"
  shows "\<exists>op. meta_op_row m c = Inr op \<and> op_CF op = CFReplData \<and>
    rows_abs m (view_op v op CFReplData) = spec_meta (rows_abs m (v CFReplData)) c"
  using assms
  by (auto simp: meta_ok_def meta_op_row_def rows_abs_def spec_meta_def meta_op_defs key_simps view_simps fun_eq_iff
      appendChunk_chunk range_value_put encodeMetaCommand_bytes op_CF_row)

lemma meta_entries_abs:
  assumes "map e_Cmd entries = map encodeMetaCommand cs" "\<forall>c \<in> set cs. meta_ok c"
  shows "\<exists>es ops. meta_entries m entries = Inr (es, ops) \<and> length es = length entries \<and>
    (\<forall>op \<in> set ops. op_CF op = CFReplData) \<and>
    rows_abs m (view_ops v ops CFReplData) = foldl spec_meta (rows_abs m (v CFReplData)) cs"
  using assms
proof (induction entries arbitrary: cs v)
  case Nil
  then show ?case by (simp add: view_ops_Nil)
next
  case (Cons e es)
  then obtain c cs' where cs: "cs = c # cs'" "e_Cmd e = encodeMetaCommand c" "map e_Cmd es = map encodeMetaCommand cs'"
    by (cases cs) auto
  with Cons.prems have ok: "meta_ok c" "\<forall>c \<in> set cs'. meta_ok c" by auto
  obtain op where op: "meta_op_row m c = Inr op" "op_CF op = CFReplData"
    "rows_abs m (view_op v op CFReplData) = spec_meta (rows_abs m (v CFReplData)) c"
    using meta_op_row_abs [OF ok(1)] by blast
  obtain es' ops where "meta_entries m es = Inr (es', ops)" "length es' = length es" "\<forall>op \<in> set ops. op_CF op = CFReplData"
    "rows_abs m (view_ops (view_op v op) ops CFReplData) = foldl spec_meta (rows_abs m (view_op v op CFReplData)) cs'"
    using Cons.IH [OF cs(3) ok(2), of "view_op v op"] by blast
  then show ?case
    using op ok(1) by (simp add: cs decodeMeta_encodeMeta meta_ok_def view_ops_Cons)
qed

lemma metaSM_Update_abs:
  assumes "healthy m" "map e_Cmd entries = map encodeMetaCommand cs" "\<forall>c \<in> set cs. meta_ok c"
  shows "\<exists>es m'. metaSM_Update m entries = (Inr es, m') \<and> length es = length entries \<and> healthy m' \<and>
    sm_prefix m' = sm_prefix m \<and> meta_abs m' = foldl spec_meta (meta_abs m) cs"
proof (cases "entries = []")
  case True
  then show ?thesis using assms by (simp add: metaSM_Update_def)
next
  case False
  let ?app = "put_op CFReplData (appliedKey m) (PutUint64 (e_Index (last entries)))"
  obtain es ops where e: "meta_entries m entries = Inr (es, ops)" "length es = length entries"
    "\<forall>op \<in> set ops. op_CF op = CFReplData"
    "rows_abs m (view_ops (mem_view (sm_store m)) ops CFReplData) = foldl spec_meta (meta_abs m) cs"
    using meta_entries_abs [OF assms(2,3), of m "mem_view (sm_store m)"] by (auto simp: meta_abs_rows base_def)
  obtain st where st: "MemStore_BatchRC (sm_store m) (ops @ [?app]) = (st, None)" "mem_invar st"
    "mem_view st = view_ops (mem_view (sm_store m)) (ops @ [?app])"
    using mem.batch_view [of "sm_store m" "ops @ [?app]"] assms(1) e(3) by (auto simp: healthy_def put_op_def)
  have "base (m\<lparr>sm_store := st\<rparr>) = (view_ops (mem_view (sm_store m)) ops CFReplData)(appliedKey m \<mapsto> PutUint64 (e_Index (last entries)))"
    by (simp add: base_def st(3) view_ops_append view_ops_Cons view_ops_Nil view_simps)
  then have "meta_abs (m\<lparr>sm_store := st\<rparr>) = foldl spec_meta (meta_abs m) cs"
    using e(4) by (simp add: meta_abs_def rows_abs_def key_simps sub_key_def)
  then show ?thesis using False e(1,2) st(1,2) by (simp add: metaSM_Update_def healthy_def)
qed

lemma range_row_value:
  "range_row rs kv = map_option (\<lambda>(stop, sh). \<lparr>re_Start = drop (length rs) (fst kv), re_End = stop, re_ShardID = sh\<rparr>)
     (range_value (snd kv))"
  by (simp add: range_row_def range_value_def split: sum.splits prod.splits)

lemma map_filter_map: "List.map_filter f (map g xs) = List.map_filter (f \<circ> g) xs"
  by (simp add: List.map_filter_def comp_def filter_map)

lemma set_map_filter: "set (List.map_filter f xs) = {y. \<exists>x \<in> set xs. f x = Some y}"
  by (force simp: List.map_filter_def)

lemma sorted_map_filter:
  assumes "sorted_wrt (<) (xs :: bytes list)" "\<And>x y. f x = Some y \<Longrightarrow> key y = x"
  shows "sorted_wrt (<) (map key (List.map_filter f xs))"
  using assms(1)
proof (induction xs)
  case (Cons x xs)
  have "key y \<in> set xs" if "y \<in> set (List.map_filter f xs)" for y
    using that assms(2) by (auto simp: List.map_filter_def)
  then show ?case
    using Cons by (auto simp: List.map_filter_simps assms(2) split: option.splits)
qed (simp add: List.map_filter_simps)

lemma metaSM_list:
  assumes "healthy m"
  shows "\<exists>rs. metaSM_Lookup m metaListQuery = Inr (MetaRanges rs) \<and> sorted_wrt (<) (map re_Start rs) \<and>
    set rs = {\<lparr>re_Start = start, re_End = stop, re_ShardID = sh\<rparr> | start stop sh. fst (meta_abs m) start = Some (stop, sh)}"
proof -
  let ?p = "rangeSpace m"
  obtain ks where ks: "snap_rows (cfs (sm_store m)) ?p (prefixEnd ?p) 0 = Inr (map (\<lambda>x. (?p @ x, the (base m (?p @ x)))) ks)"
    "sorted_wrt (<) ks" "set ks = {x. base m (?p @ x) \<noteq> None}" by (rule prefix_rows [OF assms])
  define f where "f x = map_option (\<lambda>(stop, sh). \<lparr>re_Start = x, re_End = stop, re_ShardID = sh\<rparr>) (range_value (the (base m (?p @ x))))" for x
  have "List.map_filter (range_row ?p) (map (\<lambda>x. (?p @ x, the (base m (?p @ x)))) ks) = List.map_filter f ks"
    unfolding map_filter_map by (rule arg_cong [where f = "\<lambda>g. List.map_filter g ks"]) (simp add: fun_eq_iff range_row_value f_def)
  then have "metaSM_Lookup m metaListQuery = Inr (MetaRanges (List.map_filter f ks))"
    using ks(1) assms
    by (auto simp: metaSM_Lookup_def snap_rows_def MemStore_Snapshot_def healthy_def mem_invar_def memSnapshot_Scan_def Let_def)
  moreover have "sorted_wrt (<) (map re_Start (List.map_filter f ks))"
    by (rule sorted_map_filter [OF ks(2)]) (auto simp: f_def)
  moreover have "set (List.map_filter f ks) =
      {\<lparr>re_Start = start, re_End = stop, re_ShardID = sh\<rparr> | start stop sh. fst (meta_abs m) start = Some (stop, sh)}"
    by (auto simp: set_map_filter ks(3) f_def meta_abs_def rangeKey_def bind_eq_Some_conv split: option.splits)
  ultimately show ?thesis by blast
qed

text \<open>C33: Committing meta commands changes the range directory and the backup catalog like the abstract map
  operations, and a directory refreshed by a linearizable read afterwards holds exactly the ranges of that map,
  in ascending order of their start keys.
\<close>

theorem meta_directory_refines:
  assumes "healthy m" "map e_Cmd entries = map encodeMetaCommand cs" "\<forall>c \<in> set cs. meta_ok c"
  shows "\<exists>es m' d'. metaSM_Update m entries = (Inr es, m') \<and> healthy m' \<and>
    meta_abs m' = foldl spec_meta (meta_abs m) cs \<and>
    RangeDirectory_Refresh (\<lambda>_. metaSM_Lookup m') d = (d', None) \<and> sorted_wrt (<) (map re_Start (rd_ranges d')) \<and>
    set (rd_ranges d') =
      {\<lparr>re_Start = start, re_End = stop, re_ShardID = sh\<rparr> | start stop sh. fst (meta_abs m') start = Some (stop, sh)}"
proof -
  obtain es m' where m': "metaSM_Update m entries = (Inr es, m')" "healthy m'"
    "meta_abs m' = foldl spec_meta (meta_abs m) cs" using metaSM_Update_abs [OF assms] by blast
  obtain rs where "metaSM_Lookup m' metaListQuery = Inr (MetaRanges rs)" "sorted_wrt (<) (map re_Start rs)"
    "set rs = {\<lparr>re_Start = start, re_End = stop, re_ShardID = sh\<rparr> | start stop sh. fst (meta_abs m') start = Some (stop, sh)}"
    using metaSM_list [OF m'(2)] by blast
  then show ?thesis using m' by (intro exI conjI) (auto simp: RangeDirectory_Refresh_def)
qed

definition demo_meta :: base_sm where
  "demo_meta = newMetaSM NewMemStore MetaShardID"

definition demo_split :: "meta_command list" where
  "demo_split = [\<lparr>mc_Op = opMetaPut, mc_Start = [], mc_End = [5], mc_ShardID = 2\<rparr>,
     \<lparr>mc_Op = opMetaPut, mc_Start = [5], mc_End = [], mc_ShardID = 3\<rparr>]"

definition demo_entry :: "bytes \<Rightarrow> entry" where
  "demo_entry cmd = \<lparr>e_Index = 1, e_Cmd = cmd, e_Result = result 0 []\<rparr>"

theorem meta_directory_refines_witness:
  "\<exists>es m' d'. metaSM_Update demo_meta (map (\<lambda>c. demo_entry (encodeMetaCommand c)) demo_split) = (Inr es, m') \<and>
    RangeDirectory_Refresh (\<lambda>_. metaSM_Lookup m') (NewRangeDirectory MetaShardID) = (d', None) \<and>
    fst (meta_abs m') [5] = Some ([], 3)"
proof -
  have h: "healthy demo_meta" by (simp add: demo_meta_def newMetaSM_def newBaseSM_def healthy_def)
  have cmds: "map e_Cmd (map (\<lambda>c. demo_entry (encodeMetaCommand c)) demo_split) = map encodeMetaCommand demo_split"
    by (simp add: demo_entry_def)
  have ok: "\<forall>c \<in> set demo_split. meta_ok c"
    by (simp add: demo_split_def meta_ok_def encodeMetaCommand_bytes)
  have spec: "fst (foldl spec_meta (meta_abs demo_meta) demo_split) [5] = Some ([], 3)"
    by (simp add: demo_split_def spec_meta_def split: prod.splits)
  show ?thesis
    using meta_directory_refines [OF h cmds ok, of "NewRangeDirectory MetaShardID"] spec by metis
qed

theorem RerouteSuffix_routes_witness:
  "RerouteSuffix (drop 8 (cardKey demo_shard [1] [2])) 16 =
     Inr (Some (HashDirectory_ShardFor (NewHashDirectory 16) [1] [2])) \<and>
   RerouteSuffix (drop 8 (appliedKey demo_shard)) 16 = Inr None"
  using RerouteSuffix_routes [of "[1]" "[2]" demo_shard 16] by (auto simp: collection_keys_def local_keys_def)

end
