(* ===== verification/Coll_Control.thy ===== *)
theory Coll_Control
  imports Coll_Directory
begin

text \<open>
  Splitting and merging the ranges of the collections tier, \<open>src/internal/collections/control.go\<close>.

  The Raft engine behind the manager is the argument \<open>rf\<close>: starting a shard, waiting for its leader, proposing
  a command and reading linearizably, each on an engine state.  \<open>raft_laws\<close> is what the code relies on: a
  successful proposal has been applied by the state machine of its shard and by no other, and a linearizable
  read answers from the committed state.
\<close>

section \<open>The control plane\<close>

record 'e raft =
  rf_StartShard :: "'e \<Rightarrow> u64 \<Rightarrow> u64 \<Rightarrow> (u64 \<times> bytes) list \<Rightarrow> 'e \<times> coll_error option"
  rf_waitLeader :: "'e \<Rightarrow> u64 \<Rightarrow> 'e \<times> coll_error option"
  rf_Propose :: "'e \<Rightarrow> u64 \<Rightarrow> bytes \<Rightarrow> 'e \<times> (coll_error + propose_result)"
  rf_Read :: "'e \<Rightarrow> u64 \<Rightarrow> coll_query \<Rightarrow> coll_error + coll_answer"
  rf_ReadMeta :: "'e \<Rightarrow> u64 \<Rightarrow> meta_query \<Rightarrow> coll_error + meta_answer"

datatype control_error =
    ctlErr coll_error | errSplitHashMode | errEmptySplitKey | errNoRange | errSplitNoop
  | errMergeHashMode | errEmptyBoundary | errNotAdjacent | errSameShard

text \<open>In hash mode there is no range directory.\<close>

record control =
  ct_dir :: "range_directory option"

definition ingestBatch :: nat where "ingestBatch = 256"

function ingestInto :: "'e raft \<Rightarrow> u64 \<Rightarrow> rawKV list \<Rightarrow> 'e \<Rightarrow> 'e \<times> coll_error option" where
  "ingestInto rf shard kvs e =
     (if kvs = [] then (e, None)
      else case rf_Propose rf e shard (encodeIngest (take ingestBatch kvs)) of
        (e, Inl err) \<Rightarrow> (e, Some err)
      | (e, Inr _) \<Rightarrow> ingestInto rf shard (drop ingestBatch kvs) e)"
  by pat_completeness auto
termination
  by (relation "measure (\<lambda>(rf, shard, kvs, e). length kvs)") (auto simp: ingestBatch_def)

declare ingestInto.simps [simp del]

text \<open>A step of \<open>Split\<close> and \<open>Merge\<close>: an error ends the operation, the engine keeps what was done.\<close>

type_synonym ('e, 'a) ctl = "(control_error + 'a) \<times> control \<times> 'e"

definition started :: "control \<Rightarrow> 'e \<times> coll_error option \<Rightarrow> ('e \<Rightarrow> ('e, 'a) ctl) \<Rightarrow> ('e, 'a) ctl" where
  "started c r k = (case r of (e, Some err) \<Rightarrow> (Inl (ctlErr err), c, e) | (e, None) \<Rightarrow> k e)"

definition proposed ::
  "control \<Rightarrow> 'e \<times> (coll_error + propose_result) \<Rightarrow> ('e \<Rightarrow> ('e, 'a) ctl) \<Rightarrow> ('e, 'a) ctl" where
  "proposed c r k = (case r of (e, Inl err) \<Rightarrow> (Inl (ctlErr err), c, e) | (e, Inr _) \<Rightarrow> k e)"

definition refreshed ::
  "'e raft \<Rightarrow> range_directory \<Rightarrow> 'e \<Rightarrow> (range_directory \<Rightarrow> control \<Rightarrow> ('e, 'a) ctl) \<Rightarrow> ('e, 'a) ctl" where
  "refreshed rf d e k =
     (case RangeDirectory_Refresh (rf_ReadMeta rf e) d of
        (d, Some err) \<Rightarrow> (Inl (ctlErr err), \<lparr>ct_dir = Some d\<rparr>, e)
      | (d, None) \<Rightarrow> k d \<lparr>ct_dir = Some d\<rparr>)"

definition raw_of :: "coll_answer \<Rightarrow> rawKV list" where
  "raw_of a = (case a of AnsRaw kvs \<Rightarrow> kvs | _ \<Rightarrow> [])"

definition migrated ::
  "control \<Rightarrow> 'e raft \<Rightarrow> u64 \<Rightarrow> bytes \<Rightarrow> bytes \<Rightarrow> 'e \<Rightarrow> (rawKV list \<Rightarrow> ('e, 'a) ctl) \<Rightarrow> ('e, 'a) ctl" where
  "migrated c rf shard start stop e k =
     (case rf_Read rf e shard (migrateScanQuery start stop 0) of
        Inl err \<Rightarrow> (Inl (ctlErr err), c, e)
      | Inr a \<Rightarrow> k (raw_of a))"

definition meta_put :: "bytes \<Rightarrow> bytes \<Rightarrow> u64 \<Rightarrow> bytes" where
  "meta_put start stop shard =
     encodeMetaCommand \<lparr>mc_Op = opMetaPut, mc_Start = start, mc_End = stop, mc_ShardID = shard\<rparr>"

definition meta_delete :: "bytes \<Rightarrow> bytes" where
  "meta_delete start = encodeMetaCommand \<lparr>mc_Op = opMetaDelete, mc_Start = start, mc_End = [], mc_ShardID = 0\<rparr>"

definition Split ::
  "'e raft \<Rightarrow> control \<Rightarrow> bytes \<Rightarrow> u64 \<Rightarrow> (u64 \<times> bytes) list \<Rightarrow> 'e \<Rightarrow> ('e, u64) ctl" where
  "Split rf c splitKey replicaID newMembers e =
     (case ct_dir c of
        None \<Rightarrow> (Inl errSplitHashMode, c, e)
      | Some d \<Rightarrow>
        if length splitKey = 0 then (Inl errEmptySplitKey, c, e)
        else refreshed rf d e (\<lambda>d c.
          case rangeContaining d splitKey of
            None \<Rightarrow> (Inl errNoRange, c, e)
          | Some old \<Rightarrow>
            if re_Start old = splitKey then (Inl errSplitNoop, c, e)
            else let newShard = maxShardID d + 1 in
              started c (rf_StartShard rf e newShard replicaID newMembers) (\<lambda>e.
              started c (rf_waitLeader rf e newShard) (\<lambda>e.
              proposed c (rf_Propose rf e (re_ShardID old) (encodeFreeze splitKey (re_End old))) (\<lambda>e.
              migrated c rf (re_ShardID old) splitKey (re_End old) e (\<lambda>kvs.
              started c (ingestInto rf newShard kvs e) (\<lambda>e.
              proposed c (rf_Propose rf e MetaShardID (meta_put (re_Start old) splitKey (re_ShardID old))) (\<lambda>e.
              proposed c (rf_Propose rf e MetaShardID (meta_put splitKey (re_End old) newShard)) (\<lambda>e.
              proposed c (rf_Propose rf e (re_ShardID old) (encodePurge splitKey (re_End old))) (\<lambda>e.
              refreshed rf d e (\<lambda>d c. (Inr newShard, c, e))))))))))))"

text \<open>The last range that ends at the boundary and the last that starts there.\<close>

definition find_left :: "bytes \<Rightarrow> range_entry list \<Rightarrow> range_entry option" where
  "find_left boundary rs =
     foldl (\<lambda>l r. if length (re_End r) > 0 \<and> re_End r = boundary then Some r else l) None rs"

definition find_right :: "bytes \<Rightarrow> range_entry list \<Rightarrow> range_entry option" where
  "find_right boundary rs = foldl (\<lambda>l r. if re_Start r = boundary then Some r else l) None rs"

definition Merge :: "'e raft \<Rightarrow> control \<Rightarrow> bytes \<Rightarrow> 'e \<Rightarrow> ('e, unit) ctl" where
  "Merge rf c boundary e =
     (case ct_dir c of
        None \<Rightarrow> (Inl errMergeHashMode, c, e)
      | Some d \<Rightarrow>
        if length boundary = 0 then (Inl errEmptyBoundary, c, e)
        else refreshed rf d e (\<lambda>d c.
          case (find_left boundary (RangeDirectory_all d), find_right boundary (RangeDirectory_all d)) of
            (Some left, Some right) \<Rightarrow>
              if re_ShardID left = re_ShardID right then (Inl errSameShard, c, e)
              else
                migrated c rf (re_ShardID right) (re_Start right) (re_End right) e (\<lambda>kvs.
                started c (ingestInto rf (re_ShardID left) kvs e) (\<lambda>e.
                proposed c (rf_Propose rf e (re_ShardID left) (encodeUnfreeze (re_Start right) (re_End right))) (\<lambda>e.
                proposed c (rf_Propose rf e MetaShardID (meta_put (re_Start left) (re_End right) (re_ShardID left))) (\<lambda>e.
                proposed c (rf_Propose rf e MetaShardID (meta_delete (re_Start right))) (\<lambda>e.
                proposed c (rf_Propose rf e (re_ShardID right) (encodePurge (re_Start right) (re_End right))) (\<lambda>e.
                refreshed rf d e (\<lambda>d c. (Inr (), c, e))))))))
          | _ \<Rightarrow> (Inl errNotAdjacent, c, e)))"

section \<open>What the engine promises\<close>

text \<open>
  \<open>view e sh\<close> is the state machine of shard \<open>sh\<close> after the commands committed in \<open>e\<close>; \<open>good\<close> are the states of
  an engine whose stores are open.
\<close>

definition shard_row :: "('e \<Rightarrow> u64 \<Rightarrow> base_sm) \<Rightarrow> 'e \<Rightarrow> u64 \<Rightarrow> bytes \<Rightarrow> bytes option" where
  "shard_row view e sh sfx = base (view e sh) (PutUint64 sh @ sfx)"

definition applied_by :: "float_lib \<Rightarrow> ('e \<Rightarrow> u64 \<Rightarrow> base_sm) \<Rightarrow> u64 \<Rightarrow> bytes \<Rightarrow> 'e \<Rightarrow> 'e \<Rightarrow> bool" where
  "applied_by fl view sh cmd e e' \<longleftrightarrow>
     (\<exists>en es. e_Cmd en = cmd \<and>
        (if sh = MetaShardID then metaSM_Update (view e sh) [en] else Update fl (view e sh) [en]) = (Inr es, view e' sh)) \<and>
     (\<forall>sh' sfx. sh' \<noteq> sh \<longrightarrow> shard_row view e' sh' sfx = shard_row view e sh' sfx)"

definition raft_laws :: "float_lib \<Rightarrow> 'e raft \<Rightarrow> ('e \<Rightarrow> bool) \<Rightarrow> ('e \<Rightarrow> u64 \<Rightarrow> base_sm) \<Rightarrow> bool" where
  "raft_laws fl rf good view \<longleftrightarrow>
     (\<forall>e sh. good e \<longrightarrow> healthy (view e sh) \<and> sm_prefix (view e sh) = PutUint64 sh) \<and>
     (\<forall>e sh i ms e'. good e \<longrightarrow> rf_StartShard rf e sh i ms = (e', None) \<longrightarrow> good e' \<and> view e' = view e) \<and>
     (\<forall>e sh e'. good e \<longrightarrow> rf_waitLeader rf e sh = (e', None) \<longrightarrow> good e' \<and> view e' = view e) \<and>
     (\<forall>e sh cmd e' r. good e \<longrightarrow> rf_Propose rf e sh cmd = (e', Inr r) \<longrightarrow> good e' \<and> applied_by fl view sh cmd e e') \<and>
     (\<forall>e sh q a. good e \<longrightarrow> rf_Read rf e sh q = Inr a \<longrightarrow> Lookup (view e sh) q = Inr a) \<and>
     (\<forall>e sh q a. good e \<longrightarrow> rf_ReadMeta rf e sh q = Inr a \<longrightarrow> metaSM_Lookup (view e sh) q = Inr a)"

section \<open>The effect of a control command on a shard\<close>

text \<open>The rows of a shard that belong to a collection, by routing key.\<close>

definition in_sub :: "bytes \<Rightarrow> bytes \<Rightarrow> bytes \<Rightarrow> bool" where
  "in_sub start stop sfx \<longleftrightarrow> (case routeKeyOf sfx of None \<Rightarrow> False | Some rk \<Rightarrow> inRoute rk start stop)"

definition own_row :: "base_sm \<Rightarrow> bytes \<Rightarrow> bytes option" where
  "own_row s sfx = (if routeKeyOf sfx = None then None else base s (sm_prefix s @ sfx))"

definition kv_map :: "rawKV list \<Rightarrow> bytes \<Rightarrow> bytes option" where
  "kv_map kvs = map_of (rev (map (\<lambda>kv. (kv_Suffix kv, kv_Value kv)) kvs))"

lemma kv_map_append: "kv_map (a @ b) = kv_map a ++ kv_map b"
  by (simp add: kv_map_def)

lemma routable_head: "routeKeyOf sfx \<noteq> None \<Longrightarrow> \<exists>b rest. sfx = b # rest \<and> b \<noteq> subMeta"
  by (cases sfx) (auto simp: routeKeyOf_def)

lemma routable_neq:
  assumes "routeKeyOf sfx \<noteq> None"
  shows "sm_prefix s @ sfx \<noteq> sub_key s subMeta rest"
  using routable_head [OF assms] by (auto simp: sub_key_def)

lemma Update_single:
  assumes "healthy s"
    and step: "\<And>frozen seq. \<exists>r u. applyEntry fl frozen e (new_ctx s seq) = (Inr r, u) \<and> ctx_ext (new_ctx s seq) u \<and>
      u_cardDelta u = [] \<and> u_dedupSeq u = seq \<and>
      (\<forall>x. routeKeyOf x \<noteq> None \<longrightarrow> eff u (sm_prefix s @ x) = f x)"
    and upd: "Update fl s [e] = (Inr es, s')"
  shows "own_row s' sfx = (if routeKeyOf sfx = None then None else f sfx)"
proof -
  obtain frozen seq where fr: "loadFrozen s = Inr frozen" and sq: "readDedupSeq s = Inr seq"
    using loadFrozen_ok readDedupSeq_ok assms(1) by blast
  let ?u0 = "new_ctx s seq"
  obtain r u where u: "applyEntry fl frozen e ?u0 = (Inr r, u)" "ctx_ext ?u0 u" "u_cardDelta u = []"
    "u_dedupSeq u = seq" "\<And>x. routeKeyOf x \<noteq> None \<Longrightarrow> eff u (sm_prefix s @ x) = f x" using step by blast
  let ?w = "emit_put (appliedKey s) (PutUint64 (e_Index e)) u"
  have "ctx_ext ?u0 ?w" using u(2) by simp
  then obtain os where "u_ops ?w = u_ops ?u0 @ os" "\<forall>op \<in> set os. op_CF op = CFReplData" unfolding ctx_ext_def by blast
  moreover have "u_ops ?u0 = []" by (simp add: new_ctx_def)
  moreover have "cf_valid CFReplData" by simp
  ultimately have ops: "\<forall>op \<in> set (u_ops ?w). cf_valid (op_CF op)" by (metis append_Nil)
  have us: "u_s u = s" using u(2) by (simp add: ctx_ext_def new_ctx_def)
  obtain st where st: "MemStore_BatchRC (sm_store s) (u_ops ?w) = (st, None)"
    "mem_view st = view_ops (mem_view (sm_store s)) (u_ops ?w)"
    using mem.batch_view [OF _ ops, of "sm_store s"] assms(1) by (auto simp: healthy_def)
  have s': "s' = s\<lparr>sm_store := st\<rparr>"
    using upd fr sq u st(1) by (simp add: Update_def applyEntrySafe_def on_ok_def Let_def flush_seq_def split: sum.splits)
  then have "base s' = eff ?w" using st(2) us by (simp add: base_def eff_def)
  then show ?thesis
    using u(5) [of sfx] routable_neq [of sfx s "str ''applied''"] by (simp add: own_row_def s' eff_simps key_simps)
qed

lemma eff_new_ctx [simp]: "eff (new_ctx s seq) = base s" "u_s (new_ctx s seq) = s" "u_cardDelta (new_ctx s seq) = []"
  "u_dedupSeq (new_ctx s seq) = seq"
  by (simp_all add: eff_def new_ctx_def base_def view_ops_Nil)

definition put_all :: "rawKV list \<Rightarrow> update_ctx \<Rightarrow> update_ctx" where
  "put_all kvs u = foldl (\<lambda>u kv. emit_put (sm_prefix (u_s u) @ kv_Suffix kv) (kv_Value kv) u) u kvs"

definition del_all :: "rawKV list \<Rightarrow> update_ctx \<Rightarrow> update_ctx" where
  "del_all kvs u = foldl (\<lambda>u kv. emit_del (sm_prefix (u_s u) @ kv_Suffix kv) u) u kvs"

lemma emit_frame: "u_cardDelta (emit_put k v u) = u_cardDelta u" "u_dedupSeq (emit_put k v u) = u_dedupSeq u"
  "u_cardDelta (emit_del k u) = u_cardDelta u" "u_dedupSeq (emit_del k u) = u_dedupSeq u"
  by (simp_all add: emit_put_def emit_del_def)

lemma put_all_props:
  "u_s (put_all kvs u) = u_s u" "u_cardDelta (put_all kvs u) = u_cardDelta u" "u_dedupSeq (put_all kvs u) = u_dedupSeq u"
  "ctx_ext v u \<Longrightarrow> ctx_ext v (put_all kvs u)"
  "eff (put_all kvs u) (sm_prefix (u_s u) @ sfx) = ((\<lambda>x. eff u (sm_prefix (u_s u) @ x)) ++ kv_map kvs) sfx"
proof -
  show *: "u_s (put_all kvs u) = u_s u" for kvs u
    by (induction kvs arbitrary: u) (simp_all add: put_all_def)
  show "u_cardDelta (put_all kvs u) = u_cardDelta u" "u_dedupSeq (put_all kvs u) = u_dedupSeq u"
    by (induction kvs arbitrary: u) (simp_all add: put_all_def emit_frame)
  show "ctx_ext v u \<Longrightarrow> ctx_ext v (put_all kvs u)"
    by (induction kvs arbitrary: u) (simp_all add: put_all_def)
  show "eff (put_all kvs u) (sm_prefix (u_s u) @ sfx) = ((\<lambda>x. eff u (sm_prefix (u_s u) @ x)) ++ kv_map kvs) sfx"
    by (induction kvs rule: rev_induct) (simp_all add: put_all_def kv_map_def eff_simps * [unfolded put_all_def] map_add_def)
qed

lemma del_all_props:
  "u_s (del_all kvs u) = u_s u" "u_cardDelta (del_all kvs u) = u_cardDelta u" "u_dedupSeq (del_all kvs u) = u_dedupSeq u"
  "ctx_ext v u \<Longrightarrow> ctx_ext v (del_all kvs u)"
  "eff (del_all kvs u) (sm_prefix (u_s u) @ sfx) = (if sfx \<in> kv_Suffix ` set kvs then None else eff u (sm_prefix (u_s u) @ sfx))"
proof -
  show *: "u_s (del_all kvs u) = u_s u" for kvs u
    by (induction kvs arbitrary: u) (simp_all add: del_all_def)
  show "u_cardDelta (del_all kvs u) = u_cardDelta u" "u_dedupSeq (del_all kvs u) = u_dedupSeq u"
    by (induction kvs arbitrary: u) (simp_all add: del_all_def emit_frame)
  show "ctx_ext v u \<Longrightarrow> ctx_ext v (del_all kvs u)"
    by (induction kvs arbitrary: u) (simp_all add: del_all_def)
  show "eff (del_all kvs u) (sm_prefix (u_s u) @ sfx) = (if sfx \<in> kv_Suffix ` set kvs then None else eff u (sm_prefix (u_s u) @ sfx))"
    by (induction kvs rule: rev_induct) (simp_all add: del_all_def eff_simps * [unfolded del_all_def])
qed

lemma encodeIngest_head: "encodeIngest kvs \<noteq> []" "hd (encodeIngest kvs) = opIngest"
  by (simp_all add: encodeIngest_bytes)

lemma ingest_effect:
  assumes "healthy s" "length (encodeIngest kvs) < 2 ^ 32" "e_Cmd e = encodeIngest kvs" "Update fl s [e] = (Inr es, s')"
  shows "own_row s' sfx = (if routeKeyOf sfx = None then None else (own_row s ++ kv_map kvs) sfx)"
proof -
  have step: "applyEntry fl frozen e (new_ctx s seq) = (Inr (result (of_nat (length kvs)) []), put_all kvs (new_ctx s seq))" for frozen seq
    using assms(2) by (simp add: applyEntry_def assms(3) Let_def encodeIngest_head applyMigrate_def put_all_def on_ok_def
        on_read_def wrap_upd_def decodeIngest_encodeIngest)
  have "own_row s' sfx = (if routeKeyOf sfx = None then None else ((\<lambda>x. base s (sm_prefix s @ x)) ++ kv_map kvs) sfx)"
    using put_all_props(5) [of kvs "new_ctx s seq" for seq]
    by (intro Update_single [OF assms(1) _ assms(4)]) (simp add: step put_all_props)
  then show ?thesis by (simp add: own_row_def map_add_def split: option.splits)
qed

lemma scan_range_rows_all:
  "scan_range_rows pfx start stop 0 out rs =
     out @ map (\<lambda>(k, v). \<lparr>kv_Suffix = drop (length pfx) k, kv_Value = v\<rparr>)
       (filter (\<lambda>(k, v). in_sub start stop (drop (length pfx) k)) rs)"
  by (induction rs arbitrary: out) (auto simp: in_sub_def split: option.splits)

definition sub_rows :: "base_sm \<Rightarrow> bytes \<Rightarrow> bytes \<Rightarrow> rawKV list \<Rightarrow> bool" where
  "sub_rows s start stop kvs \<longleftrightarrow> kv_map kvs = (\<lambda>sfx. if in_sub start stop sfx then own_row s sfx else None) \<and>
     (\<forall>kv \<in> set kvs. own_row s (kv_Suffix kv) = Some (kv_Value kv))"

lemma mem_scan_snap: "healthy s \<Longrightarrow> MemStore_Scan (sm_store s) = memSnapshot_Scan (cfs (sm_store s))"
  by (simp add: fun_eq_iff MemStore_Scan_def memSnapshot_Scan_def healthy_def mem_invar_def)

lemma sub_rows_scan:
  assumes "healthy s"
  shows "\<exists>kvs. scanRange (memSnapshot_Scan (cfs (sm_store s))) (sm_prefix s) start stop 0 = Inr kvs \<and> sub_rows s start stop kvs"
proof -
  let ?p = "sm_prefix s"
  obtain ks where ks: "snap_rows (cfs (sm_store s)) ?p (prefixEnd ?p) 0 = Inr (map (\<lambda>x. (?p @ x, the (base s (?p @ x)))) ks)"
    "set ks = {x. base s (?p @ x) \<noteq> None}" by (rule prefix_rows [OF assms])
  let ?xs = "filter (in_sub start stop) ks"
  let ?kvs = "map (\<lambda>x. \<lparr>kv_Suffix = x, kv_Value = the (base s (?p @ x))\<rparr>) ?xs"
  have "memSnapshot_Scan (cfs (sm_store s)) CFReplData (Some ?p) (prefixEnd ?p) 0 = Inr (map (\<lambda>x. (?p @ x, the (base s (?p @ x)))) ks)"
    using ks(1) by (simp add: snap_rows_def memSnapshot_Scan_def)
  then have "scanRange (memSnapshot_Scan (cfs (sm_store s))) ?p start stop 0 = Inr ?kvs"
    by (simp add: scanRange_def scan_range_rows_all filter_map comp_def)
  moreover have "kv_map ?kvs = (Some \<circ> (\<lambda>x. the (base s (?p @ x)))) |` set ?xs"
    by (simp add: kv_map_def rev_map comp_def map_of_map_restrict)
  then have "kv_map ?kvs x = (if in_sub start stop x then own_row s x else None)" for x
    by (auto simp: restrict_map_def ks(2) own_row_def in_sub_def split: option.splits)
  then have "sub_rows s start stop ?kvs"
    by (auto simp: sub_rows_def ks(2) own_row_def in_sub_def split: option.splits)
  ultimately show ?thesis by blast
qed

lemma sub_rows_suffixes: "sub_rows s start stop kvs \<Longrightarrow> x \<in> kv_Suffix ` set kvs \<longleftrightarrow> in_sub start stop x \<and> own_row s x \<noteq> None"
proof -
  assume s: "sub_rows s start stop kvs"
  have "x \<in> kv_Suffix ` set kvs \<longleftrightarrow> kv_map kvs x \<noteq> None"
    by (simp add: kv_map_def map_of_eq_None_iff image_image)
  then show ?thesis using s by (simp add: sub_rows_def)
qed

lemma migrate_scan:
  assumes "healthy s" "Lookup s (migrateScanQuery start stop 0) = Inr a"
  shows "sub_rows s start stop (raw_of a)"
  using sub_rows_scan [OF assms(1), of start stop] assms(2) by (auto simp: Lookup_snap [OF assms(1)] lookup_snap_def raw_of_def)

lemma purge_effect:
  assumes "healthy s" "length start + length stop + 8 < 2 ^ 32" "e_Cmd e = encodePurge start stop" "Update fl s [e] = (Inr es, s')"
  shows "own_row s' sfx = (if in_sub start stop sfx then None else own_row s sfx)"
proof -
  obtain kvs where kvs: "scanRange (MemStore_Scan (sm_store s)) (sm_prefix s) start stop 0 = Inr kvs" "sub_rows s start stop kvs"
    unfolding mem_scan_snap [OF assms(1)] using sub_rows_scan [OF assms(1)] by blast
  have step: "applyEntry fl frozen e (new_ctx s seq) = (Inr (result (of_nat (length kvs)) []), del_all kvs (new_ctx s seq))" for frozen seq
    using assms(2) kvs(1)
    by (simp add: applyEntry_def assms(3) Let_def encodePurge_def appendChunk_chunk applyMigrate_def del_all_def on_ok_def
        on_read_def wrap_upd_def decodePurge_chunks op_defs)
  have "own_row s' sfx = (if routeKeyOf sfx = None then None
      else if sfx \<in> kv_Suffix ` set kvs then None else base s (sm_prefix s @ sfx))"
    using del_all_props(5) [of kvs "new_ctx s seq" for seq]
    by (intro Update_single [OF assms(1) _ assms(4)]) (simp add: step del_all_props)
  then show ?thesis
    using sub_rows_suffixes [OF kvs(2), of sfx] by (auto simp: own_row_def in_sub_def split: option.splits if_splits)
qed

lemma freeze_effect:
  assumes "healthy s" "length start + length stop + 8 < 2 ^ 32"
    "e_Cmd e = encodeFreeze start stop \<or> e_Cmd e = encodeUnfreeze start stop" "Update fl s [e] = (Inr es, s')"
  shows "own_row s' sfx = own_row s sfx"
proof -
  have "\<exists>u. applyEntry fl frozen e (new_ctx s seq) = (Inr (result 1 []), u) \<and>
      (u = emit_put (frozenKey s start) stop (new_ctx s seq) \<or> u = emit_del (frozenKey s start) (new_ctx s seq))" for frozen seq
    using assms(2,3)
    by (auto simp: applyEntry_def Let_def encodeFreeze_def encodeUnfreeze_def appendChunk_chunk applyFreeze_def on_ok_def
        on_read_def wrap_upd_def decodePurge_chunks op_defs)
  then have "own_row s' sfx = (if routeKeyOf sfx = None then None else base s (sm_prefix s @ sfx))"
    using routable_neq [of _ s "frozenTag # start"]
    by (intro Update_single [OF assms(1) _ assms(4)]) (fastforce simp: emit_frame eff_simps key_simps)
  then show ?thesis by (simp add: own_row_def)
qed

end
