(* ===== verification/Coll_Rebalance.thy ===== *)
theory Coll_Rebalance
  imports Coll_Control
begin

text \<open>
  Splits and merges of \<open>src/internal/collections/control.go\<close> keep the contents of the tier: the ranges of the
  directory stay disjoint, every row of a collection is held by the shard its routing key leads to, and no row
  is lost, duplicated or changed.
\<close>

section \<open>The tier as ranges and rows\<close>

type_synonym dir_map = "bytes \<Rightarrow> (bytes \<times> u64) option"
type_synonym tier_rows = "u64 \<Rightarrow> bytes \<Rightarrow> bytes option"

definition tier_dir :: "('e \<Rightarrow> u64 \<Rightarrow> base_sm) \<Rightarrow> 'e \<Rightarrow> dir_map" where
  "tier_dir view e = fst (meta_abs (view e MetaShardID))"

definition tier_rows :: "('e \<Rightarrow> u64 \<Rightarrow> base_sm) \<Rightarrow> 'e \<Rightarrow> tier_rows" where
  "tier_rows view e sh = (if sh = MetaShardID then Map.empty else own_row (view e sh))"

definition owner :: "dir_map \<Rightarrow> bytes \<Rightarrow> u64 \<Rightarrow> bool" where
  "owner R rk sh \<longleftrightarrow> (\<exists>start stop. R start = Some (stop, sh) \<and> inRoute rk start stop)"

definition dir_ok :: "dir_map \<Rightarrow> bool" where
  "dir_ok R \<longleftrightarrow>
     (\<forall>start stop sh. R start = Some (stop, sh) \<longrightarrow> (stop = [] \<or> start < stop) \<and> firstDataShard \<le> sh \<and>
        length start < 2 ^ 30 \<and> length stop < 2 ^ 30) \<and>
     (\<forall>rk a b stop stop' sh sh'. R a = Some (stop, sh) \<and> R b = Some (stop', sh') \<and> inRoute rk a stop \<and> inRoute rk b stop' \<longrightarrow> a = b)"

definition rows_ok :: "dir_map \<Rightarrow> tier_rows \<Rightarrow> bool" where
  "rows_ok R \<rho> \<longleftrightarrow>
     (\<forall>sh sfx v. \<rho> sh sfx = Some v \<longrightarrow> (\<exists>rk. routeKeyOf sfx = Some rk \<and> owner R rk sh) \<and> length sfx + length v < 2 ^ 24 - 64)"

text \<open>A row is held by the shard that its routing key leads to.\<close>

definition held :: "dir_map \<Rightarrow> tier_rows \<Rightarrow> bytes \<Rightarrow> bytes \<Rightarrow> bool" where
  "held R \<rho> sfx v \<longleftrightarrow> (\<exists>rk sh. routeKeyOf sfx = Some rk \<and> owner R rk sh \<and> \<rho> sh sfx = Some v)"

lemma rows_okD:
  assumes "rows_ok R \<rho>" "\<rho> sh sfx = Some v"
  shows "\<exists>rk. routeKeyOf sfx = Some rk \<and> owner R rk sh" "length sfx + length v < 2 ^ 24 - 64"
  using assms unfolding rows_ok_def by blast+

lemma held_rows: "rows_ok R \<rho> \<Longrightarrow> held R \<rho> sfx v \<longleftrightarrow> (\<exists>sh. \<rho> sh sfx = Some v)"
  by (fastforce simp: rows_ok_def held_def)

lemma inRoute_order: "inRoute rk start stop \<longleftrightarrow> start \<le> rk \<and> (stop = [] \<or> rk < stop)"
  by (auto simp: inRoute_def)

lemma owner_unique: "dir_ok R \<Longrightarrow> owner R rk sh \<Longrightarrow> owner R rk sh' \<Longrightarrow> sh = sh'"
  unfolding dir_ok_def owner_def by (metis option.inject prod.inject)

text \<open>The rows of an interval go from shard \<open>x\<close> to shard \<open>y\<close> together with their ownership.\<close>

definition moved :: "bytes \<Rightarrow> bytes \<Rightarrow> u64 \<Rightarrow> u64 \<Rightarrow> tier_rows \<Rightarrow> tier_rows" where
  "moved a z x y \<rho> =
     (\<rho>(y := \<rho> y ++ (\<lambda>sfx. if in_sub a z sfx then \<rho> x sfx else None)))
       (x := (\<lambda>sfx. if in_sub a z sfx then None else \<rho> x sfx))"

lemma moved_rows:
  assumes "rows_ok R \<rho>" "dir_ok R" "x \<noteq> y" "\<And>rk. inRoute rk a z \<Longrightarrow> owner R rk x"
    and R': "\<And>rk sh. owner R' rk sh \<longleftrightarrow> (if inRoute rk a z then sh = y else owner R rk sh)"
  shows "rows_ok R' (moved a z x y \<rho>)" "held R' (moved a z x y \<rho>) = held R \<rho>"
    "(\<exists>sh. owner R' rk sh) \<longleftrightarrow> (\<exists>sh. owner R rk sh)"
proof -
  have own: "\<rho> sh sfx = None" if sub: "in_sub a z sfx" and ne: "sh \<noteq> x" for sh sfx
  proof (rule ccontr)
    assume "\<rho> sh sfx \<noteq> None"
    then obtain rk where "routeKeyOf sfx = Some rk" "owner R rk sh" using rows_okD [OF assms(1)] by blast
    then show False using sub ne assms(4) [of rk] owner_unique [OF assms(2)] by (auto simp: in_sub_def)
  qed
  have row: "moved a z x y \<rho> sh sfx = (if in_sub a z sfx then (if sh = y then \<rho> x sfx else None) else \<rho> sh sfx)" for sh sfx
    using own [of sfx sh] own [of sfx y] assms(3) by (auto simp: moved_def map_add_def split: option.splits)
  have union: "(\<exists>sh. moved a z x y \<rho> sh sfx = Some v) \<longleftrightarrow> (\<exists>sh. \<rho> sh sfx = Some v)" for sfx v
  proof (cases "in_sub a z sfx")
    case True
    then have "(\<exists>sh. \<rho> sh sfx = Some v) \<longleftrightarrow> \<rho> x sfx = Some v" using own [OF True] by (metis option.distinct(1))
    then show ?thesis using True by (auto simp: row)
  qed (simp add: row)
  show ok: "rows_ok R' (moved a z x y \<rho>)"
    unfolding rows_ok_def
  proof (intro allI impI)
    fix sh sfx v
    assume m: "moved a z x y \<rho> sh sfx = Some v"
    then obtain sh' where sh': "\<rho> sh' sfx = Some v" using union by blast
    obtain rk where rk: "routeKeyOf sfx = Some rk" "owner R rk sh'" using rows_okD [OF assms(1)] sh' by blast
    have "owner R' rk sh"
    proof (cases "in_sub a z sfx")
      case True
      then show ?thesis using m rk(1) by (auto simp: row R' in_sub_def split: if_splits)
    next
      case False
      then have "\<rho> sh sfx = Some v" using m by (simp add: row)
      then show ?thesis using False rk(1) rows_okD [OF assms(1)] by (fastforce simp: R' in_sub_def)
    qed
    then show "(\<exists>rk. routeKeyOf sfx = Some rk \<and> owner R' rk sh) \<and> length sfx + length v < 2 ^ 24 - 64"
      using rk(1) rows_okD(2) [OF assms(1) sh'] by blast
  qed
  show "held R' (moved a z x y \<rho>) = held R \<rho>"
    by (intro ext) (simp add: held_rows [OF ok] held_rows [OF assms(1)] union)
  show "(\<exists>sh. owner R' rk sh) \<longleftrightarrow> (\<exists>sh. owner R rk sh)"
    using assms(4) by (auto simp: R')
qed

lemma dir_okD:
  assumes "dir_ok R" "R a = Some (z, sh)"
  shows "z = [] \<or> a < z" "firstDataShard \<le> sh" "length a < 2 ^ 30" "length z < 2 ^ 30"
    "R b = Some (z', sh') \<Longrightarrow> inRoute rk a z \<Longrightarrow> inRoute rk b z' \<Longrightarrow> a = b"
  using assms unfolding dir_ok_def by blast+

lemma owner_upd: "owner (R(a \<mapsto> (z, s))) rk sh \<longleftrightarrow> inRoute rk a z \<and> sh = s \<or> owner (R(a := None)) rk sh"
  by (auto simp: owner_def)

lemma owner_at: "R a = Some (z, s) \<Longrightarrow> owner R rk sh \<longleftrightarrow> inRoute rk a z \<and> sh = s \<or> owner (R(a := None)) rk sh"
  using owner_upd [of R a z s] by (metis fun_upd_triv)

lemma owner_del: "owner (R(a := None)) rk sh \<longleftrightarrow> (\<exists>c z. c \<noteq> a \<and> R c = Some (z, sh) \<and> inRoute rk c z)"
  by (auto simp: owner_def)

text \<open>Replacing one range by two adjacent ones, and two adjacent ones by one.\<close>

lemma split_dir:
  assumes ok: "dir_ok R" and s0: "R s0 = Some (stop, sh0)" "inRoute k s0 stop" "s0 \<noteq> k"
    and k: "length k < 2 ^ 30" "firstDataShard \<le> new"
  defines "R' \<equiv> R(s0 \<mapsto> (k, sh0), k \<mapsto> (stop, new))"
  shows "dir_ok R'" "owner R' rk sh \<longleftrightarrow> (if inRoute rk k stop then sh = new else owner R rk sh)"
    "inRoute rk k stop \<Longrightarrow> owner R rk sh0"
proof -
  have lt: "s0 < k" "stop = [] \<or> k < stop" using s0 by (auto simp: inRoute_order)
  have Rk: "R k = None"
  proof (rule ccontr)
    assume "R k \<noteq> None"
    then obtain z sh where z: "R k = Some (z, sh)" by auto
    then have "inRoute k k z" using dir_okD(1) [OF ok z] by (auto simp: inRoute_order)
    then show False using dir_okD(5) [OF ok s0(1) z] s0 by blast
  qed
  have cov: "inRoute rk s0 stop \<longleftrightarrow> inRoute rk s0 k \<or> inRoute rk k stop" "\<not> (inRoute rk s0 k \<and> inRoute rk k stop)" for rk
    using lt by (auto simp: inRoute_order)
  have disj: "a = s0" if "R a = Some (z, sh)" "inRoute rk a z" "inRoute rk s0 k \<or> inRoute rk k stop" for rk a z sh
    using dir_okD(5) [OF ok that(1) s0(1) that(2)] that(3) cov(1) by blast
  show "owner R' rk sh \<longleftrightarrow> (if inRoute rk k stop then sh = new else owner R rk sh)"
  proof -
    have "R(s0 \<mapsto> (k, sh0), k := None) = R(s0 \<mapsto> (k, sh0))" using Rk lt(1) by (auto simp: fun_eq_iff)
    then have "owner R' rk sh \<longleftrightarrow> inRoute rk k stop \<and> sh = new \<or> inRoute rk s0 k \<and> sh = sh0 \<or> owner (R(s0 := None)) rk sh"
      by (simp add: R'_def owner_upd)
    moreover have "\<not> owner (R(s0 := None)) rk sh" if "inRoute rk k stop" using that disj unfolding owner_del by blast
    ultimately show ?thesis using owner_at [of R s0 stop sh0 rk sh] s0(1) cov [of rk] by auto
  qed
  show "owner R rk sh0" if "inRoute rk k stop" using that cov(1) s0(1) by (auto simp: owner_def)
  show "dir_ok R'"
    unfolding dir_ok_def
  proof (intro conjI allI impI; (elim conjE)?)
    fix a z sh
    assume a: "R' a = Some (z, sh)"
    show "z = [] \<or> a < z" "firstDataShard \<le> sh" "length a < 2 ^ 30" "length z < 2 ^ 30"
      using a lt k dir_okD [OF ok s0(1)] dir_okD [OF ok, of a z sh] by (auto simp: R'_def split: if_splits)
  next
    fix rk a b z z' sh sh'
    have c: "a = k \<and> z = stop \<or> a = s0 \<and> z = k \<or> a \<noteq> s0 \<and> R a = Some (z, sh)" if "R' a = Some (z, sh)" for a z sh
      using that by (auto simp: R'_def split: if_splits)
    assume "R' a = Some (z, sh)" "R' b = Some (z', sh')" "inRoute rk a z" "inRoute rk b z'"
    then show "a = b"
      using c [of a z sh] c [of b z' sh'] disj cov(2) [of rk] dir_okD(5) [OF ok, of a z sh b z' sh' rk] by blast
  qed
qed

lemma merge_dir:
  assumes ok: "dir_ok R" and l: "R sl = Some (b, shl)" and r: "R b = Some (z, shr)" and b: "b \<noteq> []"
  defines "R' \<equiv> R(sl \<mapsto> (z, shl), b := None)"
  shows "dir_ok R'" "owner R' rk sh \<longleftrightarrow> (if inRoute rk b z then sh = shl else owner R rk sh)"
    "inRoute rk b z \<Longrightarrow> owner R rk shr"
proof -
  have lt: "sl < b" "z = [] \<or> b < z" using dir_okD(1) [OF ok l] dir_okD(1) [OF ok r] b by auto
  have cov: "inRoute rk sl z \<longleftrightarrow> inRoute rk sl b \<or> inRoute rk b z" for rk
    using lt b by (auto simp: inRoute_order)
  have disj: "a = sl \<or> a = b" if "R a = Some (z', sh)" "inRoute rk a z'" "inRoute rk sl z" for rk a z' sh
    using dir_okD(5) [OF ok that(1) l that(2)] dir_okD(5) [OF ok that(1) r that(2)] that(3) cov by blast
  have excl: "\<not> (inRoute rk sl b \<and> inRoute rk b z)" for rk using b by (auto simp: inRoute_order)
  show "owner R' rk sh \<longleftrightarrow> (if inRoute rk b z then sh = shl else owner R rk sh)"
  proof -
    let ?O = "owner (R(sl := None, b := None))"
    have "owner R' rk sh \<longleftrightarrow> inRoute rk sl z \<and> sh = shl \<or> ?O rk sh"
      using owner_upd [of "R(b := None)" sl z shl rk sh] lt(1) by (simp add: R'_def fun_upd_twist)
    moreover have "owner R rk sh \<longleftrightarrow> inRoute rk sl b \<and> sh = shl \<or> inRoute rk b z \<and> sh = shr \<or> ?O rk sh"
      using l owner_at [of R sl b shl rk sh] owner_at [of "R(sl := None)" b z shr rk sh] lt(1) r by auto
    moreover have "\<not> ?O rk sh" if "inRoute rk sl z" using that disj unfolding owner_del by (auto split: if_splits)
    ultimately show ?thesis using cov [of rk] excl [of rk] by auto
  qed
  show "owner R rk shr" if "inRoute rk b z" using that r by (auto simp: owner_def)
  show "dir_ok R'"
    unfolding dir_ok_def
  proof (intro conjI allI impI; (elim conjE)?)
    fix a y sh
    assume a: "R' a = Some (y, sh)"
    show "y = [] \<or> a < y" "firstDataShard \<le> sh" "length a < 2 ^ 30" "length y < 2 ^ 30"
      using a lt dir_okD [OF ok l] dir_okD [OF ok r] dir_okD [OF ok, of a y sh] by (auto simp: R'_def split: if_splits)
  next
    fix rk a c y y' sh sh'
    have e: "a = sl \<and> y = z \<or> a \<noteq> sl \<and> a \<noteq> b \<and> R a = Some (y, sh)" if "R' a = Some (y, sh)" for a y sh
      using that by (auto simp: R'_def split: if_splits)
    assume "R' a = Some (y, sh)" "R' c = Some (y', sh')" "inRoute rk a y" "inRoute rk c y'"
    then show "a = c"
      using e [of a y sh] e [of c y' sh'] disj dir_okD(5) [OF ok, of a y sh c y' sh' rk] by blast
  qed
qed

section \<open>Proposals on the tier\<close>

lemma law_good:
  assumes "raft_laws fl rf good view" "good e"
  shows "healthy (view e sh)" "sm_prefix (view e sh) = PutUint64 sh"
  using assms(1) [unfolded raft_laws_def, THEN conjunct1] assms(2) by simp_all

lemma law_read:
  assumes "raft_laws fl rf good view" "good e"
  shows "rf_Read rf e sh q = Inr a \<Longrightarrow> Lookup (view e sh) q = Inr a"
    "rf_ReadMeta rf e sh mq = Inr ma \<Longrightarrow> metaSM_Lookup (view e sh) mq = Inr ma"
  using assms(1) [unfolded raft_laws_def, THEN conjunct2, THEN conjunct2, THEN conjunct2, THEN conjunct2] assms(2) by simp_all

lemma law_start:
  assumes "raft_laws fl rf good view" "good e" "rf_StartShard rf e sh i ms = (e', None) \<or> rf_waitLeader rf e sh = (e', None)"
  shows "good e'" "tier_dir view e' = tier_dir view e" "tier_rows view e' = tier_rows view e"
proof -
  note laws = assms(1) [unfolded raft_laws_def]
  from assms(3) have "good e' \<and> view e' = view e"
  proof
    assume "rf_StartShard rf e sh i ms = (e', None)"
    then show ?thesis using laws [THEN conjunct2, THEN conjunct1, rule_format, OF assms(2)] by blast
  next
    assume "rf_waitLeader rf e sh = (e', None)"
    then show ?thesis using laws [THEN conjunct2, THEN conjunct2, THEN conjunct1, rule_format, OF assms(2)] by blast
  qed
  then show "good e'" "tier_dir view e' = tier_dir view e" "tier_rows view e' = tier_rows view e"
    by (simp_all add: tier_dir_def tier_rows_def fun_eq_iff)
qed

lemma law_propose:
  assumes "raft_laws fl rf good view" "good e" "rf_Propose rf e sh cmd = (e', Inr r)"
  shows "good e'" "applied_by fl view sh cmd e e'"
  using assms(1) [unfolded raft_laws_def, THEN conjunct2, THEN conjunct2, THEN conjunct2, THEN conjunct1, rule_format, OF assms(2,3)]
  by simp_all

lemma other_rows:
  assumes "raft_laws fl rf good view" "good e" "good e'" "applied_by fl view sh cmd e e'" "sh' \<noteq> sh"
  shows "own_row (view e' sh') = own_row (view e sh')" "meta_abs (view e' sh') = meta_abs (view e sh')"
proof -
  have row: "base (view e' sh') (PutUint64 sh' @ x) = base (view e sh') (PutUint64 sh' @ x)" for x
    using assms(4,5) unfolding applied_by_def shard_row_def by blast
  note pfx = law_good(2) [OF assms(1,2), of sh'] law_good(2) [OF assms(1,3), of sh']
  show "own_row (view e' sh') = own_row (view e sh')" by (simp add: own_row_def pfx row fun_eq_iff)
  show "meta_abs (view e' sh') = meta_abs (view e sh')" by (simp add: meta_abs_def key_simps sub_key_def pfx row)
qed

text \<open>What one committed command makes of the rows of a shard.\<close>

definition makes :: "float_lib \<Rightarrow> base_sm \<Rightarrow> bytes \<Rightarrow> (bytes \<Rightarrow> bytes option) \<Rightarrow> bool" where
  "makes fl s cmd f \<longleftrightarrow> (\<forall>en es s'. e_Cmd en = cmd \<and> Update fl s [en] = (Inr es, s') \<longrightarrow> own_row s' = f)"

lemma data_proposal:
  assumes "raft_laws fl rf good view" "good e" "rf_Propose rf e sh cmd = (e', Inr r)" "sh \<noteq> MetaShardID"
    and f: "makes fl (view e sh) cmd f"
  shows "good e'" "tier_dir view e' = tier_dir view e" "tier_rows view e' = (tier_rows view e)(sh := f)"
proof -
  note p = law_propose [OF assms(1,2,3)]
  show "good e'" by (rule p(1))
  note other = other_rows [OF assms(1,2) p]
  show "tier_dir view e' = tier_dir view e" using other(2) [of MetaShardID] assms(4) by (simp add: tier_dir_def)
  have "own_row (view e' sh) = f" using p(2) f assms(4) unfolding applied_by_def makes_def by auto
  then show "tier_rows view e' = (tier_rows view e)(sh := f)"
    using other(1) assms(4) by (auto simp: tier_rows_def fun_eq_iff)
qed

lemma meta_proposal:
  assumes "raft_laws fl rf good view" "good e" "rf_Propose rf e MetaShardID (encodeMetaCommand c) = (e', Inr r)" "meta_ok c"
  shows "good e'" "tier_rows view e' = tier_rows view e" "tier_dir view e' = fst (spec_meta (tier_dir view e, Map.empty) c)"
proof -
  note p = law_propose [OF assms(1,2,3)]
  show "good e'" by (rule p(1))
  show "tier_rows view e' = tier_rows view e"
    using other_rows(1) [OF assms(1,2) p] by (auto simp: tier_rows_def fun_eq_iff)
  obtain en es where en: "e_Cmd en = encodeMetaCommand c" "metaSM_Update (view e MetaShardID) [en] = (Inr es, view e' MetaShardID)"
    using p(2) by (auto simp: applied_by_def)
  then have "meta_abs (view e' MetaShardID) = spec_meta (meta_abs (view e MetaShardID)) c"
    using metaSM_Update_abs [of "view e MetaShardID" "[en]" "[c]"] law_good(1) [OF assms(1,2)] assms(4) by auto
  then show "tier_dir view e' = fst (spec_meta (tier_dir view e, Map.empty) c)"
    by (simp add: tier_dir_def spec_meta_def split: prod.splits)
qed

lemma refresh_dir:
  assumes "raft_laws fl rf good view" "good e" "rd_metaShard d = MetaShardID"
    "RangeDirectory_Refresh (rf_ReadMeta rf e) d = (d', None)"
  shows "rd_metaShard d' = MetaShardID"
    "set (rd_ranges d') = {\<lparr>re_Start = a, re_End = z, re_ShardID = sh\<rparr> | a z sh. tier_dir view e a = Some (z, sh)}"
proof -
  obtain a where a: "rf_ReadMeta rf e MetaShardID metaListQuery = Inr a"
    using assms(3,4) by (cases "rf_ReadMeta rf e MetaShardID metaListQuery") (auto simp: RangeDirectory_Refresh_def)
  then have "metaSM_Lookup (view e MetaShardID) metaListQuery = Inr a" by (rule law_read(2) [OF assms(1,2)])
  then obtain rs where "a = MetaRanges rs"
    "set rs = {\<lparr>re_Start = a, re_End = z, re_ShardID = sh\<rparr> | a z sh. tier_dir view e a = Some (z, sh)}"
    using metaSM_list [of "view e MetaShardID"] law_good(1) [OF assms(1,2)] by (auto simp: tier_dir_def)
  then show "rd_metaShard d' = MetaShardID"
    "set (rd_ranges d') = {\<lparr>re_Start = a, re_End = z, re_ShardID = sh\<rparr> | a z sh. tier_dir view e a = Some (z, sh)}"
    using assms(3,4) a by (auto simp: RangeDirectory_Refresh_def)
qed

lemma length_encodeIngest:
  assumes "length kvs \<le> 256" "\<forall>kv \<in> set kvs. length (kv_Suffix kv) + length (kv_Value kv) < 2 ^ 24 - 64"
  shows "length (encodeIngest kvs) < 2 ^ 32"
proof -
  have "length (concat (map kv_bytes kvs)) \<le> length kvs * (2 ^ 24 - 56)"
    using assms(2) by (induction kvs) (auto simp: kv_bytes_def)
  also have "\<dots> \<le> 256 * (2 ^ 24 - 56)" using assms(1) by (intro mult_le_mono1)
  finally show ?thesis by (simp add: encodeIngest_bytes)
qed

lemma kv_map_routable: "\<forall>kv \<in> set kvs. routeKeyOf (kv_Suffix kv) \<noteq> None \<Longrightarrow> routeKeyOf x = None \<Longrightarrow> kv_map kvs x = None"
  by (auto simp: kv_map_def map_of_eq_None_iff)

lemma ingest_makes:
  assumes "healthy s" "length kvs \<le> 256"
    and kvs: "\<forall>kv \<in> set kvs. routeKeyOf (kv_Suffix kv) \<noteq> None \<and> length (kv_Suffix kv) + length (kv_Value kv) < 2 ^ 24 - 64"
  shows "makes fl s (encodeIngest kvs) (own_row s ++ kv_map kvs)"
  unfolding makes_def
proof (intro allI impI ext, elim conjE)
  fix en es s' sfx
  assume u: "e_Cmd en = encodeIngest kvs" "Update fl s [en] = (Inr es, s')"
  have "own_row s' sfx = (if routeKeyOf sfx = None then None else (own_row s ++ kv_map kvs) sfx)"
    using assms(2) kvs by (intro ingest_effect [OF assms(1) _ u] length_encodeIngest) auto
  moreover have "kv_map kvs sfx = None" if "routeKeyOf sfx = None" using kv_map_routable that kvs by blast
  ultimately show "own_row s' sfx = (own_row s ++ kv_map kvs) sfx"
    by (auto simp: own_row_def map_add_def split: option.splits)
qed

lemma freeze_makes:
  assumes "healthy s" "length a + length z < 2 ^ 31" "cmd = encodeFreeze a z \<or> cmd = encodeUnfreeze a z"
  shows "makes fl s cmd (own_row s)"
  unfolding makes_def
proof (intro allI impI ext, elim conjE)
  fix en es s' sfx
  assume "e_Cmd en = cmd" "Update fl s [en] = (Inr es, s')"
  then show "own_row s' sfx = own_row s sfx"
    using assms(2,3) by (intro freeze_effect [OF assms(1)]) auto
qed

lemma purge_makes:
  assumes "healthy s" "length a + length z < 2 ^ 31"
  shows "makes fl s (encodePurge a z) (\<lambda>sfx. if in_sub a z sfx then None else own_row s sfx)"
  unfolding makes_def
proof (intro allI impI ext, elim conjE)
  fix en es s' sfx
  assume "e_Cmd en = encodePurge a z" "Update fl s [en] = (Inr es, s')"
  then show "own_row s' sfx = (if in_sub a z sfx then None else own_row s sfx)"
    using assms(2) by (intro purge_effect [OF assms(1)]) auto
qed

lemma data_step:
  assumes "raft_laws fl rf good view" "good e" "sh \<noteq> MetaShardID"
  shows "rf_Propose rf e sh (encodeIngest kvs) = (e', Inr r) \<Longrightarrow> length kvs \<le> 256 \<Longrightarrow>
      \<forall>kv \<in> set kvs. routeKeyOf (kv_Suffix kv) \<noteq> None \<and> length (kv_Suffix kv) + length (kv_Value kv) < 2 ^ 24 - 64 \<Longrightarrow>
      good e' \<and> tier_dir view e' = tier_dir view e \<and>
      tier_rows view e' = (tier_rows view e)(sh := tier_rows view e sh ++ kv_map kvs)"
    "rf_Propose rf e sh cmd = (e', Inr r) \<Longrightarrow> cmd = encodeFreeze a z \<or> cmd = encodeUnfreeze a z \<Longrightarrow> length a + length z < 2 ^ 31 \<Longrightarrow>
      good e' \<and> tier_dir view e' = tier_dir view e \<and> tier_rows view e' = tier_rows view e"
    "rf_Propose rf e sh (encodePurge a z) = (e', Inr r) \<Longrightarrow> length a + length z < 2 ^ 31 \<Longrightarrow>
      good e' \<and> tier_dir view e' = tier_dir view e \<and>
      tier_rows view e' = (tier_rows view e)(sh := (\<lambda>sfx. if in_sub a z sfx then None else tier_rows view e sh sfx))"
proof -
  have row: "tier_rows view e sh = own_row (view e sh)" using assms(3) by (simp add: tier_rows_def)
  have h: "healthy (view e sh)" by (rule law_good(1) [OF assms(1,2)])
  note step = data_proposal [OF assms(1,2) _ assms(3)]
  show "good e' \<and> tier_dir view e' = tier_dir view e \<and>
      tier_rows view e' = (tier_rows view e)(sh := tier_rows view e sh ++ kv_map kvs)"
    if p: "rf_Propose rf e sh (encodeIngest kvs) = (e', Inr r)" and l: "length kvs \<le> 256"
      and k: "\<forall>kv \<in> set kvs. routeKeyOf (kv_Suffix kv) \<noteq> None \<and> length (kv_Suffix kv) + length (kv_Value kv) < 2 ^ 24 - 64"
    using step [OF p ingest_makes [OF h l k]] unfolding row by simp
  show "good e' \<and> tier_dir view e' = tier_dir view e \<and> tier_rows view e' = tier_rows view e"
    if p: "rf_Propose rf e sh cmd = (e', Inr r)" and c: "cmd = encodeFreeze a z \<or> cmd = encodeUnfreeze a z"
      and l: "length a + length z < 2 ^ 31"
    using step [OF p freeze_makes [OF h l c]] by (simp add: fun_upd_idem [of "tier_rows view e", OF row])
  show "good e' \<and> tier_dir view e' = tier_dir view e \<and>
      tier_rows view e' = (tier_rows view e)(sh := (\<lambda>sfx. if in_sub a z sfx then None else tier_rows view e sh sfx))"
    if p: "rf_Propose rf e sh (encodePurge a z) = (e', Inr r)" and l: "length a + length z < 2 ^ 31"
    using step [OF p purge_makes [OF h l]] unfolding row by simp
qed

lemma ingestInto_rows:
  assumes "raft_laws fl rf good view" "sh \<noteq> MetaShardID"
  shows "good e \<Longrightarrow> ingestInto rf sh kvs e = (e', None) \<Longrightarrow>
    \<forall>kv \<in> set kvs. routeKeyOf (kv_Suffix kv) \<noteq> None \<and> length (kv_Suffix kv) + length (kv_Value kv) < 2 ^ 24 - 64 \<Longrightarrow>
    good e' \<and> tier_dir view e' = tier_dir view e \<and>
    tier_rows view e' = (tier_rows view e)(sh := tier_rows view e sh ++ kv_map kvs)"
proof (induction "length kvs" arbitrary: kvs e rule: less_induct)
  case less
  show ?case
  proof (cases "kvs = []")
    case True
    then show ?thesis using less.prems by (simp add: ingestInto.simps kv_map_def)
  next
    case False
    let ?a = "take ingestBatch kvs" and ?b = "drop ingestBatch kvs"
    obtain e1 r where e1: "rf_Propose rf e sh (encodeIngest ?a) = (e1, Inr r)" "ingestInto rf sh ?b e1 = (e', None)"
      using less.prems(2) False by (auto simp: ingestInto.simps [of rf sh kvs] split: prod.splits sum.splits)
    have a: "length ?a \<le> 256" "length ?b < length kvs" using False by (simp_all add: ingestBatch_def)
    have "\<forall>kv \<in> set ?a. routeKeyOf (kv_Suffix kv) \<noteq> None \<and> length (kv_Suffix kv) + length (kv_Value kv) < 2 ^ 24 - 64"
      using less.prems(3) set_take_subset [of ingestBatch kvs] by blast
    note p = data_step(1) [OF assms(1) less.prems(1) assms(2) e1(1) a(1) this]
    have "good e' \<and> tier_dir view e' = tier_dir view e1 \<and>
      tier_rows view e' = (tier_rows view e1)(sh := tier_rows view e1 sh ++ kv_map ?b)"
      using less.prems(3) set_drop_subset [of ingestBatch kvs] p by (intro less.hyps [OF a(2) _ e1(2)]) blast+
    then show ?thesis using kv_map_append [of ?a ?b] p by (simp add: map_add_assoc)
  qed
qed

section \<open>Splits and merges\<close>

lemma ctl_Inr:
  "started c r k = (Inr x, c', e') \<Longrightarrow> \<exists>e. r = (e, None) \<and> k e = (Inr x, c', e')"
  "proposed c rp k = (Inr x, c', e') \<Longrightarrow> \<exists>e res. rp = (e, Inr res) \<and> k e = (Inr x, c', e')"
  "migrated c rf sh a z e km = (Inr x, c', e') \<Longrightarrow> \<exists>an. rf_Read rf e sh (migrateScanQuery a z 0) = Inr an \<and> km (raw_of an) = (Inr x, c', e')"
  "refreshed rf d e kd = (Inr x, c', e') \<Longrightarrow>
     \<exists>d'. RangeDirectory_Refresh (rf_ReadMeta rf e) d = (d', None) \<and> kd d' \<lparr>ct_dir = Some d'\<rparr> = (Inr x, c', e')"
  by (auto simp: started_def proposed_def migrated_def refreshed_def split: prod.splits option.splits sum.splits)

lemma copy_step:
  assumes "raft_laws fl rf good view" "good e" "rows_ok R (tier_rows view e)" "x \<noteq> MetaShardID" "y \<noteq> MetaShardID"
    "rf_Read rf e x (migrateScanQuery a z 0) = Inr an" "ingestInto rf y (raw_of an) e = (e', None)"
  shows "good e' \<and> tier_dir view e' = tier_dir view e \<and> tier_rows view e' =
    (tier_rows view e)(y := tier_rows view e y ++ (\<lambda>sfx. if in_sub a z sfx then tier_rows view e x sfx else None))"
proof -
  have sub: "sub_rows (view e x) a z (raw_of an)"
    by (rule migrate_scan [OF law_good(1) [OF assms(1,2)] law_read(1) [OF assms(1,2,6)]])
  have row: "tier_rows view e x = own_row (view e x)" using assms(4) by (simp add: tier_rows_def)
  have map: "kv_map (raw_of an) = (\<lambda>sfx. if in_sub a z sfx then tier_rows view e x sfx else None)"
    using sub unfolding sub_rows_def row by blast
  have "routeKeyOf (kv_Suffix kv) \<noteq> None \<and> length (kv_Suffix kv) + length (kv_Value kv) < 2 ^ 24 - 64"
    if "kv \<in> set (raw_of an)" for kv
  proof -
    have "tier_rows view e x (kv_Suffix kv) = Some (kv_Value kv)" using sub that by (simp add: sub_rows_def row)
    then show ?thesis using rows_okD [OF assms(3)] by blast
  qed
  then show ?thesis using ingestInto_rows [OF assms(1,5,2,7)] by (simp add: map)
qed

lemma meta_step:
  assumes "raft_laws fl rf good view" "good e" "length a + length z < 2 ^ 31"
  shows "rf_Propose rf e MetaShardID (meta_put a z sh) = (e', Inr r) \<Longrightarrow>
      good e' \<and> tier_rows view e' = tier_rows view e \<and> tier_dir view e' = (tier_dir view e)(a \<mapsto> (z, sh))"
    "rf_Propose rf e MetaShardID (meta_delete a) = (e', Inr r) \<Longrightarrow>
      good e' \<and> tier_rows view e' = tier_rows view e \<and> tier_dir view e' = (tier_dir view e)(a := None)"
proof -
  note meta = meta_proposal [OF assms(1,2)]
  show "good e' \<and> tier_rows view e' = tier_rows view e \<and> tier_dir view e' = (tier_dir view e)(a \<mapsto> (z, sh))"
    if "rf_Propose rf e MetaShardID (meta_put a z sh) = (e', Inr r)"
    using meta [OF that [unfolded meta_put_def]] assms(3) by (simp add: meta_ok_def encodeMetaCommand_bytes spec_meta_def)
  show "good e' \<and> tier_rows view e' = tier_rows view e \<and> tier_dir view e' = (tier_dir view e)(a := None)"
    if "rf_Propose rf e MetaShardID (meta_delete a) = (e', Inr r)"
    using meta [OF that [unfolded meta_delete_def]] assms(3)
    by (simp add: meta_ok_def encodeMetaCommand_bytes spec_meta_def meta_op_defs)
qed

lemma maxShardID_bounds:
  "r \<in> set (rd_ranges d) \<Longrightarrow> re_ShardID r \<le> maxShardID d"
  "maxShardID d = 0 \<or> maxShardID d \<in> re_ShardID ` set (rd_ranges d)"
proof -
  let ?f = "\<lambda>mx r. if re_ShardID r > mx then re_ShardID r else mx"
  have "m \<le> foldl ?f m rs \<and> (\<forall>r \<in> set rs. re_ShardID r \<le> foldl ?f m rs) \<and>
      (foldl ?f m rs = m \<or> foldl ?f m rs \<in> re_ShardID ` set rs)" for m and rs :: "range_entry list"
  proof (induction rs arbitrary: m)
    case (Cons r rs)
    have "m \<le> ?f m r" "re_ShardID r \<le> ?f m r" "?f m r \<in> {m, re_ShardID r}" by auto
    with Cons.IH [of "?f m r"] show ?case unfolding foldl_Cons by (auto intro: order_trans)
  qed simp
  from this [of 0 "rd_ranges d"] show "r \<in> set (rd_ranges d) \<Longrightarrow> re_ShardID r \<le> maxShardID d"
    "maxShardID d = 0 \<or> maxShardID d \<in> re_ShardID ` set (rd_ranges d)"
    by (auto simp: maxShardID_def)
qed

text \<open>A directory with a shard id to spare.\<close>

definition spare_id :: "dir_map \<Rightarrow> bool" where
  "spare_id R \<longleftrightarrow> (\<forall>a z sh. R a = Some (z, sh) \<longrightarrow> sh < - 1)"

lemma fresh_shard:
  assumes "dir_ok R" "spare_id R" "R s0 = Some (stop, sh0)"
    "set (rd_ranges d) = {\<lparr>re_Start = a, re_End = z, re_ShardID = sh\<rparr> | a z sh. R a = Some (z, sh)}"
  shows "sh0 < maxShardID d + 1" "firstDataShard \<le> maxShardID d + 1" "\<not> owner R rk (maxShardID d + 1)"
proof -
  have ge: "sh \<le> maxShardID d" if "R a = Some (z, sh)" for a z sh
    using maxShardID_bounds(1) [of "\<lparr>re_Start = a, re_End = z, re_ShardID = sh\<rparr>" d] that by (auto simp: assms(4))
  have "maxShardID d < - 1"
    using maxShardID_bounds(2) [of d] assms(2) by (auto simp: assms(4) spare_id_def word_gt_0)
  then have lt: "sh < maxShardID d + 1" if "R a = Some (z, sh)" for a z sh
    using ge [OF that] by unat_arith
  show "sh0 < maxShardID d + 1" by (rule lt [OF assms(3)])
  then show "firstDataShard \<le> maxShardID d + 1" using dir_okD(2) [OF assms(1,3)] by (meson less_le_not_le order_trans)
  show "\<not> owner R rk (maxShardID d + 1)" using lt by (fastforce simp: owner_def)
qed

definition tier_ok :: "dir_map \<Rightarrow> tier_rows \<Rightarrow> bool" where
  "tier_ok R \<rho> \<longleftrightarrow> dir_ok R \<and> rows_ok R \<rho>"

definition same_tier :: "dir_map \<Rightarrow> tier_rows \<Rightarrow> dir_map \<Rightarrow> tier_rows \<Rightarrow> bool" where
  "same_tier R \<rho> R' \<rho>' \<longleftrightarrow> held R' \<rho>' = held R \<rho> \<and> (\<forall>rk. (\<exists>sh. owner R' rk sh) \<longleftrightarrow> (\<exists>sh. owner R rk sh))"

definition cached :: "control \<Rightarrow> dir_map \<Rightarrow> bool" where
  "cached c R \<longleftrightarrow> (\<exists>d. ct_dir c = Some d \<and> rd_metaShard d = MetaShardID \<and>
     set (rd_ranges d) = {\<lparr>re_Start = a, re_End = z, re_ShardID = sh\<rparr> | a z sh. R a = Some (z, sh)})"

text \<open>The steps of a successful split.\<close>

lemma Split_steps:
  assumes "Split rf c k i ms e = (Inr n, c', e')" "ct_dir c = Some d"
  obtains d1 old e1 e2 r3 e3 an e4 r5 e5 r6 e6 r7 d2 where
    "RangeDirectory_Refresh (rf_ReadMeta rf e) d = (d1, None)" "covering (rd_ranges d1) k = Some old" "re_Start old \<noteq> k"
    "n = maxShardID d1 + 1" "rf_StartShard rf e n i ms = (e1, None)" "rf_waitLeader rf e1 n = (e2, None)"
    "rf_Propose rf e2 (re_ShardID old) (encodeFreeze k (re_End old)) = (e3, Inr r3)"
    "rf_Read rf e3 (re_ShardID old) (migrateScanQuery k (re_End old) 0) = Inr an"
    "ingestInto rf n (raw_of an) e3 = (e4, None)"
    "rf_Propose rf e4 MetaShardID (meta_put (re_Start old) k (re_ShardID old)) = (e5, Inr r5)"
    "rf_Propose rf e5 MetaShardID (meta_put k (re_End old) n) = (e6, Inr r6)"
    "rf_Propose rf e6 (re_ShardID old) (encodePurge k (re_End old)) = (e', Inr r7)"
    "RangeDirectory_Refresh (rf_ReadMeta rf e') d1 = (d2, None)" "c' = \<lparr>ct_dir = Some d2\<rparr>"
  using assms unfolding Split_def
  by (auto simp: rangeContaining_def Let_def split: if_splits option.splits dest!: ctl_Inr)

lemma Merge_steps:
  assumes "Merge rf c b e = (Inr u, c', e')" "ct_dir c = Some d"
  obtains d1 left right an e1 r2 e2 r3 e3 r4 e4 r5 d2 where
    "b \<noteq> []" "RangeDirectory_Refresh (rf_ReadMeta rf e) d = (d1, None)"
    "find_left b (rd_ranges d1) = Some left" "find_right b (rd_ranges d1) = Some right" "re_ShardID left \<noteq> re_ShardID right"
    "rf_Read rf e (re_ShardID right) (migrateScanQuery (re_Start right) (re_End right) 0) = Inr an"
    "ingestInto rf (re_ShardID left) (raw_of an) e = (e1, None)"
    "rf_Propose rf e1 (re_ShardID left) (encodeUnfreeze (re_Start right) (re_End right)) = (e2, Inr r2)"
    "rf_Propose rf e2 MetaShardID (meta_put (re_Start left) (re_End right) (re_ShardID left)) = (e3, Inr r3)"
    "rf_Propose rf e3 MetaShardID (meta_delete (re_Start right)) = (e4, Inr r4)"
    "rf_Propose rf e4 (re_ShardID right) (encodePurge (re_Start right) (re_End right)) = (e', Inr r5)"
    "RangeDirectory_Refresh (rf_ReadMeta rf e') d1 = (d2, None)" "c' = \<lparr>ct_dir = Some d2\<rparr>"
  using assms unfolding Merge_def
  by (auto simp: RangeDirectory_all_def split: if_splits option.splits dest!: ctl_Inr)

lemma move_tier:
  assumes "tier_ok R \<rho>" "x \<noteq> y" "\<And>rk. inRoute rk a z \<Longrightarrow> owner R rk x" "dir_ok R'"
    "\<And>rk sh. owner R' rk sh \<longleftrightarrow> (if inRoute rk a z then sh = y else owner R rk sh)"
  shows "tier_ok R' (moved a z x y \<rho>)" "same_tier R \<rho> R' (moved a z x y \<rho>)"
proof -
  have r: "rows_ok R \<rho>" "dir_ok R" using assms(1) by (simp_all add: tier_ok_def)
  note m = moved_rows [OF r assms(2,3,5)]
  show "tier_ok R' (moved a z x y \<rho>)" using m(1) assms(4) by (simp add: tier_ok_def)
  show "same_tier R \<rho> R' (moved a z x y \<rho>)" unfolding same_tier_def using m(2,3) by blast
qed

lemma data_shard: "firstDataShard \<le> sh \<Longrightarrow> sh \<noteq> MetaShardID"
  by (auto simp: firstDataShard_def MetaShardID_def word_le_nat_alt)

lemma Split_tier:
  assumes laws: "raft_laws fl rf good view" and e: "good e" and ok: "tier_ok (tier_dir view e) (tier_rows view e)"
    and spare: "spare_id (tier_dir view e)" and d: "ct_dir c = Some d" "rd_metaShard d = MetaShardID" and k: "length k < 2 ^ 30"
    and split: "Split rf c k i ms e = (Inr n, c', e')"
  shows "good e' \<and> tier_ok (tier_dir view e') (tier_rows view e') \<and>
    same_tier (tier_dir view e) (tier_rows view e) (tier_dir view e') (tier_rows view e') \<and> cached c' (tier_dir view e')"
proof -
  let ?R = "tier_dir view e" and ?\<rho> = "tier_rows view e"
  have dok: "dir_ok ?R" "rows_ok ?R ?\<rho>" using ok by (simp_all add: tier_ok_def)
  obtain d1 old e1 e2 r3 e3 an e4 r5 e5 r6 e6 r7 d2 where
    s: "RangeDirectory_Refresh (rf_ReadMeta rf e) d = (d1, None)" "covering (rd_ranges d1) k = Some old" "re_Start old \<noteq> k"
      "n = maxShardID d1 + 1" "rf_StartShard rf e n i ms = (e1, None)" "rf_waitLeader rf e1 n = (e2, None)"
      "rf_Propose rf e2 (re_ShardID old) (encodeFreeze k (re_End old)) = (e3, Inr r3)"
      "rf_Read rf e3 (re_ShardID old) (migrateScanQuery k (re_End old) 0) = Inr an"
      "ingestInto rf n (raw_of an) e3 = (e4, None)"
      "rf_Propose rf e4 MetaShardID (meta_put (re_Start old) k (re_ShardID old)) = (e5, Inr r5)"
      "rf_Propose rf e5 MetaShardID (meta_put k (re_End old) n) = (e6, Inr r6)"
      "rf_Propose rf e6 (re_ShardID old) (encodePurge k (re_End old)) = (e', Inr r7)"
      "RangeDirectory_Refresh (rf_ReadMeta rf e') d1 = (d2, None)" "c' = \<lparr>ct_dir = Some d2\<rparr>"
    by (rule Split_steps [OF split d(1)]) blast
  obtain s0 z x where old: "old = \<lparr>re_Start = s0, re_End = z, re_ShardID = x\<rparr>" by (cases old) auto
  note rd1 = refresh_dir [OF laws e d(2) s(1)]
  have s0: "?R s0 = Some (z, x)" "inRoute k s0 z" "s0 \<noteq> k"
    using covering_Some [OF s(2)] s(3) by (auto simp: old rd1(2))
  note fresh = fresh_shard [OF dok(1) spare s0(1) rd1(2), folded s(4)]
  have x: "firstDataShard \<le> x" "length s0 < 2 ^ 30" "length z < 2 ^ 30" using dir_okD [OF dok(1) s0(1)] by blast+
  then have meta: "x \<noteq> MetaShardID" "n \<noteq> MetaShardID" and xn: "x \<noteq> n"
    using fresh(1,2) data_shard by auto
  have t2: "good e2" "tier_dir view e2 = ?R" "tier_rows view e2 = ?\<rho>"
    using law_start [OF laws e disjI1 [OF s(5)]] law_start [OF laws _ disjI2 [OF s(6)]] by simp_all
  have t3: "good e3" "tier_dir view e3 = ?R" "tier_rows view e3 = ?\<rho>"
    using data_step(2) [OF laws t2(1) meta(1), of _ e3 r3 k z] s(7) k x by (simp_all add: old t2)
  have t4: "good e4" "tier_dir view e4 = ?R" "tier_rows view e4 = ?\<rho>(n := ?\<rho> n ++ (\<lambda>sfx. if in_sub k z sfx then ?\<rho> x sfx else None))"
    using copy_step [OF laws t3(1) _ meta, of ?R k z an e4] s(8,9) dok(2) by (simp_all add: old t3 cong: if_cong)
  have t5: "good e5" "tier_dir view e5 = ?R(s0 \<mapsto> (k, x))" "tier_rows view e5 = tier_rows view e4"
    using meta_step(1) [OF laws t4(1), of s0 k x e5 r5] s(10) k x by (simp_all add: old t4)
  have t6: "good e6" "tier_dir view e6 = ?R(s0 \<mapsto> (k, x), k \<mapsto> (z, n))" "tier_rows view e6 = tier_rows view e4"
    using meta_step(1) [OF laws t5(1), of k z n e6 r6] s(11) k x by (simp_all add: old t5)
  have t7: "good e'" "tier_dir view e' = ?R(s0 \<mapsto> (k, x), k \<mapsto> (z, n))" "tier_rows view e' = moved k z x n ?\<rho>"
    using data_step(3) [OF laws t6(1) meta(1), of k z e' r7] s(12) k x xn by (simp_all add: old t6 t4(3) moved_def cong: if_cong)
  note dir = split_dir [OF dok(1) s0 k fresh(2)]
  have "cached c' (tier_dir view e')"
    using refresh_dir [OF laws t7(1) rd1(1) s(13)] by (simp add: cached_def s(14))
  then show ?thesis
    using move_tier [OF ok xn dir(3,1,2)] t7 by simp
qed

lemma find_left_mem: "find_left b rs = Some r \<Longrightarrow> r \<in> set rs \<and> re_End r = b"
  by (induction rs rule: rev_induct) (auto simp: find_left_def split: if_splits)

lemma find_right_mem: "find_right b rs = Some r \<Longrightarrow> r \<in> set rs \<and> re_Start r = b"
  by (induction rs rule: rev_induct) (auto simp: find_right_def split: if_splits)

lemma Merge_tier:
  assumes laws: "raft_laws fl rf good view" and e: "good e" and ok: "tier_ok (tier_dir view e) (tier_rows view e)"
    and d: "ct_dir c = Some d" "rd_metaShard d = MetaShardID" and merge: "Merge rf c b e = (Inr u, c', e')"
  shows "good e' \<and> tier_ok (tier_dir view e') (tier_rows view e') \<and>
    same_tier (tier_dir view e) (tier_rows view e) (tier_dir view e') (tier_rows view e') \<and> cached c' (tier_dir view e')"
proof -
  let ?R = "tier_dir view e" and ?\<rho> = "tier_rows view e"
  have dok: "dir_ok ?R" "rows_ok ?R ?\<rho>" using ok by (simp_all add: tier_ok_def)
  obtain d1 left right an e1 r2 e2 r3 e3 r4 e4 r5 d2 where
    s: "b \<noteq> []" "RangeDirectory_Refresh (rf_ReadMeta rf e) d = (d1, None)"
      "find_left b (rd_ranges d1) = Some left" "find_right b (rd_ranges d1) = Some right" "re_ShardID left \<noteq> re_ShardID right"
      "rf_Read rf e (re_ShardID right) (migrateScanQuery (re_Start right) (re_End right) 0) = Inr an"
      "ingestInto rf (re_ShardID left) (raw_of an) e = (e1, None)"
      "rf_Propose rf e1 (re_ShardID left) (encodeUnfreeze (re_Start right) (re_End right)) = (e2, Inr r2)"
      "rf_Propose rf e2 MetaShardID (meta_put (re_Start left) (re_End right) (re_ShardID left)) = (e3, Inr r3)"
      "rf_Propose rf e3 MetaShardID (meta_delete (re_Start right)) = (e4, Inr r4)"
      "rf_Propose rf e4 (re_ShardID right) (encodePurge (re_Start right) (re_End right)) = (e', Inr r5)"
      "RangeDirectory_Refresh (rf_ReadMeta rf e') d1 = (d2, None)" "c' = \<lparr>ct_dir = Some d2\<rparr>"
    by (rule Merge_steps [OF merge d(1)]) blast
  note rd1 = refresh_dir [OF laws e d(2) s(2)]
  obtain sl y where l: "left = \<lparr>re_Start = sl, re_End = b, re_ShardID = y\<rparr>" "?R sl = Some (b, y)"
    using find_left_mem [OF s(3)] by (auto simp: rd1(2))
  obtain z x where r: "right = \<lparr>re_Start = b, re_End = z, re_ShardID = x\<rparr>" "?R b = Some (z, x)"
    using find_right_mem [OF s(4)] by (auto simp: rd1(2))
  have ids: "firstDataShard \<le> x" "firstDataShard \<le> y" and len: "length sl < 2 ^ 30" "length b < 2 ^ 30" "length z < 2 ^ 30"
    using dir_okD [OF dok(1) l(2)] dir_okD [OF dok(1) r(2)] by blast+
  then have meta: "x \<noteq> MetaShardID" "y \<noteq> MetaShardID" and xy: "x \<noteq> y"
    using s(5) data_shard by (auto simp: l r)
  have t1: "good e1" "tier_dir view e1 = ?R" "tier_rows view e1 = ?\<rho>(y := ?\<rho> y ++ (\<lambda>sfx. if in_sub b z sfx then ?\<rho> x sfx else None))"
    using copy_step [OF laws e dok(2) meta, of b z an e1] s(6,7) by (simp_all add: l r cong: if_cong)
  have t2: "good e2" "tier_dir view e2 = ?R" "tier_rows view e2 = tier_rows view e1"
    using data_step(2) [OF laws t1(1) meta(2), of _ e2 r2 b z] s(8) len by (simp_all add: l r t1(2))
  have t3: "good e3" "tier_dir view e3 = ?R(sl \<mapsto> (z, y))" "tier_rows view e3 = tier_rows view e1"
    using meta_step(1) [OF laws t2(1), of sl z y e3 r3] s(9) len by (simp_all add: l r t2)
  have t4: "good e4" "tier_dir view e4 = ?R(sl \<mapsto> (z, y), b := None)" "tier_rows view e4 = tier_rows view e1"
    using meta_step(2) [OF laws t3(1), of b b e4 r4] s(10) len by (simp_all add: l r t3)
  have t5: "good e'" "tier_dir view e' = ?R(sl \<mapsto> (z, y), b := None)" "tier_rows view e' = moved b z x y ?\<rho>"
    using data_step(3) [OF laws t4(1) meta(1), of b z e' r5] s(11) len xy by (simp_all add: l r t4 t1(3) moved_def cong: if_cong)
  note dir = merge_dir [OF dok(1) l(2) r(2) s(1)]
  have "cached c' (tier_dir view e')"
    using refresh_dir [OF laws t5(1) rd1(1) s(12)] by (simp add: cached_def s(13))
  then show ?thesis
    using move_tier [OF ok xy dir(3,1,2)] t5 by simp
qed

text \<open>Any number of splits and merges, each successful, one after the other.\<close>

inductive rebalance :: "'e raft \<Rightarrow> ('e \<Rightarrow> u64 \<Rightarrow> base_sm) \<Rightarrow> control \<times> 'e \<Rightarrow> control \<times> 'e \<Rightarrow> bool"
  for rf view s0 where
  rebalance_refl: "rebalance rf view s0 s0"
| rebalance_split: "rebalance rf view s0 (c, e) \<Longrightarrow> spare_id (tier_dir view e) \<Longrightarrow> length k < 2 ^ 30 \<Longrightarrow>
    Split rf c k i ms e = (Inr n, c', e') \<Longrightarrow> rebalance rf view s0 (c', e')"
| rebalance_merge: "rebalance rf view s0 (c, e) \<Longrightarrow> Merge rf c b e = (Inr u, c', e') \<Longrightarrow> rebalance rf view s0 (c', e')"

lemma same_tier_refl: "same_tier R \<rho> R \<rho>"
  by (simp add: same_tier_def)

lemma same_tier_trans: "same_tier R \<rho> R' \<rho>' \<Longrightarrow> same_tier R' \<rho>' R'' \<rho>'' \<Longrightarrow> same_tier R \<rho> R'' \<rho>''"
  by (simp add: same_tier_def)


section \<open>An engine of one node\<close>

text \<open>Every shard has a store of its own and a proposal is applied at once.\<close>

definition demo_propose :: "(u64 \<Rightarrow> mem_store) \<Rightarrow> u64 \<Rightarrow> bytes \<Rightarrow> (u64 \<Rightarrow> mem_store) \<times> (coll_error + propose_result)" where
  "demo_propose e sh cmd =
     (case (if sh = MetaShardID then metaSM_Update (newMetaSM (e sh) sh) [demo_entry cmd]
            else Update demo_float (newShardSM (e sh) sh) [demo_entry cmd]) of
        (Inl err, _) \<Rightarrow> (e, Inl err)
      | (Inr es, s) \<Rightarrow> (e(sh := sm_store s), Inr (e_Result (hd es))))"

definition demo_raft :: "(u64 \<Rightarrow> mem_store) raft" where
  "demo_raft = \<lparr>rf_StartShard = (\<lambda>e sh i ms. (e, None)), rf_waitLeader = (\<lambda>e sh. (e, None)), rf_Propose = demo_propose,
     rf_Read = (\<lambda>e sh. Lookup (newShardSM (e sh) sh)), rf_ReadMeta = (\<lambda>e sh. metaSM_Lookup (newMetaSM (e sh) sh))\<rparr>"

definition demo_view :: "(u64 \<Rightarrow> mem_store) \<Rightarrow> u64 \<Rightarrow> base_sm" where
  "demo_view e sh = newBaseSM (e sh) sh"

definition demo_good :: "(u64 \<Rightarrow> mem_store) \<Rightarrow> bool" where
  "demo_good e \<longleftrightarrow> (\<forall>sh. mem_invar (e sh))"

lemma batch_invar: "mem_invar s \<Longrightarrow> MemStore_BatchRC s ops = (s', None) \<Longrightarrow> mem_invar s'"
  using mem_apply_ops by (auto simp: MemStore_BatchRC_def MemStore_Batch_def split: if_splits)

lemma Update_frame:
  "Update fl s es = (Inr es', s') \<Longrightarrow> mem_invar (sm_store s) \<Longrightarrow> s' = s\<lparr>sm_store := sm_store s'\<rparr> \<and> mem_invar (sm_store s')"
  by (auto simp: Update_def dest: batch_invar split: if_splits sum.splits prod.splits option.splits)

lemma metaSM_Update_frame:
  "metaSM_Update s es = (Inr es', s') \<Longrightarrow> mem_invar (sm_store s) \<Longrightarrow> s' = s\<lparr>sm_store := sm_store s'\<rparr> \<and> mem_invar (sm_store s')"
  by (auto simp: metaSM_Update_def dest: batch_invar split: if_splits sum.splits prod.splits option.splits)

lemma demo_propose_applied:
  assumes "demo_good e" "demo_propose e sh cmd = (e', Inr r)"
  shows "demo_good e' \<and> applied_by demo_float demo_view sh cmd e e'"
proof -
  obtain es s' where u: "(if sh = MetaShardID then metaSM_Update (newBaseSM (e sh) sh) [demo_entry cmd]
      else Update demo_float (newBaseSM (e sh) sh) [demo_entry cmd]) = (Inr es, s')" "e' = e(sh := sm_store s')"
    using assms(2) unfolding demo_propose_def newMetaSM_def newShardSM_def by (auto split: prod.splits sum.splits)
  have "mem_invar (sm_store (newBaseSM (e sh) sh))" using assms(1) by (simp add: demo_good_def newBaseSM_def)
  then have s': "s' = (newBaseSM (e sh) sh)\<lparr>sm_store := sm_store s'\<rparr>" "mem_invar (sm_store s')"
    using u(1) Update_frame metaSM_Update_frame by (auto split: if_splits)
  have "demo_view e' sh = s'" by (subst s'(1)) (simp add: demo_view_def u(2) newBaseSM_def)
  moreover have "e_Cmd (demo_entry cmd) = cmd" by (simp add: demo_entry_def)
  moreover have "demo_view e' sh' = demo_view e sh'" if "sh' \<noteq> sh" for sh' using that by (simp add: demo_view_def u(2))
  ultimately have "applied_by demo_float demo_view sh cmd e e'"
    using u(1) unfolding applied_by_def shard_row_def by (metis demo_view_def)
  then show ?thesis using s'(2) assms(1) by (simp add: demo_good_def u(2))
qed

lemma demo_laws: "raft_laws demo_float demo_raft demo_good demo_view"
  unfolding raft_laws_def
proof (intro conjI allI impI)
  fix e e' :: "u64 \<Rightarrow> mem_store" and sh cmd r
  assume "demo_good e"
  then show "healthy (demo_view e sh)" "sm_prefix (demo_view e sh) = PutUint64 sh"
    by (simp_all add: demo_good_def healthy_def demo_view_def newBaseSM_def)
  assume "rf_Propose demo_raft e sh cmd = (e', Inr r)"
  with \<open>demo_good e\<close> show "demo_good e'" "applied_by demo_float demo_view sh cmd e e'"
    using demo_propose_applied by (simp_all add: demo_raft_def)
qed (auto simp: demo_raft_def demo_view_def newShardSM_def newMetaSM_def)

definition demo_store :: mem_store where
  "demo_store = fst (MemStore_BatchRC NewMemStore
     [put_op CFReplData (PutUint64 2 @ subData # routeKey [1] [1] @ [scopeType]) [1],
      put_op CFReplData (PutUint64 2 @ subData # routeKey [2] [1] @ [scopeType]) [2]])"

definition demo_tier :: "u64 \<Rightarrow> mem_store" where
  "demo_tier = (\<lambda>sh. if sh = 2 then demo_store else if sh = MetaShardID then
     sm_store (snd (metaSM_Update demo_meta [demo_entry (meta_put [] [] 2)])) else NewMemStore)"

definition demo_control :: control where
  "demo_control = \<lparr>ct_dir = Some \<lparr>rd_metaShard = MetaShardID, rd_ranges = [\<lparr>re_Start = [], re_End = [], re_ShardID = 2\<rparr>]\<rparr>\<rparr>"

lemma demo_split_ok: "fst (Split demo_raft demo_control (routeKey [2] [1]) 1 [] demo_tier) = Inr 3"
  by code_simp

lemma demo_merge_ok:
  "fst (let (r, c, e) = Split demo_raft demo_control (routeKey [2] [1]) 1 [] demo_tier in Merge demo_raft c (routeKey [2] [1]) e) = Inr ()"
  by code_simp

lemma demo_rows: "cfs demo_store CFReplData =
    [(PutUint64 2 @ subData # routeKey [1] [1] @ [scopeType], [1]), (PutUint64 2 @ subData # routeKey [2] [1] @ [scopeType], [2])]"
  by code_simp

lemma demo_meta_updated:
  defines "m \<equiv> snd (metaSM_Update demo_meta [demo_entry (meta_put [] [] 2)])"
  shows "healthy m" "newBaseSM (sm_store m) MetaShardID = m" "fst (meta_abs m) = [[] \<mapsto> ([], 2)]"
proof -
  let ?c = "\<lparr>mc_Op = opMetaPut, mc_Start = [], mc_End = [], mc_ShardID = 2\<rparr>"
  have h: "healthy demo_meta" "mem_invar (sm_store demo_meta)"
    by (simp_all add: demo_meta_def newMetaSM_def newBaseSM_def healthy_def)
  have "\<exists>es. metaSM_Update demo_meta [demo_entry (meta_put [] [] 2)] = (Inr es, m) \<and> healthy m \<and>
      meta_abs m = spec_meta (meta_abs demo_meta) ?c"
    using metaSM_Update_abs [OF h(1), of "[demo_entry (meta_put [] [] 2)]" "[?c]"]
    by (auto simp: m_def demo_entry_def meta_put_def meta_ok_def encodeMetaCommand_bytes)
  then obtain es where m: "metaSM_Update demo_meta [demo_entry (meta_put [] [] 2)] = (Inr es, m)" "healthy m"
    "meta_abs m = spec_meta (meta_abs demo_meta) ?c" by blast
  show "healthy m" by (rule m(2))
  have "meta_abs demo_meta = (Map.empty, Map.empty)"
    by (simp add: meta_abs_def base_def demo_meta_def newMetaSM_def newBaseSM_def fun_eq_iff)
  then show "fst (meta_abs m) = [[] \<mapsto> ([], 2)]" by (simp add: m(3) spec_meta_def)
  have "m = demo_meta\<lparr>sm_store := sm_store m\<rparr>" using metaSM_Update_frame [OF m(1) h(2)] by blast
  then show "newBaseSM (sm_store m) MetaShardID = m"
    by (metis base_sm.select_convs(1) base_sm.update_convs(1) demo_meta_def newBaseSM_def newMetaSM_def)
qed

lemma demo_good: "demo_good demo_tier"
proof -
  have "mem_invar demo_store"
    using mem.batch_fst(2) [of NewMemStore "[put_op CFReplData (PutUint64 2 @ subData # routeKey [1] [1] @ [scopeType]) [1],
      put_op CFReplData (PutUint64 2 @ subData # routeKey [2] [1] @ [scopeType]) [2]]"] by (simp add: demo_store_def put_op_def)
  then show ?thesis using demo_meta_updated(1) by (simp add: demo_good_def demo_tier_def healthy_def)
qed

lemma demo_dir: "tier_dir demo_view demo_tier = [[] \<mapsto> ([], 2)]"
  using demo_meta_updated(2,3) by (simp add: tier_dir_def demo_view_def demo_tier_def MetaShardID_def)

lemma demo_tier_ok: "tier_ok (tier_dir demo_view demo_tier) (tier_rows demo_view demo_tier)"
proof -
  have route: "routeKeyOf (subData # routeKey [1] [1] @ [scopeType]) \<noteq> None" "routeKeyOf (subData # routeKey [2] [1] @ [scopeType]) \<noteq> None"
    by code_simp+
  have row: "length sfx + length v < 2 ^ 24 - 64 \<and> sh = 2 \<and> routeKeyOf sfx \<noteq> None"
    if "tier_rows demo_view demo_tier sh sfx = Some v" for sh sfx v
  proof (cases "sh = 2")
    case True
    then have "sfx = subData # routeKey [1] [1] @ [scopeType] \<and> v = [1] \<or> sfx = subData # routeKey [2] [1] @ [scopeType] \<and> v = [2]"
      using that demo_rows
      by (auto simp: tier_rows_def own_row_def demo_view_def demo_tier_def base_def mem_view_def newBaseSM_def split: if_splits)
    then show ?thesis using route True by (auto simp: routeKey_def appendChunk_chunk)
  next
    case False
    then show ?thesis using that
      by (auto simp: tier_rows_def own_row_def demo_view_def demo_tier_def base_def newBaseSM_def split: if_splits)
  qed
  have "rows_ok [[] \<mapsto> ([], 2)] (tier_rows demo_view demo_tier)"
    unfolding rows_ok_def owner_def using row by (fastforce simp: inRoute_def)
  then show ?thesis unfolding tier_ok_def demo_dir by (auto simp: dir_ok_def firstDataShard_def split: if_splits)
qed


section \<open>A retired shard comes back frozen\<close>

text \<open>
  After two splits and the merges that undo them, the next split gives its new range the id of a retired shard, and the
  freeze that the second split left in that shard rejects every write above the old boundary.
\<close>

definition demo_empty :: "u64 \<Rightarrow> mem_store" where
  "demo_empty = demo_tier(2 := NewMemStore)"

definition demo_cut :: "bytes \<Rightarrow> control \<times> (u64 \<Rightarrow> mem_store) \<Rightarrow> control \<times> (u64 \<Rightarrow> mem_store)" where
  "demo_cut k s = snd (Split demo_raft (fst s) k 1 [] (snd s))"

definition demo_join :: "bytes \<Rightarrow> control \<times> (u64 \<Rightarrow> mem_store) \<Rightarrow> control \<times> (u64 \<Rightarrow> mem_store)" where
  "demo_join b s = snd (Merge demo_raft (fst s) b (snd s))"

definition demo_reused :: "control \<times> (u64 \<Rightarrow> mem_store)" where
  "demo_reused = demo_cut [1] (demo_join [9] (demo_join [5] (demo_cut [9] (demo_cut [5] (demo_control, demo_empty)))))"

lemma reused_shard_frozen:
  "map_option rd_ranges (ct_dir (fst demo_reused)) =
     Some [\<lparr>re_Start = [], re_End = [1], re_ShardID = 2\<rparr>, \<lparr>re_Start = [1], re_End = [], re_ShardID = 3\<rparr>] \<and>
   loadFrozen (newShardSM (snd demo_reused 3) 3) = Inr [\<lparr>fr_start = [9], fr_end = []\<rparr>]"
  by code_simp

end
