(* ===== verification/Spec2Isabelle.thy ===== *)
theory Spec2Isabelle
  imports Cut_Repair Ttl_Sweeper Global_Applier Coll_Reads Coll_Conserve Coll_Rebalance
begin

text \<open>
  A verification library for waveSpan, a geo-distributed key-value, collection and graph store written in Go.

  \<^bold>\<open>The parts and how they interact.\<close>  A node stamps every write with a version taken from its hybrid logical
  clock (\<open>src/internal/version\<close>).  The record store (\<open>src/internal/recordstore\<close>) writes versioned records,
  latest pointers and expiry rows into the column families of a local store (\<open>src/internal/storage\<close>); replicas
  of a cluster and the applier of inbound global replication (\<open>src/internal/replication/global/applier.go\<close>) call
  it in any order, and the resolvers of \<open>src/internal/conflict\<close> decide between concurrent records.  The sweeper
  of \<open>src/internal/ttl\<close> removes expired records, and the repair pass of \<open>src/internal/recordstore/repair.go\<close>
  runs after a restore cut.  The collections tier (\<open>src/internal/collections\<close>) is a replicated state machine per
  shard: sets, hashes, sorted sets, expiries and leased budgets as rows of one column family, changed only by
  \<open>Update\<close> on committed log entries and read by \<open>Lookup\<close>.

  \<^bold>\<open>The theories.\<close>
  \<^item> \<open>Wave_Prelude\<close>: byte strings, big-endian integers and uvarints, key ranges; the simp rules all theories share.
  \<^item> \<open>Hlc\<close>, \<open>Version\<close> (version/hlc.go, version.go): the clock with its wrapping logical counter, versions, their
    order and mutation ids.  Timestamps of a run strictly increase, a merge stays within the permitted skew, the
    comparison is a total order.
  \<^item> \<open>Records\<close>, \<open>Conflict\<close> (conflict/*.go): the record messages and the resolvers; the locale \<open>resolver\<close> is their
    contract, interpreted on last-write-wins and keep-siblings.
  \<^item> \<open>Local_Store\<close> (storage/cf.go, store.go, mem_store.go): the in-memory store; the locale \<open>local_store\<close>
    is the interface the upper layers use, interpreted on it.
  \<^item> \<open>Keys\<close>, \<open>Envelope\<close> (storage/envelope.go, recordstore/encode.go): key layouts, scan ranges that hold exactly
    the keys built for them, and the envelopes around messages.  The protocol-buffer library is the argument
    \<open>proto_codec\<close>, with decoding after encoding as its only law.
  \<^item> \<open>Record_Store\<close>, \<open>Record_Refine\<close>, \<open>Record_Convergence\<close> (recordstore/store.go): the store with its winner
    cache, namespaces and change log; the relation of a state to the set of records applied to it; convergence,
    exact reads and scans, live counts, expiry and removal over whole histories.
  \<^item> \<open>Cut_Repair\<close> (recordstore/repair.go), \<open>Ttl_Sweeper\<close> (ttl/ttl.go), \<open>Global_Applier\<close>
    (replication/global/applier.go): no pointer dangles after a repair; the sweep; idempotent, order-free apply.
  \<^item> \<open>Coll_Command\<close> (collections/command.go, proposer.go, migrate.go, freeze.go): commands, batches and scores on the wire.
  \<^item> \<open>Coll_State\<close>, \<open>Coll_Apply\<close>, \<open>Coll_Budget\<close>, \<open>Coll_Update\<close> (base_sm.go, statemachine.go, ttl.go, dedup.go,
    hincr.go, budget.go, migrate.go, freeze.go, sm_fatal.go): the shard state machine.  An operation takes the context of an update and
    returns an error or a value with the context as the code leaves it, so that error paths and roll-back are
    visible; run-time panics are the error \<open>errPanic\<close>, which the code recovers from.
  \<^item> \<open>Coll_Safety\<close>: key shapes, roll-back of a skipped entry, and that no committed entry makes an update fail.
  \<^item> \<open>Coll_View\<close>, \<open>Coll_Keep\<close>, \<open>Coll_Card\<close>: the rows of one collection in a context, an invariant every operation
    keeps, and the cardinality counters.
  \<^item> \<open>Coll_Refine\<close>, \<open>Coll_Reads\<close>: sets, hashes and sorted sets as HOL values; updates implement the abstract
    commands and the reads return the abstract values.
  \<^item> \<open>Coll_Ledger\<close>, \<open>Coll_Conserve\<close>: the units of a leased budget are conserved by every budget operation.
  \<^item> \<open>Coll_Directory\<close> (directory.go, meta.go, reshard.go): hash routing, the meta state machine, the range directory
    and the re-routing of stored rows.  The locale \<open>directory\<close> is the routing interface, interpreted on its three
    implementations; the meta state machine refines a map of ranges.
  \<^item> \<open>Coll_Control\<close>, \<open>Coll_Rebalance\<close> (control.go): split and merge of ranges over an abstract Raft engine (\<open>raft_laws\<close>);
    no row is lost, changed or left at a shard its routing key does not lead to, and what a retired shard keeps.

  \<^bold>\<open>Choices.\<close>  Go's fixed-width integers are words, so additions wrap as in the code; a \<open>float64\<close> is its bit
  pattern and the float operations are an argument (\<open>float_lib\<close>).  Go maps are partial functions, or association
  lists where the code iterates over them.  No definition uses fuel: loops recurse over the data, or over a
  measure proved in place (\<open>normalize\<close>, \<open>drain\<close>, \<open>install_rows\<close>, \<open>ingestInto\<close>).  Locks are not modelled: each operation holds
  its lock throughout, so an execution is a sequence of operations.  The refinement and the counters assume names
  shorter than 4 GiB and fewer than \<open>2 ^ 63\<close> changes, where the length prefix and the signed counter are exact.

  \<^bold>\<open>Not modelled.\<close>  The Raft library, the log-structured storage engine and the network are third-party or pure
  I/O; membership, caches, anti-entropy and the senders are timer and RPC loops whose effect on a node is the
  modelled apply; the query language, the vector index and the graph layer are separate engines over the store;
  servers, configuration, metrics, the operator, the command-line programs and the client libraries translate
  messages or wire the parts together; generated code is left to its generator.
\<close>

end
